(* ===== verification/Prelude.thy ===== *)
theory Prelude
  imports Main
begin

text \<open>
  Shared vocabulary of the development: the result of running a piece of the C++
  program, a small state-and-exception monad over an external world, and the generic
  lemmas on it that every component uses.

  A C++ call has four kinds of ends: it returns, it throws, it brings the process down
  (dereference of a null smart pointer, an exception that leaves a thread), or it never
  returns (a future whose promise is never fulfilled).
\<close>

named_theorems io_simps \<open>evaluation of the state-and-exception monad\<close>

section \<open>Exceptions and outcomes\<close>

text \<open>
  The exception classes the source throws or catches. \<open>Library_exception\<close> stands for any
  exception derived from \<open>std::exception\<close> that a library throws; every constructor carries
  the text that \<open>what()\<close> returns.
\<close>

datatype exn =
    InvalidInputException string
  | Invalid_argument string
  | Out_of_range string
  | Runtime_error string
  | Library_exception string

primrec what :: "exn \<Rightarrow> string" where
  "what (InvalidInputException s) = s"
| "what (Invalid_argument s) = s"
| "what (Out_of_range s) = s"
| "what (Runtime_error s) = s"
| "what (Library_exception s) = s"

datatype 'a outcome = Ret 'a | Throw exn | Abort | Blocked

fun out_bind :: "'a outcome \<Rightarrow> ('a \<Rightarrow> 'b outcome) \<Rightarrow> 'b outcome" where
  "out_bind (Ret x) f = f x"
| "out_bind (Throw e) f = Throw e"
| "out_bind Abort f = Abort"
| "out_bind Blocked f = Blocked"

lemma out_bind_Ret_iff [simp]: "out_bind m f = Ret y \<longleftrightarrow> (\<exists>x. m = Ret x \<and> f x = Ret y)"
  by (cases m) auto

lemma out_bind_assoc: "out_bind (out_bind m f) g = out_bind m (\<lambda>x. out_bind (f x) g)"
  by (cases m) auto

lemma out_bind_Ret_right [simp]: "out_bind m Ret = m"
  by (cases m) auto

text \<open>A library call that either throws or returns, seen as an outcome.\<close>

fun of_sum :: "exn + 'a \<Rightarrow> 'a outcome" where
  "of_sum (Inl e) = Throw e"
| "of_sum (Inr x) = Ret x"

lemma of_sum_Ret_iff [simp]: "of_sum r = Ret x \<longleftrightarrow> r = Inr x"
  by (cases r) auto

section \<open>The state-and-exception monad\<close>

text \<open>
  \<open>('w, 'a) io\<close> is a computation that reads and changes the world \<open>'w\<close> of the services
  the program talks to (databases, object stores, caches, the network).
\<close>

type_synonym ('w, 'a) io = "'w \<Rightarrow> 'a outcome \<times> 'w"

definition io_return :: "'a \<Rightarrow> ('w, 'a) io" where
  "io_return x = (\<lambda>w. (Ret x, w))"

definition io_throw :: "exn \<Rightarrow> ('w, 'a) io" where
  "io_throw e = (\<lambda>w. (Throw e, w))"

definition io_lift :: "'a outcome \<Rightarrow> ('w, 'a) io" where
  "io_lift r = (\<lambda>w. (r, w))"

definition io_bind :: "('w, 'a) io \<Rightarrow> ('a \<Rightarrow> ('w, 'b) io) \<Rightarrow> ('w, 'b) io" where
  "io_bind m f = (\<lambda>w.
     case m w of
       (Ret x, w') \<Rightarrow> f x w'
     | (Throw e, w') \<Rightarrow> (Throw e, w')
     | (Abort, w') \<Rightarrow> (Abort, w')
     | (Blocked, w') \<Rightarrow> (Blocked, w'))"

definition io_catch :: "('w, 'a) io \<Rightarrow> (exn \<Rightarrow> ('w, 'a) io) \<Rightarrow> ('w, 'a) io" where
  "io_catch m h = (\<lambda>w.
     case m w of (Throw e, w') \<Rightarrow> h e w' | r \<Rightarrow> r)"

definition io_seq :: "('w, 'a) io \<Rightarrow> ('w, 'b) io \<Rightarrow> ('w, 'b) io" where
  "io_seq m n = io_bind m (\<lambda>_. n)"

lemma io_return_apply [io_simps]: "io_return x w = (Ret x, w)"
  by (simp add: io_return_def)

lemma io_throw_apply [io_simps]: "io_throw e w = (Throw e, w)"
  by (simp add: io_throw_def)

lemma io_lift_apply [io_simps]: "io_lift r w = (r, w)"
  by (simp add: io_lift_def)

lemma io_bind_Ret [io_simps]: "m w = (Ret x, w') \<Longrightarrow> io_bind m f w = f x w'"
  by (simp add: io_bind_def)

lemma io_bind_Throw [io_simps]: "m w = (Throw e, w') \<Longrightarrow> io_bind m f w = (Throw e, w')"
  by (simp add: io_bind_def)

lemma io_bind_Abort [io_simps]: "m w = (Abort, w') \<Longrightarrow> io_bind m f w = (Abort, w')"
  by (simp add: io_bind_def)

lemma io_bind_Blocked [io_simps]: "m w = (Blocked, w') \<Longrightarrow> io_bind m f w = (Blocked, w')"
  by (simp add: io_bind_def)

lemma io_bind_return_left [simp]: "io_bind (io_return x) f = f x"
  by (simp add: io_bind_def io_return_def)

lemma io_bind_return_right [simp]: "io_bind m io_return = m"
  by (rule ext) (simp add: io_bind_def io_return_def split: prod.split outcome.split)

lemma io_bind_assoc: "io_bind (io_bind m f) g = io_bind m (\<lambda>x. io_bind (f x) g)"
  by (rule ext) (simp add: io_bind_def split: prod.split outcome.split)

lemma io_bind_throw_left [simp]: "io_bind (io_throw e) f = io_throw e"
  by (simp add: io_bind_def io_throw_def)

lemma io_catch_return [simp]: "io_catch (io_return x) h = io_return x"
  by (simp add: io_catch_def io_return_def)

lemma io_catch_throw [simp]: "io_catch (io_throw e) h = h e"
  by (simp add: io_catch_def io_throw_def)

lemma io_bind_Ret_iff:
  "io_bind m f w = (Ret y, w'') \<longleftrightarrow> (\<exists>x w'. m w = (Ret x, w') \<and> f x w' = (Ret y, w''))"
  by (auto simp: io_bind_def split: prod.splits outcome.splits)

lemma io_seq_Ret [io_simps]: "m w = (Ret x, w') \<Longrightarrow> io_seq m n w = n w'"
  by (simp add: io_seq_def io_simps)

lemma io_seq_return_left [simp]: "io_seq (io_return x) n = n"
  by (simp add: io_seq_def)

section \<open>Lists\<close>

text \<open>Joining with a separator, the shape of every loop that prints a comma between items.\<close>

fun intercalate :: "string \<Rightarrow> string list \<Rightarrow> string" where
  "intercalate sep [] = []"
| "intercalate sep [x] = x"
| "intercalate sep (x # y # xs) = x @ sep @ intercalate sep (y # xs)"

lemma intercalate_Cons:
  "intercalate sep (x # xs) = (if xs = [] then x else x @ sep @ intercalate sep xs)"
  by (cases xs) auto

lemma intercalate_snoc:
  "xs \<noteq> [] \<Longrightarrow> intercalate sep (xs @ [x]) = intercalate sep xs @ sep @ x"
  by (induction xs) (auto simp: intercalate_Cons)

lemma dropWhile_length_le: "length (drop 1 (dropWhile P xs)) \<le> length xs"
  using length_dropWhile_le [of P xs] by simp

lemma insert_eq_iff_member: "insert x A = A \<longleftrightarrow> x \<in> A"
  by auto

end
