(* ===== verification/Std_Lib.thy ===== *)
theory Std_Lib
  imports Prelude "HOL-Library.Word" "HOL-Library.Char_ord" "HOL-Library.List_Lexorder"
begin

text \<open>
  The parts of the C and C++ standard library that the source relies on, as executable
  functions on byte strings: splitting with \<open>std::getline\<close>, \<open>std::toupper\<close> in the C locale,
  the decimal conversions \<open>std::stoi\<close>, \<open>std::atoi\<close> and \<open>std::to_string\<close>, and the
  searching operations of \<open>std::string\<close>.
\<close>

section \<open>std::getline with a delimiter\<close>

text \<open>
  One call on the rest of a string stream: it fails exactly when the stream is already
  at its end, otherwise it extracts the characters before the next delimiter (or all of
  them) and discards the delimiter.
\<close>

definition getline :: "char \<Rightarrow> string \<Rightarrow> (string \<times> string) option" where
  "getline d s =
     (if s = [] then None
      else Some (takeWhile (\<lambda>c. c \<noteq> d) s, drop 1 (dropWhile (\<lambda>c. c \<noteq> d) s)))"

lemma getline_shorter: "getline d s = Some (t, r) \<Longrightarrow> length r < length s"
proof -
  assume "getline d s = Some (t, r)"
  then have s: "s \<noteq> []" and r: "r = drop 1 (dropWhile (\<lambda>c. c \<noteq> d) s)"
    by (auto simp: getline_def split: if_splits)
  from s obtain k where "length s = Suc k" by (cases s) auto
  moreover have "length (dropWhile (\<lambda>c. c \<noteq> d) s) \<le> length s"
    by (rule length_dropWhile_le)
  ultimately show "length r < length s" using r by simp
qed

text \<open>The loop \<open>while (std::getline(ss, token, d)) tokens.push_back(token);\<close>\<close>

function getline_all :: "char \<Rightarrow> string \<Rightarrow> string list" where
  "getline_all d s =
     (case getline d s of None \<Rightarrow> [] | Some (t, r) \<Rightarrow> t # getline_all d r)"
  by pat_completeness auto
termination
  by (relation "measure (\<lambda>(d, s). length s)") (auto dest: getline_shorter)

declare getline_all.simps [simp del]

lemma takeWhile_neq_step [simp]: "d \<notin> set t \<Longrightarrow> takeWhile (\<lambda>c. c \<noteq> d) (t @ d # r) = t"
  by (induction t) auto

lemma dropWhile_neq_step [simp]: "d \<notin> set t \<Longrightarrow> dropWhile (\<lambda>c. c \<noteq> d) (t @ d # r) = d # r"
  by (induction t) auto

lemma takeWhile_neq_all [simp]: "d \<notin> set t \<Longrightarrow> takeWhile (\<lambda>c. c \<noteq> d) t = t"
  by (induction t) auto

lemma dropWhile_neq_all [simp]: "d \<notin> set t \<Longrightarrow> dropWhile (\<lambda>c. c \<noteq> d) t = []"
  by (induction t) auto

lemma getline_all_Nil [simp]: "getline_all d [] = []"
  by (simp add: getline_all.simps [of d "[]"] getline_def)

lemma getline_all_no_delim:
  "s \<noteq> [] \<Longrightarrow> d \<notin> set s \<Longrightarrow> getline_all d s = [s]"
  by (simp add: getline_all.simps [of d s] getline_def)

lemma getline_all_step:
  "d \<notin> set t \<Longrightarrow> getline_all d (t @ d # r) = t # getline_all d r"
  by (simp add: getline_all.simps [of d "t @ d # r"] getline_def)

text \<open>Splitting inverts joining as long as the last token is not empty.\<close>

lemma getline_all_intercalate:
  assumes "ts \<noteq> []" and "last ts \<noteq> []" and "\<And>t. t \<in> set ts \<Longrightarrow> d \<notin> set t"
  shows "getline_all d (intercalate [d] ts) = ts"
  using assms
proof (induction ts)
  case Nil
  then show ?case by simp
next
  case (Cons t ts)
  show ?case
  proof (cases "ts = []")
    case True
    with Cons.prems show ?thesis by (simp add: getline_all_no_delim)
  next
    case False
    with Cons have "getline_all d (intercalate [d] ts) = ts" by simp
    with False Cons.prems show ?thesis
      by (simp add: intercalate_Cons getline_all_step)
  qed
qed

lemma getline_all_tokens_clean: "t \<in> set (getline_all d s) \<Longrightarrow> d \<notin> set t"
proof (induction d s rule: getline_all.induct)
  case (1 d s)
  show ?case
  proof (cases "getline d s")
    case None
    with "1.prems" show ?thesis by (simp add: getline_all.simps [of d s])
  next
    case (Some p)
    obtain a r where p: "p = (a, r)" by (cases p)
    with Some have a: "a = takeWhile (\<lambda>c. c \<noteq> d) s"
      by (auto simp: getline_def split: if_splits)
    from Some p "1.prems" have "t = a \<or> t \<in> set (getline_all d r)"
      by (simp add: getline_all.simps [of d s])
    then show ?thesis
    proof
      assume "t = a"
      with a show ?thesis by (auto dest: set_takeWhileD)
    next
      assume "t \<in> set (getline_all d r)"
      with "1.IH" Some p show ?thesis by blast
    qed
  qed
qed

lemma getline_all_eq_Nil_iff [simp]: "getline_all d s = [] \<longleftrightarrow> s = []"
  by (simp add: getline_all.simps [of d s] getline_def)

section \<open>Characters\<close>

definition char_code :: "char \<Rightarrow> nat" where
  "char_code c = of_char c"

text \<open>\<open>std::toupper\<close> in the C locale: the ASCII lower case letters change, nothing else does.\<close>

definition toupper :: "char \<Rightarrow> char" where
  "toupper c = (if 97 \<le> char_code c \<and> char_code c \<le> 122 then char_of (char_code c - 32) else c)"

lemma char_code_less: "char_code c < 256"
  by (simp add: char_code_def)

lemma char_code_toupper:
  "char_code (toupper c) =
     (if 97 \<le> char_code c \<and> char_code c \<le> 122 then char_code c - 32 else char_code c)"
  by (auto simp: toupper_def char_code_def of_char_of)

lemma toupper_idem [simp]: "toupper (toupper c) = toupper c"
proof -
  have "\<not> (97 \<le> char_code (toupper c) \<and> char_code (toupper c) \<le> 122)"
    by (auto simp: char_code_toupper)
  then show ?thesis unfolding toupper_def [of "toupper c"] by (rule if_not_P)
qed

text \<open>A \<open>char\<close> as the signed 8-bit integer it is on the targets of this program.\<close>

definition schar :: "char \<Rightarrow> int" where
  "schar c = (if char_code c < 128 then int (char_code c) else int (char_code c) - 256)"

section \<open>Decimal conversions\<close>

definition is_space :: "char \<Rightarrow> bool" where
  "is_space c \<longleftrightarrow> char_code c = 32 \<or> (9 \<le> char_code c \<and> char_code c \<le> 13)"

definition is_digit :: "char \<Rightarrow> bool" where
  "is_digit c \<longleftrightarrow> 48 \<le> char_code c \<and> char_code c \<le> 57"

fun digits_value :: "nat \<Rightarrow> string \<Rightarrow> nat" where
  "digits_value acc [] = acc"
| "digits_value acc (c # cs) = digits_value (10 * acc + (char_code c - 48)) cs"

text \<open>
  \<open>strtol\<close> in base ten without its range check: skip white space, read an optional sign
  and the longest run of digits. \<open>None\<close> when there is no digit.
\<close>

definition parse_decimal :: "string \<Rightarrow> int option" where
  "parse_decimal s =
     (let s1 = dropWhile is_space s;
          (neg, s2) = (case s1 of
                         [] \<Rightarrow> (False, [])
                       | c # cs \<Rightarrow> (if c = CHR ''-'' then (True, cs)
                                   else if c = CHR ''+'' then (False, cs) else (False, s1)));
          ds = takeWhile is_digit s2
      in if ds = [] then None
         else Some (if neg then - int (digits_value 0 ds) else int (digits_value 0 ds)))"

definition int_min :: int where "int_min = - 2147483648"
definition int_max :: int where "int_max = 2147483647"

definition stoi :: "string \<Rightarrow> int outcome" where
  "stoi s = (case parse_decimal s of
       None \<Rightarrow> Throw (Invalid_argument ''stoi'')
     | Some n \<Rightarrow> if int_min \<le> n \<and> n \<le> int_max then Ret n else Throw (Out_of_range ''stoi''))"

text \<open>
  \<open>std::atoi\<close> gives 0 when there is nothing to convert; the standard leaves values out of
  the range of \<open>int\<close> undefined, which is \<open>None\<close> here.
\<close>

definition atoi :: "string \<Rightarrow> int option" where
  "atoi s = (case parse_decimal s of
       None \<Rightarrow> Some 0
     | Some n \<Rightarrow> if int_min \<le> n \<and> n \<le> int_max then Some n else None)"

lemma stoi_range: "stoi s = Ret n \<Longrightarrow> int_min \<le> n \<and> n \<le> int_max"
  by (auto simp: stoi_def split: option.splits if_splits)

lemma atoi_range: "atoi s = Some n \<Longrightarrow> int_min \<le> n \<and> n \<le> int_max"
  by (auto simp: atoi_def int_min_def int_max_def split: option.splits if_splits)

text \<open>\<open>std::to_string\<close> of an unsigned value.\<close>

function to_string :: "nat \<Rightarrow> string" where
  "to_string n = (if n < 10 then [char_of (48 + n)] else to_string (n div 10) @ [char_of (48 + n mod 10)])"
  by pat_completeness auto
termination
  by (relation "measure id") auto

declare to_string.simps [simp del]

definition int_to_string :: "int \<Rightarrow> string" where
  "int_to_string i = (if i < 0 then CHR ''-'' # to_string (nat (- i)) else to_string (nat i))"

lemma is_digit_char_of: "n < 10 \<Longrightarrow> is_digit (char_of (48 + n :: nat))"
  by (simp add: is_digit_def char_code_def of_char_of)

lemma to_string_digits: "c \<in> set (to_string n) \<Longrightarrow> is_digit c"
proof (induction n rule: to_string.induct)
  case (1 n)
  show ?case
  proof (cases "n < 10")
    case True
    with "1.prems" show ?thesis by (auto simp: to_string.simps [of n] is_digit_char_of)
  next
    case False
    with "1" show ?thesis
      by (auto simp: to_string.simps [of n] is_digit_char_of)
  qed
qed

lemma to_string_not_Nil [simp]: "to_string n \<noteq> []"
  by (simp add: to_string.simps [of n])

lemma digits_value_append: "digits_value acc (xs @ [c]) = 10 * digits_value acc xs + (char_code c - 48)"
  by (induction xs arbitrary: acc) auto

lemma digits_value_to_string [simp]: "digits_value 0 (to_string n) = n"
proof (induction n rule: to_string.induct)
  case (1 n)
  show ?case
  proof (cases "n < 10")
    case True
    then show ?thesis by (simp add: to_string.simps [of n] char_code_def of_char_of)
  next
    case False
    then have "digits_value 0 (to_string (n div 10)) = n div 10" by (rule "1.IH")
    with False show ?thesis
      by (simp add: to_string.simps [of n] digits_value_append char_code_def of_char_of)
  qed
qed

lemma is_digit_not_space: "is_digit c \<Longrightarrow> \<not> is_space c"
  by (auto simp: is_digit_def is_space_def)

lemma is_digit_not_sign: "is_digit c \<Longrightarrow> c \<noteq> CHR ''-'' \<and> c \<noteq> CHR ''+''"
  by (auto simp: is_digit_def char_code_def)

lemma parse_decimal_to_string [simp]: "parse_decimal (to_string n) = Some (int n)"
proof -
  obtain c cs where s: "to_string n = c # cs" by (cases "to_string n") auto
  then have d: "is_digit c" using to_string_digits [of c n] by simp
  have tw: "takeWhile is_digit (c # cs) = c # cs"
    unfolding takeWhile_eq_all_conv using s to_string_digits [of _ n] by metis
  have v: "digits_value 0 (c # cs) = n"
    using digits_value_to_string [of n] s by simp
  have dw: "dropWhile is_space (c # cs) = c # cs"
    using d by (simp add: is_digit_not_space)
  show ?thesis
    unfolding parse_decimal_def Let_def s dw list.case
    using is_digit_not_sign [OF d] tw v by simp
qed

section \<open>Searching strings\<close>

text \<open>\<open>std::string::find\<close>: the least position where the pattern starts.\<close>

fun str_find :: "string \<Rightarrow> string \<Rightarrow> nat option" where
  "str_find pat [] = (if pat = [] then Some 0 else None)"
| "str_find pat (c # cs) =
     (if take (length pat) (c # cs) = pat then Some 0 else map_option Suc (str_find pat cs))"

text \<open>\<open>std::string::replace(pos, n, s)\<close> for a position inside the string.\<close>

definition str_replace :: "nat \<Rightarrow> nat \<Rightarrow> string \<Rightarrow> string \<Rightarrow> string" where
  "str_replace pos n new s = take pos s @ new @ drop (pos + n) s"

definition substr :: "nat \<Rightarrow> nat \<Rightarrow> string \<Rightarrow> string" where
  "substr pos n s = take n (drop pos s)"

text \<open>\<open>rfind\<close> of one character and the suffix that starts there.\<close>

definition rfind_suffix :: "char \<Rightarrow> string \<Rightarrow> string option" where
  "rfind_suffix d s =
     (if d \<in> set s then Some (d # rev (takeWhile (\<lambda>c. c \<noteq> d) (rev s))) else None)"

lemma rfind_suffix_append:
  "d \<notin> set e \<Longrightarrow> rfind_suffix d (s @ d # e) = Some (d # e)"
  by (simp add: rfind_suffix_def)

text \<open>
  A pattern whose first character does not occur in a prefix is found right after it.
\<close>

lemma str_find_prefix:
  assumes "p \<notin> set pre"
  shows "str_find (p # ps) (pre @ (p # ps) @ post) = Some (length pre)"
  using assms by (induction pre) auto

lemma str_replace_at:
  "str_replace (length pre) (length mid) new (pre @ mid @ post) = pre @ new @ post"
  by (simp add: str_replace_def)

text \<open>Characters up to the terminating zero: what \<open>c_str()\<close> shows to a C function.\<close>

definition c_str :: "string \<Rightarrow> string" where
  "c_str s = takeWhile (\<lambda>c. char_code c \<noteq> 0) s"

end
