(* ===== verification/Json_Lib.thy ===== *)
theory Json_Lib
  imports Std_Lib
begin

text \<open>
  The JSON library (Boost.JSON) as a parameter, and the message parser of
  \<open>src/web/parser.cpp\<close> that uses it.

  \<open>'j\<close> is the library's value type. Accessors that throw in C++ return an exception. The
  last part of the theory is a concrete instance over a small value type, used where a
  theorem about a concrete message is shown to apply.
\<close>

section \<open>The library interface\<close>

record parse_options =
  allow_comments :: bool
  allow_trailing_commas :: bool

definition default_parse_options :: parse_options where
  "default_parse_options = \<lparr>allow_comments = False, allow_trailing_commas = False\<rparr>"

record 'j json_lib =
  js_parse :: "parse_options \<Rightarrow> string \<Rightarrow> exn + 'j"
  js_serialize :: "'j \<Rightarrow> string"
  js_as_object :: "'j \<Rightarrow> exn + 'j"
  js_as_bool :: "'j \<Rightarrow> exn + bool"
  js_array :: "'j \<Rightarrow> 'j list option" \<comment> \<open>the elements, when the kind is array\<close>
  js_at :: "'j \<Rightarrow> string \<Rightarrow> exn + 'j"
  js_contains :: "'j \<Rightarrow> string \<Rightarrow> bool"
  js_to_int :: "'j \<Rightarrow> exn + int" \<comment> \<open>\<open>value_to<int>\<close>\<close>
  js_to_string :: "'j \<Rightarrow> exn + string" \<comment> \<open>\<open>value_to<std::string>\<close>\<close>
  js_empty_object :: "'j"
  js_set :: "string \<Rightarrow> 'j \<Rightarrow> 'j \<Rightarrow> 'j" \<comment> \<open>\<open>obj[key] = value\<close>\<close>
  js_of_string :: "string \<Rightarrow> 'j"
  js_of_array :: "'j list \<Rightarrow> 'j"

text \<open>Objects built from a list of assignments, in the order of the assignments.\<close>

definition js_object :: "'j json_lib \<Rightarrow> (string \<times> 'j) list \<Rightarrow> 'j" where
  "js_object J kvs = fold (\<lambda>(k, v) obj. js_set J k v obj) kvs (js_empty_object J)"

text \<open>What the library documents about the keys of such an object.\<close>

definition js_object_laws :: "'j json_lib \<Rightarrow> bool" where
  "js_object_laws J \<longleftrightarrow>
     (\<forall>k. \<not> js_contains J (js_empty_object J) k) \<and>
     (\<forall>obj k v k'. js_contains J (js_set J k v obj) k' \<longleftrightarrow> k' = k \<or> js_contains J obj k')"

lemma js_contains_fold:
  assumes "js_object_laws J"
  shows "js_contains J (fold (\<lambda>(k, v) obj. js_set J k v obj) kvs obj) k \<longleftrightarrow>
         k \<in> fst ` set kvs \<or> js_contains J obj k"
  using assms by (induction kvs arbitrary: obj) (auto simp: js_object_laws_def)

lemma js_contains_object:
  "js_object_laws J \<Longrightarrow> js_contains J (js_object J kvs) k \<longleftrightarrow> k \<in> fst ` set kvs"
  using js_contains_fold [of J kvs "js_empty_object J" k]
  by (simp add: js_object_def js_object_laws_def)

section \<open>The parser of web socket messages\<close>

definition parser_options :: parse_options where
  "parser_options = \<lparr>allow_comments = True, allow_trailing_commas = True\<rparr>"

definition parser_parse :: "'j json_lib \<Rightarrow> string \<Rightarrow> exn + 'j" where
  "parser_parse J msg =
     (case js_parse J parser_options msg of Inl e \<Rightarrow> Inl e | Inr val \<Rightarrow> js_as_object J val)"

definition parse_http_request :: "string \<Rightarrow> string \<Rightarrow> string \<Rightarrow> string" where
  "parse_http_request verb path body =
     ''This is request method: '' @ verb @ '' path: '' @ path @ '' body: '' @ body"

datatype MsgType = SUBSCRIBE | UNSUBSCRIBE

text \<open>\<open>static_cast<parser::MsgType>\<close> of an integer, with \<open>None\<close> for the \<open>default\<close> branch.\<close>

definition msg_type_of_int :: "int \<Rightarrow> MsgType option" where
  "msg_type_of_int n = (if n = 1 then Some SUBSCRIBE else if n = 2 then Some UNSUBSCRIBE else None)"

section \<open>A concrete instance\<close>

datatype jval =
    JString string
  | JInt int
  | JBool bool
  | JArray "jval list"
  | JObject "(string \<times> jval) list"

fun jval_print :: "jval \<Rightarrow> string" where
  "jval_print (JString s) = CHR 0x22 # s @ [CHR 0x22]"
| "jval_print (JInt n) = int_to_string n"
| "jval_print (JBool b) = (if b then ''true'' else ''false'')"
| "jval_print (JArray vs) = ''['' @ intercalate '','' (map jval_print vs) @ '']''"
| "jval_print (JObject kvs) =
     CHR 0x7B # intercalate '','' (map (\<lambda>(k, v). CHR 0x22 # k @ [CHR 0x22, CHR '':''] @ jval_print v) kvs) @ [CHR 0x7D]"

fun jval_update :: "string \<Rightarrow> jval \<Rightarrow> (string \<times> jval) list \<Rightarrow> (string \<times> jval) list" where
  "jval_update k v [] = [(k, v)]"
| "jval_update k v ((k', v') # kvs) = (if k' = k then (k, v) # kvs else (k', v') # jval_update k v kvs)"

text \<open>\<open>texts\<close> says which value each text denotes; every other text is a parse error.\<close>

definition sample_json :: "(string \<Rightarrow> jval option) \<Rightarrow> jval json_lib" where
  "sample_json texts =
     \<lparr>js_parse = (\<lambda>_ s. case texts s of Some v \<Rightarrow> Inr v | None \<Rightarrow> Inl (Library_exception ''syntax error'')),
      js_serialize = jval_print,
      js_as_object = (\<lambda>v. case v of JObject _ \<Rightarrow> Inr v | _ \<Rightarrow> Inl (Library_exception ''not an object'')),
      js_as_bool = (\<lambda>v. case v of JBool b \<Rightarrow> Inr b | _ \<Rightarrow> Inl (Library_exception ''not a bool'')),
      js_array = (\<lambda>v. case v of JArray vs \<Rightarrow> Some vs | _ \<Rightarrow> None),
      js_at = (\<lambda>v k. case v of
                 JObject kvs \<Rightarrow> (case map_of kvs k of Some x \<Rightarrow> Inr x | None \<Rightarrow> Inl (Out_of_range ''out of range''))
               | _ \<Rightarrow> Inl (Library_exception ''not an object'')),
      js_contains = (\<lambda>v k. case v of JObject kvs \<Rightarrow> k \<in> fst ` set kvs | _ \<Rightarrow> False),
      js_to_int = (\<lambda>v. case v of JInt n \<Rightarrow> Inr n | _ \<Rightarrow> Inl (Library_exception ''not a number'')),
      js_to_string = (\<lambda>v. case v of JString s \<Rightarrow> Inr s | _ \<Rightarrow> Inl (Library_exception ''not a string'')),
      js_empty_object = JObject [],
      js_set = (\<lambda>k v obj. case obj of JObject kvs \<Rightarrow> JObject (jval_update k v kvs) | _ \<Rightarrow> JObject [(k, v)]),
      js_of_string = JString,
      js_of_array = JArray\<rparr>"

lemma jval_update_keys: "fst ` set (jval_update k v kvs) = insert k (fst ` set kvs)"
proof (induction kvs)
  case Nil
  then show ?case by simp
next
  case (Cons kv kvs)
  then show ?case by (cases kv) (simp add: insert_commute)
qed

lemma sample_json_laws: "js_object_laws (sample_json texts)"
  by (auto simp: js_object_laws_def sample_json_def jval_update_keys split: jval.splits)

end
