(* ===== verification/Models.thy ===== *)
theory Models
  imports Json_Lib
begin

text \<open>
  The request models of \<open>include/models\<close>: \<open>BaseModel\<close> with its parameters and its record
  of missing ones, \<open>PreSignedUrlModel\<close> and \<open>DuckDBModel\<close>. A subclass is a record
  extension, a member function that changes the object returns the new record.
\<close>

section \<open>BaseModel\<close>

datatype http_status =
    Status_ok | Status_created | Status_no_content | Status_bad_request | Status_unauthorized
  | Status_not_found | Status_method_not_allowed | Status_internal_server_error
  | Status_not_implemented

record base_model =
  status :: http_status
  status_message :: string
  params_map :: "string \<Rightarrow> string option"
  missing_params :: "string list"

definition BaseModel :: "(string \<Rightarrow> string option) \<Rightarrow> base_model" where
  "BaseModel params =
     \<lparr>status = Status_ok, status_message = [], params_map = params, missing_params = []\<rparr>"

definition set_param ::
    "string \<Rightarrow> (string \<Rightarrow> 'a base_model_scheme \<Rightarrow> 'a base_model_scheme) \<Rightarrow>
     'a base_model_scheme \<Rightarrow> 'a base_model_scheme" where
  "set_param param_name setter m =
     (case params_map m param_name of
        Some v \<Rightarrow> setter v m
      | None \<Rightarrow> m\<lparr>missing_params := missing_params m @ [param_name]\<rparr>)"

text \<open>The loop over the missing parameters; \<open>n\<close> is their number and \<open>i\<close> the index.\<close>

fun append_missing :: "nat \<Rightarrow> nat \<Rightarrow> string list \<Rightarrow> string \<Rightarrow> string" where
  "append_missing n i [] msg = msg"
| "append_missing n i (p # ps) msg =
     append_missing n (Suc i) ps (if i \<noteq> n - 1 then (msg @ p) @ '', '' else msg @ p)"

definition set_missing_params_status :: "'a base_model_scheme \<Rightarrow> 'a base_model_scheme" where
  "set_missing_params_status m =
     (if missing_params m \<noteq> []
      then m\<lparr>status := Status_bad_request,
             status_message := append_missing (length (missing_params m)) 0 (missing_params m)
                                 ''Parameter(s) missing: ''\<rparr>
      else m)"

lemma append_missing_intercalate:
  "i + length ps = n \<Longrightarrow> append_missing n i ps msg = msg @ intercalate '', '' ps"
  by (induction ps arbitrary: i msg) (auto simp: intercalate_Cons)

lemma status_message_set_missing:
  "missing_params m \<noteq> [] \<Longrightarrow>
   status_message (set_missing_params_status m) =
     ''Parameter(s) missing: '' @ intercalate '', '' (missing_params m)"
  by (simp add: set_missing_params_status_def append_missing_intercalate)

section \<open>PreSignedUrlModel\<close>

record presigned_url_model = base_model +
  pm_id :: string
  pm_bucket :: string
  pm_key :: string
  pm_url :: string
  pm_expires :: string
  pm_sravzid :: string

definition PreSignedUrlModel :: "(string \<Rightarrow> string option) \<Rightarrow> presigned_url_model" where
  "PreSignedUrlModel params =
     base_model.extend (BaseModel params)
       \<lparr>pm_id = [], pm_bucket = [], pm_key = [], pm_url = [], pm_expires = [], pm_sravzid = []\<rparr>"

definition PreSignedUrlModel_to_json :: "'j json_lib \<Rightarrow> presigned_url_model \<Rightarrow> string" where
  "PreSignedUrlModel_to_json J m =
     js_serialize J (js_object J
       [(''Bucket'', js_of_string J (pm_bucket m)),
        (''Key'', js_of_string J (pm_key m)),
        (''URL'', js_of_string J (pm_url m)),
        (''Expires'', js_of_string J (pm_expires m)),
        (''id'', js_of_string J (pm_id m))])"

section \<open>DuckDBModel\<close>

record 'j duckdb_model = base_model +
  dm_bucket :: string
  dm_key :: string
  dm_where_clause :: string
  dm_db_query_result :: "'j list"

definition DuckDBModel :: "(string \<Rightarrow> string option) \<Rightarrow> 'j duckdb_model" where
  "DuckDBModel params =
     base_model.extend (BaseModel params)
       \<lparr>dm_bucket = [], dm_key = [], dm_where_clause = [], dm_db_query_result = []\<rparr>"

definition DuckDBModel_to_json :: "'j json_lib \<Rightarrow> 'j duckdb_model \<Rightarrow> string" where
  "DuckDBModel_to_json J m =
     js_serialize J (js_object J
       [(''Bucket'', js_of_string J (dm_bucket m)),
        (''DbQueryResult'', js_of_array J (dm_db_query_result m)),
        (''Key'', js_of_string J (dm_key m)),
        (''WhereClause'', js_of_string J (dm_where_clause m))])"

lemma PreSignedUrlModel_fields [simp]:
  "status (PreSignedUrlModel p) = Status_ok" "params_map (PreSignedUrlModel p) = p"
  "missing_params (PreSignedUrlModel p) = []" "pm_sravzid (PreSignedUrlModel p) = []"
  "pm_url (PreSignedUrlModel p) = []"
  by (simp_all add: PreSignedUrlModel_def BaseModel_def base_model.defs)

lemma DuckDBModel_fields [simp]:
  "status (DuckDBModel p) = Status_ok" "params_map (DuckDBModel p) = p"
  "missing_params (DuckDBModel p) = []" "dm_bucket (DuckDBModel p) = []"
  "dm_key (DuckDBModel p) = []" "dm_where_clause (DuckDBModel p) = []"
  by (simp_all add: DuckDBModel_def BaseModel_def base_model.defs)

end
