(* ===== verification/Backend_Utils.thy ===== *)
theory Backend_Utils
  imports Std_Lib
begin

unbundle bit_operations_syntax

text \<open>
  The helper functions of \<open>src/utils.cpp\<close>, \<open>src/util.cpp\<close> and \<open>include/main.hpp\<close>:
  environment lookups, the Redis connection options, tokenising and upper-casing of Sravz
  identifiers, gzip compression, the option hash and the choice of the configuration file.
  The process environment, the defaults of the Redis client library and zlib are
  parameters.
\<close>

section \<open>Environment variables\<close>

type_synonym environment = "string \<Rightarrow> string option"

text \<open>
  The out-parameter \<open>env\<close> is passed in and returned: it keeps its value when the variable is
  not set.
\<close>

definition Getenv :: "environment \<Rightarrow> string \<Rightarrow> string \<Rightarrow> bool \<times> string" where
  "Getenv E name env = (case E name of Some v \<Rightarrow> (True, v) | None \<Rightarrow> (False, env))"

text \<open>The older copy of the same function in \<open>util.cpp\<close>.\<close>

definition util_getenv :: "environment \<Rightarrow> string \<Rightarrow> string \<Rightarrow> bool \<times> string" where
  "util_getenv E name env = (case E name of Some v \<Rightarrow> (True, v) | None \<Rightarrow> (False, env))"

record connection_options =
  opt_host :: string
  opt_port :: int
  opt_password :: string
  opt_socket_timeout :: nat \<comment> \<open>milliseconds\<close>

text \<open>
  \<open>opts0\<close> is what the library's default constructor gives. \<open>std::stoi\<close> throws on a port
  that is not a number, and the exception leaves the function.
\<close>

definition GetRedisConnectionOptions ::
    "environment \<Rightarrow> connection_options \<Rightarrow> connection_options outcome" where
  "GetRedisConnectionOptions E opts0 =
     (let (has_host, redis_host) = Getenv E ''REDIS_HOST'' [];
          opts1 = (if has_host then opts0\<lparr>opt_host := redis_host\<rparr> else opts0);
          (has_port, redis_port) = Getenv E ''REDIS_PORT'' []
      in out_bind (if has_port
                   then out_bind (stoi redis_port) (\<lambda>p. Ret (opts1\<lparr>opt_port := p\<rparr>))
                   else Ret opts1)
           (\<lambda>opts2.
              let (has_password, redis_password) = Getenv E ''REDIS_PASSWORD'' [];
                  opts3 = (if has_password then opts2\<lparr>opt_password := redis_password\<rparr> else opts2)
              in Ret (opts3\<lparr>opt_socket_timeout := 200\<rparr>)))"

definition util_getRedisConnectionOptions ::
    "environment \<Rightarrow> connection_options \<Rightarrow> connection_options outcome" where
  "util_getRedisConnectionOptions E opts0 =
     (let (has_host, redis_host) = util_getenv E ''REDIS_HOST'' [];
          opts1 = (if has_host then opts0\<lparr>opt_host := redis_host\<rparr> else opts0);
          (has_port, redis_port) = util_getenv E ''REDIS_PORT'' []
      in out_bind (if has_port
                   then out_bind (stoi redis_port) (\<lambda>p. Ret (opts1\<lparr>opt_port := p\<rparr>))
                   else Ret opts1)
           (\<lambda>opts2.
              let (has_password, redis_password) = util_getenv E ''REDIS_PASSWORD'' [];
                  opts3 = (if has_password then opts2\<lparr>opt_password := redis_password\<rparr> else opts2)
              in Ret (opts3\<lparr>opt_socket_timeout := 200\<rparr>)))"

section \<open>Identifiers of mutual funds\<close>

definition GetStringTokens :: "string \<Rightarrow> string list" where
  "GetStringTokens data = getline_all (CHR ''_'') data"

text \<open>The loop overwrites every character of the copy.\<close>

fun ToUpper :: "string \<Rightarrow> string" where
  "ToUpper [] = []"
| "ToUpper (c # cs) = toupper c # ToUpper cs"

definition ConvertMutualFundSravzIDToCode :: "string \<Rightarrow> string outcome" where
  "ConvertMutualFundSravzIDToCode sravzID =
     (let sravzIDTokens = GetStringTokens sravzID
      in if length sravzIDTokens \<noteq> 3
         then Throw (InvalidInputException
                (''Invalid SravzID: '' @ sravzID @ ''. Cannot generate Code''))
         else Ret (ToUpper (sravzIDTokens ! 2 @ ''.'' @ sravzIDTokens ! 1)))"

lemma ToUpper_map: "ToUpper s = map toupper s"
  by (induction s) auto

lemma ToUpper_append [simp]: "ToUpper (s @ t) = ToUpper s @ ToUpper t"
  by (simp add: ToUpper_map)

lemma ToUpper_idem [simp]: "ToUpper (ToUpper s) = ToUpper s"
  by (simp add: ToUpper_map)

lemma length_ToUpper [simp]: "length (ToUpper s) = length s"
  by (simp add: ToUpper_map)

lemma GetStringTokens_join3:
  assumes "CHR ''_'' \<notin> set a" "CHR ''_'' \<notin> set b" "CHR ''_'' \<notin> set c" "c \<noteq> []"
  shows "GetStringTokens (a @ ''_'' @ b @ ''_'' @ c) = [a, b, c]"
proof -
  have "getline_all (CHR ''_'') (intercalate [CHR ''_''] [a, b, c]) = [a, b, c]"
    by (rule getline_all_intercalate) (use assms in auto)
  then show ?thesis by (simp add: GetStringTokens_def)
qed

lemma ConvertMutualFundSravzIDToCode_join3:
  assumes "CHR ''_'' \<notin> set a" "CHR ''_'' \<notin> set b" "CHR ''_'' \<notin> set c" "c \<noteq> []"
  shows "ConvertMutualFundSravzIDToCode (a @ ''_'' @ b @ ''_'' @ c) = Ret (ToUpper c @ ''.'' @ ToUpper b)"
  using GetStringTokens_join3 [OF assms]
  by (simp add: ConvertMutualFundSravzIDToCode_def toupper_def char_code_def)

section \<open>Compression\<close>

text \<open>
  The part of zlib the function calls, as a parameter: the state after \<open>deflateInit2\<close>
  with its return code, the hand-over of the input, one call of \<open>deflate\<close> with a fresh
  output buffer of 32768 bytes (its return code, the bytes it put into the buffer and the
  new state), \<open>total_out\<close>, \<open>deflateEnd\<close>, and \<open>msg\<close>, which may be a null pointer.
\<close>

record 'z zlib =
  zl_init :: "int \<times> 'z"
  zl_set_input :: "string \<Rightarrow> 'z \<Rightarrow> 'z"
  zl_deflate :: "'z \<Rightarrow> int \<times> string \<times> 'z"
  zl_total_out :: "'z \<Rightarrow> nat"
  zl_end :: "'z \<Rightarrow> 'z"
  zl_msg :: "'z \<Rightarrow> string option"

definition Z_OK :: int where "Z_OK = 0"
definition Z_STREAM_END :: int where "Z_STREAM_END = 1"

text \<open>The \<open>do ... while (ret == Z_OK)\<close> loop; \<open>None\<close> if it never ends.\<close>

partial_function (option) deflate_loop ::
    "'z zlib \<Rightarrow> 'z \<Rightarrow> string \<Rightarrow> (int \<times> string \<times> 'z) option" where
  "deflate_loop Z zs out =
     (case zl_deflate Z zs of
        (ret, outbuffer, zs') \<Rightarrow>
          (let out' = (if length out < zl_total_out Z zs'
                       then out @ take (zl_total_out Z zs' - length out) outbuffer else out)
           in if ret = Z_OK then deflate_loop Z zs' out' else Some (ret, out', zs')))"

text \<open>\<open>avail_in\<close> is a 32-bit unsigned field, so the size of the input is taken modulo \<open>2 ^ 32\<close>.\<close>

definition CompressData :: "'z zlib \<Rightarrow> string \<Rightarrow> string outcome" where
  "CompressData Z data =
     (case zl_init Z of
        (r, zs) \<Rightarrow>
          if r \<noteq> Z_OK
          then Throw (Runtime_error ''deflateInit2 failed while compressing.'')
          else (case deflate_loop Z (zl_set_input Z (take (length data mod 2 ^ 32) data) zs) [] of
                  None \<Rightarrow> Blocked
                | Some (ret, out, zs') \<Rightarrow>
                    if ret \<noteq> Z_STREAM_END
                    then (case zl_msg Z (zl_end Z zs') of
                            None \<Rightarrow> Abort
                          | Some m \<Rightarrow> Throw (Runtime_error
                              (''Exception during zlib compression: ('' @ int_to_string ret @ '') '' @ m)))
                    else Ret out))"

text \<open>
  What zlib documents for a stream that compresses without an error: each call delivers
  one chunk, \<open>total_out\<close> grows by its length, and the last call reports the end.
\<close>

fun zlib_yields :: "'z zlib \<Rightarrow> 'z \<Rightarrow> string list \<Rightarrow> bool" where
  "zlib_yields Z zs [] = False"
| "zlib_yields Z zs (c # cs) =
     (case zl_deflate Z zs of
        (ret, outbuffer, zs') \<Rightarrow>
          outbuffer = c \<and> zl_total_out Z zs' = zl_total_out Z zs + length c \<and>
          (if cs = [] then ret = Z_STREAM_END else ret = Z_OK \<and> zlib_yields Z zs' cs))"

lemma deflate_loop_yields:
  assumes "zlib_yields Z zs cs" and "zl_total_out Z zs = length out"
  shows "\<exists>zs'. deflate_loop Z zs out = Some (Z_STREAM_END, out @ concat cs, zs')"
  using assms
proof (induction cs arbitrary: zs out)
  case Nil
  then show ?case by simp
next
  case (Cons c cs)
  obtain ret buf zs' where d: "zl_deflate Z zs = (ret, buf, zs')" by (cases "zl_deflate Z zs") auto
  with Cons.prems have buf: "buf = c" and tot: "zl_total_out Z zs' = length (out @ c)"
    by (auto split: if_splits)
  have out': "(if length out < zl_total_out Z zs'
               then out @ take (zl_total_out Z zs' - length out) buf else out) = out @ c"
    using tot buf by auto
  show ?case
  proof (cases "cs = []")
    case True
    with Cons.prems d have "ret = Z_STREAM_END" by simp
    with True d out' show ?thesis
      by (simp add: deflate_loop.simps [of Z zs out] Z_OK_def Z_STREAM_END_def)
  next
    case False
    with Cons.prems d have "ret = Z_OK" and y: "zlib_yields Z zs' cs" by simp_all
    from Cons.IH [OF y tot] \<open>ret = Z_OK\<close> d out' show ?thesis
      by (simp add: deflate_loop.simps [of Z zs out] Let_def)
  qed
qed

section \<open>The option hash of the main program\<close>

text \<open>
  \<open>constexpr get_hash(char const *str, int h)\<close> works on a zero-terminated string; \<open>str[h]\<close>
  is a signed \<open>char\<close> that is sign-extended to 64 bits.
\<close>

fun get_hash :: "string \<Rightarrow> 64 word" where
  "get_hash [] = 5381"
| "get_hash (c # cs) =
     (if char_code c = 0 then 5381 else (get_hash cs * 33) XOR word_of_int (schar c))"

lemma get_hash_c_str: "get_hash (c_str s) = get_hash s"
  by (induction s) (auto simp: c_str_def)

section \<open>The configuration file\<close>

definition getConfigFile :: "environment \<Rightarrow> string \<Rightarrow> bool \<times> string" where
  "getConfigFile E config_file =
     (case Getenv E ''NODE_ENV'' [] of
        (True, env_name) \<Rightarrow> (True, ''app.'' @ env_name @ ''.cfg'')
      | (False, _) \<Rightarrow> (False, config_file))"

section \<open>Properties\<close>

text \<open>
  The code of a fund. An identifier of three parts separated by underscores becomes the third
  part, a dot and the second part in upper case; an identifier that does not split into three
  tokens is rejected with an exception that names it, and nothing else happens.
\<close>
theorem fund_code_of_identifier:
  "(CHR ''_'' \<notin> set (a @ b @ c) \<and> c \<noteq> [] \<longrightarrow>
      ConvertMutualFundSravzIDToCode (a @ ''_'' @ b @ ''_'' @ c) = Ret (map toupper (c @ ''.'' @ b))) \<and>
   (length (GetStringTokens s) \<noteq> 3 \<longrightarrow>
      ConvertMutualFundSravzIDToCode s =
        Throw (InvalidInputException (''Invalid SravzID: '' @ s @ ''. Cannot generate Code'')))"
  using ConvertMutualFundSravzIDToCode_join3 [of a b c]
  by (auto simp: ConvertMutualFundSravzIDToCode_def ToUpper_map toupper_def char_code_def)

theorem fund_code_of_identifier_witness:
  "ConvertMutualFundSravzIDToCode (''fund'' @ ''_'' @ ''us'' @ ''_'' @ ''abc'') = Ret (map toupper (''abc'' @ ''.'' @ ''us''))"
  using fund_code_of_identifier [of "''fund''" "''us''" "''abc''" "[]"] by simp

text \<open>
  Compression delivers everything the library produces. When \<open>deflate\<close> hands out its output in
  any number of chunks and then reports the end, the loop ends and the result is the chunks in
  order, nothing dropped at the borders of the 32768 byte buffer.
\<close>
theorem compressed_is_all_chunks:
  assumes "zl_init Z = (Z_OK, z)"
    and "zlib_yields Z (zl_set_input Z (take (length data mod 2 ^ 32) data) z) chunks"
    and "zl_total_out Z (zl_set_input Z (take (length data mod 2 ^ 32) data) z) = 0"
  shows "CompressData Z data = Ret (concat chunks)"
  using deflate_loop_yields [OF assms(2), of "[]"] assms(1,3) by (auto simp: CompressData_def)

text \<open>A library that copies its input in two calls; the state is what is left and what is out.\<close>

definition copy_zlib :: "(string \<times> nat) zlib" where
  "copy_zlib =
     \<lparr>zl_init = (Z_OK, ([], 0)), zl_set_input = (\<lambda>s z. (s, 0)),
      zl_deflate = (\<lambda>(s, n). if length s \<le> 2 then (Z_STREAM_END, s, ([], n + length s))
                             else (Z_OK, take 2 s, (drop 2 s, n + 2))),
      zl_total_out = snd, zl_end = (\<lambda>z. z), zl_msg = (\<lambda>z. None)\<rparr>"

text \<open>
  The states of a stream that the calls of \<open>deflate\<close> lead to while they return \<open>Z_OK\<close>, with the
  bytes they have delivered.
\<close>

inductive deflated :: "'z zlib \<Rightarrow> 'z \<Rightarrow> string \<Rightarrow> 'z \<Rightarrow> bool" for Z zs0 where
  deflated_start: "deflated Z zs0 [] zs0"
| deflated_more: "deflated Z zs0 out zs \<Longrightarrow> zl_deflate Z zs = (Z_OK, c, zs') \<Longrightarrow> deflated Z zs0 (out @ c) zs'"

text \<open>
  What zlib documents of a stream that was set up: \<open>total_out\<close> starts at zero and counts the bytes of the
  calls that succeed; all of them together are at most \<open>deflateBound\<close> of the length of the input; a call
  returns \<open>Z_OK\<close> only if it made progress (otherwise \<open>Z_BUF_ERROR\<close>); and after \<open>Z_STREAM_END\<close> the bytes are a
  stream of which \<open>inflate\<close> makes the input again. Setting up may fail, and so may any call.
\<close>

definition zlib_laws :: "'z zlib \<Rightarrow> (string \<Rightarrow> string) \<Rightarrow> (nat \<Rightarrow> nat) \<Rightarrow> bool" where
  "zlib_laws Z inflate deflateBound \<longleftrightarrow>
     (\<forall>z s. zl_init Z = (Z_OK, z) \<longrightarrow>
        zl_total_out Z (zl_set_input Z s z) = 0 \<and>
        (\<forall>out zs ret c zs'. deflated Z (zl_set_input Z s z) out zs \<and> zl_deflate Z zs = (ret, c, zs') \<and> ret \<in> {Z_OK, Z_STREAM_END} \<longrightarrow>
           zl_total_out Z zs' = zl_total_out Z zs + length c \<and> zl_total_out Z zs' \<le> deflateBound (length s) \<and>
           (ret = Z_OK \<longrightarrow> c \<noteq> []) \<and> (ret = Z_STREAM_END \<longrightarrow> inflate (out @ c) = s)))"

text \<open>The first call that does not return \<open>Z_OK\<close>, with the bytes delivered before it.\<close>

definition deflate_ends :: "'z zlib \<Rightarrow> 'z \<Rightarrow> string \<Rightarrow> int \<Rightarrow> string \<Rightarrow> 'z \<Rightarrow> bool" where
  "deflate_ends Z zs0 out ret c zs' \<longleftrightarrow> (\<exists>zs. deflated Z zs0 out zs \<and> zl_deflate Z zs = (ret, c, zs') \<and> ret \<noteq> Z_OK)"

lemma zlib_lawsD:
  assumes "zlib_laws Z inflate deflateBound" and "zl_init Z = (Z_OK, z)"
  shows "zl_total_out Z (zl_set_input Z s z) = 0"
    and "deflated Z (zl_set_input Z s z) out zs \<Longrightarrow> zl_deflate Z zs = (ret, c, zs') \<Longrightarrow> ret = Z_OK \<or> ret = Z_STREAM_END \<Longrightarrow>
      zl_total_out Z zs' = zl_total_out Z zs + length c \<and> zl_total_out Z zs' \<le> deflateBound (length s)"
    and "deflated Z (zl_set_input Z s z) out zs \<Longrightarrow> zl_deflate Z zs = (Z_OK, c, zs') \<Longrightarrow> c \<noteq> []"
    and "deflated Z (zl_set_input Z s z) out zs \<Longrightarrow> zl_deflate Z zs = (Z_STREAM_END, c, zs') \<Longrightarrow> inflate (out @ c) = s"
  using assms unfolding zlib_laws_def by (simp, blast, blast, blast)

lemma deflated_total:
  assumes "zlib_laws Z inflate deflateBound" and "zl_init Z = (Z_OK, z)"
  shows "deflated Z (zl_set_input Z s z) out zs \<Longrightarrow> zl_total_out Z zs = length out"
proof (induction rule: deflated.induct)
  case deflated_start
  show ?case using zlib_lawsD(1) [OF assms] by simp
next
  case (deflated_more out zs c zs')
  with zlib_lawsD(2) [OF assms deflated_more.hyps] show ?case by simp
qed

text \<open>
  The loop ends with the first call that does not return \<open>Z_OK\<close>: every other one makes the output longer,
  which is bounded.
\<close>

lemma deflate_loop_ends:
  assumes laws: "zlib_laws Z inflate deflateBound" and init: "zl_init Z = (Z_OK, z)"
  shows "deflated Z (zl_set_input Z s z) out zs \<Longrightarrow>
    \<exists>out1 ret c out' zs'. deflate_loop Z zs out = Some (ret, out', zs') \<and> deflate_ends Z (zl_set_input Z s z) out1 ret c zs' \<and>
      (ret = Z_STREAM_END \<longrightarrow> out' = out1 @ c)"
proof (induction "deflateBound (length s) - length out" arbitrary: out zs rule: less_induct)
  case less
  obtain ret c zs' where call: "zl_deflate Z zs = (ret, c, zs')" by (cases "zl_deflate Z zs") auto
  have before: "zl_total_out Z zs = length out" by (rule deflated_total [OF laws init less.prems])
  have after: "zl_total_out Z zs' = length out + length c" "length out + length c \<le> deflateBound (length s)"
    if "ret = Z_OK \<or> ret = Z_STREAM_END"
    using zlib_lawsD(2) [OF laws init less.prems call that] before by simp_all
  have appended: "(if length out < zl_total_out Z zs' then out @ take (zl_total_out Z zs' - length out) c else out) = out @ c"
    if "ret = Z_OK \<or> ret = Z_STREAM_END"
    using after(1) [OF that] by auto
  show ?case
  proof (cases "ret = Z_OK")
    case True
    from call True have next_call: "zl_deflate Z zs = (Z_OK, c, zs')" by simp
    have "c \<noteq> []" by (rule zlib_lawsD(3) [OF laws init less.prems next_call])
    with after(2) True have "deflateBound (length s) - length (out @ c) < deflateBound (length s) - length out" by (cases c) auto
    from less.hyps [OF this deflated_more [OF less.prems next_call]] appended True call show ?thesis
      by (simp add: deflate_loop.simps [of Z zs out] Let_def)
  next
    case False
    then have "deflate_ends Z (zl_set_input Z s z) out ret c zs'" using less.prems call by (auto simp: deflate_ends_def)
    with False call appended show ?thesis
      by (auto simp: deflate_loop.simps [of Z zs out] Let_def)
  qed
qed

text \<open>
  C40: compression can be undone up to four gigabytes, and it always ends. When the stream cannot be
  set up, an exception says so. Otherwise the first call of \<open>deflate\<close> that does not return \<open>Z_OK\<close>
  decides: there is one, because the others make progress; with any code but \<open>Z_STREAM_END\<close> the result is an exception
  with the code and the message of zlib (and undefined behaviour when there is no message), and with
  \<open>Z_STREAM_END\<close> it is everything the calls delivered. A reader that decompresses a result gets the data back when
  its length fits into the 32 bits of \<open>avail_in\<close>, and in general only its first bytes, as many as the length
  modulo \<open>2 ^ 32\<close>.
\<close>
theorem compressed_reads_back:
  assumes "zlib_laws Z inflate deflateBound"
  shows "(\<forall>r z. zl_init Z = (r, z) \<longrightarrow>
      (if r \<noteq> Z_OK then CompressData Z data = Throw (Runtime_error ''deflateInit2 failed while compressing.'')
       else \<exists>out ret c zs'. deflate_ends Z (zl_set_input Z (take (length data mod 2 ^ 32) data) z) out ret c zs' \<and>
         CompressData Z data =
           (if ret = Z_STREAM_END then Ret (out @ c)
            else case zl_msg Z (zl_end Z zs') of
                   None \<Rightarrow> Abort
                 | Some m \<Rightarrow> Throw (Runtime_error (''Exception during zlib compression: ('' @ int_to_string ret @ '') '' @ m))))) \<and>
    (\<forall>out. CompressData Z data = Ret out \<longrightarrow>
      inflate out = take (length data mod 2 ^ 32) data \<and> (length data < 2 ^ 32 \<longrightarrow> inflate out = data))"
proof -
  let ?s = "take (length data mod 2 ^ 32) data"
  obtain r z where init: "zl_init Z = (r, z)" by fastforce
  show ?thesis
  proof (cases "r = Z_OK")
    case False
    with init show ?thesis by (simp add: CompressData_def)
  next
    case True
    with init have ok: "zl_init Z = (Z_OK, z)" by simp
    from deflate_loop_ends [OF assms ok deflated_start, of ?s] obtain out ret c out' zs' where
      loop: "deflate_loop Z (zl_set_input Z ?s z) [] = Some (ret, out', zs')"
      and ends: "deflate_ends Z (zl_set_input Z ?s z) out ret c zs'" and all: "ret = Z_STREAM_END \<longrightarrow> out' = out @ c" by blast
    have result: "CompressData Z data =
        (if ret = Z_STREAM_END then Ret (out @ c)
         else case zl_msg Z (zl_end Z zs') of
                None \<Rightarrow> Abort
              | Some m \<Rightarrow> Throw (Runtime_error (''Exception during zlib compression: ('' @ int_to_string ret @ '') '' @ m)))"
      unfolding CompressData_def ok prod.case loop option.case using all by (simp split: option.split)
    have "inflate (out @ c) = ?s" if "ret = Z_STREAM_END"
      using ends that zlib_lawsD(4) [OF assms ok] unfolding deflate_ends_def by blast
    with result have "inflate out2 = ?s" if "CompressData Z data = Ret out2" for out2
      using that by (auto split: if_splits option.splits)
    with result ends ok True show ?thesis by auto
  qed
qed

lemma copy_zlib_deflated: "deflated copy_zlib (s, 0) out zs \<Longrightarrow> out @ fst zs = s \<and> snd zs = length out"
  by (induction rule: deflated.induct)
    (auto simp: copy_zlib_def Z_OK_def Z_STREAM_END_def split: prod.splits if_splits)

lemma copy_zlib_laws: "zlib_laws copy_zlib (\<lambda>out. out) (\<lambda>n. n)"
proof -
  have fields: "zl_init copy_zlib = (Z_OK, ([], 0))" "zl_set_input copy_zlib s z = (s, 0)" "zl_total_out copy_zlib = snd" for s z
    by (simp_all add: copy_zlib_def)
  have "snd zs' = snd zs + length c \<and> snd zs' \<le> length s \<and> (ret = Z_OK \<longrightarrow> c \<noteq> []) \<and> (ret = Z_STREAM_END \<longrightarrow> out @ c = s)"
    if "deflated copy_zlib (s, 0) out zs" "zl_deflate copy_zlib zs = (ret, c, zs')" for s out zs ret c zs'
    using copy_zlib_deflated [OF that(1)] that(2)
    by (cases zs) (auto simp: copy_zlib_def Z_OK_def Z_STREAM_END_def split: if_splits)
  then show ?thesis unfolding zlib_laws_def fields snd_conv by (intro allI impI conjI refl) (elim conjE, blast)+
qed

text \<open>The same library when its memory is used up (\<open>Z_MEM_ERROR\<close> is -4).\<close>

definition full_zlib :: "(string \<times> nat) zlib" where
  "full_zlib = copy_zlib\<lparr>zl_init := (-4, ([], 0))\<rparr>"

theorem compressed_reads_back_witness:
  "(\<exists>out. CompressData copy_zlib ''abcde'' = Ret out \<and> out = ''abcde'') \<and>
   CompressData full_zlib ''abcde'' = Throw (Runtime_error ''deflateInit2 failed while compressing.'')"
proof -
  have "zl_deflate copy_zlib (s, n) \<noteq> (ret, c, zs')" if "ret \<noteq> Z_OK" "ret \<noteq> Z_STREAM_END" for s n ret c zs'
    using that by (auto simp: copy_zlib_def)
  moreover have "zl_init copy_zlib = (Z_OK, ([], 0))" by (simp add: copy_zlib_def)
  ultimately have "\<exists>out. CompressData copy_zlib ''abcde'' = Ret out \<and> out = ''abcde''"
    using compressed_reads_back [OF copy_zlib_laws, of "''abcde''"] unfolding deflate_ends_def by fastforce
  moreover have init: "zl_init full_zlib = (-4, ([], 0))" "(-4 :: int) \<noteq> Z_OK" by (simp_all add: full_zlib_def Z_OK_def)
  then have "zlib_laws full_zlib (\<lambda>out. out) (\<lambda>n. n)" by (simp add: zlib_laws_def)
  from compressed_reads_back [OF this, of "''abcde''"] init
  have "CompressData full_zlib ''abcde'' = Throw (Runtime_error ''deflateInit2 failed while compressing.'')" by simp
  ultimately show ?thesis by blast
qed

theorem compressed_is_all_chunks_witness:
  "CompressData copy_zlib ''abc'' = Ret (concat [''ab'', ''c''])"
  by (rule compressed_is_all_chunks [of copy_zlib "([], 0)"])
    (simp_all add: copy_zlib_def Z_OK_def Z_STREAM_END_def)

end
