(* ===== verification/Redis_Service.thy ===== *)
theory Redis_Service
  imports Backend_Utils
begin

text \<open>
  \<open>src/services/redis_service.cpp\<close>: the connection options of the web server's Redis client
  and its three operations. The client library itself is the parameter \<open>redis_ops\<close>.
\<close>

record 'w redis_ops =
  rd_get :: "string \<Rightarrow> ('w, string option) io"
  rd_set :: "string \<Rightarrow> string \<Rightarrow> ('w, bool) io"
  rd_set_ex :: "string \<Rightarrow> string \<Rightarrow> nat \<Rightarrow> ('w, bool) io" \<comment> \<open>expiry in seconds\<close>

text \<open>
  After reading the three variables the function overwrites host and port with constants
  (the source marks this as a temporary fix).
\<close>

definition redis_getRedisConnectionOptions ::
    "environment \<Rightarrow> connection_options \<Rightarrow> connection_options outcome" where
  "redis_getRedisConnectionOptions E opts0 =
     (let (has_host, REDIS_HOST) = Getenv E ''REDIS_HOST'' [];
          opts1 = (if has_host then opts0\<lparr>opt_host := REDIS_HOST\<rparr> else opts0);
          (has_port, REDIS_PORT) = Getenv E ''REDIS_PORT'' []
      in out_bind (if has_port
                   then out_bind (stoi REDIS_PORT) (\<lambda>p. Ret (opts1\<lparr>opt_port := p\<rparr>))
                   else Ret opts1)
           (\<lambda>opts2.
              let (has_password, REDIS_PASSWORD) = Getenv E ''REDIS_PASSWORD'' [];
                  opts3 = (if has_password then opts2\<lparr>opt_password := REDIS_PASSWORD\<rparr> else opts2)
              in Ret (opts3\<lparr>opt_host := ''redis'', opt_port := 6379, opt_socket_timeout := 200\<rparr>)))"

definition RedisClient_set :: "'w redis_ops \<Rightarrow> string \<Rightarrow> string \<Rightarrow> ('w, bool) io" where
  "RedisClient_set R key val = rd_set R key val"

definition RedisClient_set_with_expiry ::
    "'w redis_ops \<Rightarrow> string \<Rightarrow> string \<Rightarrow> nat \<Rightarrow> ('w, bool) io" where
  "RedisClient_set_with_expiry R key val expiry = rd_set_ex R key val expiry"

definition RedisClient_get :: "'w redis_ops \<Rightarrow> string \<Rightarrow> ('w, string option) io" where
  "RedisClient_get R key = rd_get R key"

text \<open>
  The port variable only decides whether the call throws; host and port of the result do
  not depend on the environment.
\<close>

lemma redis_options_eq:
  "redis_getRedisConnectionOptions E opts0 =
     out_bind (case E ''REDIS_PORT'' of None \<Rightarrow> Ret 0 | Some p \<Rightarrow> stoi p)
       (\<lambda>_. Ret (opts0\<lparr>opt_host := ''redis'', opt_port := 6379,
                      opt_password := (case E ''REDIS_PASSWORD'' of Some p \<Rightarrow> p | None \<Rightarrow> opt_password opts0),
                      opt_socket_timeout := 200\<rparr>))"
proof (cases "E ''REDIS_PORT''")
  case None
  then show ?thesis
    by (cases "E ''REDIS_HOST''"; cases "E ''REDIS_PASSWORD''")
       (simp_all add: redis_getRedisConnectionOptions_def Getenv_def)
next
  case (Some p)
  then show ?thesis
    by (cases "E ''REDIS_HOST''"; cases "E ''REDIS_PASSWORD''"; cases "stoi p")
       (simp_all add: redis_getRedisConnectionOptions_def Getenv_def)
qed

end
