(* ===== verification/S3_Service.thy ===== *)
theory S3_Service
  imports Backend_Utils
begin

text \<open>
  \<open>src/services/aws_s3_service.cpp\<close>: the object store client. The AWS SDK is the
  parameter \<open>s3_ops\<close>: each request is an operation on the world that takes the client's
  configuration. What the service adds is the configuration of a client, the requests it
  builds, the treatment of failed outcomes and the text it assembles for S3 Select.
\<close>

section \<open>Clients and requests\<close>

datatype S3ClientType = Contabo | AWS

text \<open>What the constructor sets explicitly; every other setting keeps the SDK's default.\<close>

record s3_config =
  cfg_endpointOverride :: "string option"
  cfg_scheme_https :: bool
  cfg_credentials :: "(string \<times> string) option"
  cfg_sign_payload_never :: bool
  cfg_no_virtual_addressing :: bool

definition default_s3_config :: s3_config where
  "default_s3_config =
     \<lparr>cfg_endpointOverride = None, cfg_scheme_https = False, cfg_credentials = None,
      cfg_sign_payload_never = False, cfg_no_virtual_addressing = False\<rparr>"

definition S3Client :: "environment \<Rightarrow> S3ClientType \<Rightarrow> s3_config" where
  "S3Client E type =
     (case type of
        Contabo \<Rightarrow>
          (let contabo_key = snd (Getenv E ''CONTABO_KEY'' []);
               contabo_secret = snd (Getenv E ''CONTABO_SECRET'' [])
           in default_s3_config
                \<lparr>cfg_endpointOverride := Some ''https://usc1.contabostorage.com/'',
                 cfg_scheme_https := True,
                 cfg_credentials := Some (contabo_key, contabo_secret),
                 cfg_sign_payload_never := True,
                 cfg_no_virtual_addressing := True\<rparr>)
      | AWS \<Rightarrow>
          (let aws_access_key_id = snd (Getenv E ''AWS_ACCESS_KEY_ID'' []);
               aws_secret_access_key = snd (Getenv E ''AWS_SECRET_ACCESS_KEY'' [])
           in default_s3_config\<lparr>cfg_credentials := Some (aws_access_key_id, aws_secret_access_key)\<rparr>))"

record put_request =
  put_bucket :: string
  put_key :: string
  put_body :: string
  put_content_encoding :: "string option"
  put_content_type :: "string option"

record select_request =
  sel_bucket :: string
  sel_key :: string
  sel_expression :: string
  sel_record_delimiter :: string

record 'w s3_ops =
  s3_PutObject :: "s3_config \<Rightarrow> put_request \<Rightarrow> ('w, bool) io"
  s3_GetObject :: "s3_config \<Rightarrow> string \<Rightarrow> string \<Rightarrow> ('w, string option) io"
  s3_ListObjects :: "s3_config \<Rightarrow> string \<Rightarrow> ('w, string list option) io"
  s3_DeleteObject :: "s3_config \<Rightarrow> string \<Rightarrow> string \<Rightarrow> ('w, bool) io"
  s3_HeadObject :: "s3_config \<Rightarrow> string \<Rightarrow> string \<Rightarrow> ('w, bool) io"
  s3_SelectObjectContent :: "s3_config \<Rightarrow> select_request \<Rightarrow> ('w, string list \<times> bool) io"
    \<comment> \<open>the payloads of the records events, and whether the outcome is a success\<close>
  s3_GeneratePresignedUrl :: "s3_config \<Rightarrow> string \<Rightarrow> string \<Rightarrow> ('w, string) io"

section \<open>Operations\<close>

definition putObject :: "'w s3_ops \<Rightarrow> s3_config \<Rightarrow> string \<Rightarrow> string \<Rightarrow> string \<Rightarrow> ('w, bool) io" where
  "putObject S cfg bucket key val =
     io_bind (s3_PutObject S cfg
         \<lparr>put_bucket = bucket, put_key = key, put_body = val,
          put_content_encoding = None, put_content_type = None\<rparr>)
       (\<lambda>success. if success then io_return True else io_return False)"

text \<open>
  The gzip variant builds a client of its own with the default configuration instead of
  using the one of the object.
\<close>

definition putObjectGzip ::
    "'w s3_ops \<Rightarrow> 'z zlib \<Rightarrow> s3_config \<Rightarrow> string \<Rightarrow> string \<Rightarrow> string \<Rightarrow> ('w, bool) io" where
  "putObjectGzip S Z cfg bucketName objectKey data =
     io_bind (io_lift (CompressData Z data)) (\<lambda>compressedDataStr.
       io_bind (s3_PutObject S default_s3_config
           \<lparr>put_bucket = bucketName, put_key = objectKey, put_body = compressedDataStr,
            put_content_encoding = Some ''gzip'', put_content_type = Some ''application/json''\<rparr>)
         (\<lambda>success. if \<not> success then io_return False else io_return True))"

definition getObject :: "'w s3_ops \<Rightarrow> s3_config \<Rightarrow> string \<Rightarrow> string \<Rightarrow> ('w, string) io" where
  "getObject S cfg bucket key =
     io_bind (s3_GetObject S cfg bucket key)
       (\<lambda>outcome. case outcome of Some body \<Rightarrow> io_return body | None \<Rightarrow> io_return [])"

fun push_keys :: "string list \<Rightarrow> string list \<Rightarrow> string list" where
  "push_keys object_keys [] = object_keys"
| "push_keys object_keys (k # ks) = push_keys (object_keys @ [k]) ks"

definition listObjects :: "'w s3_ops \<Rightarrow> s3_config \<Rightarrow> string \<Rightarrow> ('w, string list) io" where
  "listObjects S cfg bucket =
     io_bind (s3_ListObjects S cfg bucket)
       (\<lambda>outcome. case outcome of Some objects \<Rightarrow> io_return (push_keys [] objects) | None \<Rightarrow> io_return [])"

definition deleteObject :: "'w s3_ops \<Rightarrow> s3_config \<Rightarrow> string \<Rightarrow> string \<Rightarrow> ('w, bool) io" where
  "deleteObject S cfg bucket key =
     io_bind (s3_DeleteObject S cfg bucket key)
       (\<lambda>success. if success then io_return True else io_return False)"

definition objectExists :: "'w s3_ops \<Rightarrow> s3_config \<Rightarrow> string \<Rightarrow> string \<Rightarrow> ('w, bool) io" where
  "objectExists S cfg bucket key =
     io_bind (s3_HeadObject S cfg bucket key)
       (\<lambda>success. let object_exists = False
                  in if success then io_return True else io_return object_exists)"

definition generatePresignedUrl :: "'w s3_ops \<Rightarrow> s3_config \<Rightarrow> string \<Rightarrow> string \<Rightarrow> ('w, string) io" where
  "generatePresignedUrl S cfg bucketName objectKey = s3_GeneratePresignedUrl S cfg bucketName objectKey"

section \<open>S3 Select\<close>

text \<open>The loop that quotes the items of the IN clause; a comma follows every item but the last.\<close>

fun append_items :: "string \<Rightarrow> string list \<Rightarrow> string" where
  "append_items acc [] = acc"
| "append_items acc (p # ps) =
     append_items (if ps \<noteq> [] then (acc @ [CHR 0x27] @ p @ [CHR 0x27]) @ '',''
                   else acc @ [CHR 0x27] @ p @ [CHR 0x27]) ps"

definition select_expression :: "string \<Rightarrow> string \<Rightarrow> string" where
  "select_expression column in_clause =
     (if in_clause \<noteq> []
      then ''SELECT * FROM S3Object WHERE '' @ column @ '' IN '' @
           (append_items ''('' (getline_all (CHR '','') in_clause) @ '')'')
      else ''SELECT * FROM S3Object'')"

text \<open>Closing the array: a comma left at the end of the buffer is dropped first.\<close>

definition close_array :: "string \<Rightarrow> string" where
  "close_array buffer =
     (if buffer \<noteq> [] \<and> last buffer = CHR '','' then butlast buffer else buffer) @ '']''"

definition s3select ::
    "'w s3_ops \<Rightarrow> s3_config \<Rightarrow> string \<Rightarrow> string \<Rightarrow> string \<Rightarrow> string \<Rightarrow> ('w, string) io" where
  "s3select S cfg bucket key column in_clause =
     io_bind (s3_SelectObjectContent S cfg
         \<lparr>sel_bucket = bucket, sel_key = key,
          sel_expression = select_expression column in_clause, sel_record_delimiter = '',''\<rparr>)
       (\<lambda>(payloads, success). io_return (close_array (''['' @ concat (map c_str payloads))))"

lemma push_keys_append: "push_keys acc ks = acc @ ks"
  by (induction acc ks rule: push_keys.induct) auto

lemma append_items_intercalate:
  "append_items acc ps = acc @ intercalate '','' (map (\<lambda>p. [CHR 0x27] @ p @ [CHR 0x27]) ps)"
  by (induction acc ps rule: append_items.induct) (auto simp: intercalate_Cons)

lemma concat_terminated:
  "rs \<noteq> [] \<Longrightarrow> concat (map (\<lambda>r. r @ sep) rs) = intercalate sep rs @ sep"
  by (induction rs) (auto simp: intercalate_Cons)

text \<open>Records that each end with the delimiter come back as one array with commas between them.\<close>

lemma close_array_records:
  "close_array (''['' @ concat (map (\<lambda>r. r @ '','') rs)) = ''['' @ intercalate '','' rs @ '']''"
proof (cases "rs = []")
  case True
  then show ?thesis by (simp add: close_array_def)
next
  case False
  then show ?thesis
    by (simp add: concat_terminated close_array_def butlast_append)
qed

section \<open>Properties\<close>

text \<open>An object store that is empty and answers a selection with two records.\<close>

definition sample_s3 :: "unit s3_ops" where
  "sample_s3 =
     \<lparr>s3_PutObject = (\<lambda>c r. io_return True), s3_GetObject = (\<lambda>c b k. io_return None), s3_ListObjects = (\<lambda>c b. io_return None),
      s3_DeleteObject = (\<lambda>c b k. io_return False), s3_HeadObject = (\<lambda>c b k. io_return False),
      s3_SelectObjectContent = (\<lambda>c r. io_return ([''1,'', ''2,''], True)),
      s3_GeneratePresignedUrl = (\<lambda>c b k. io_return ''u'')\<rparr>"

text \<open>
  S3 Select. The query quotes every item of the comma separated clause and joins them with
  commas, and records that arrive with the delimiter the request asks for come back as one
  array without a comma before its end, also when there is no record. The records hold no zero
  character, which would cut them off.
\<close>
theorem s3select_query_and_array:
  assumes "s3_SelectObjectContent S cfg
      \<lparr>sel_bucket = bucket, sel_key = key,
       sel_expression = ''SELECT * FROM S3Object WHERE '' @ column @ '' IN ('' @
         intercalate '','' (map (\<lambda>p. [CHR 0x27] @ p @ [CHR 0x27]) items) @ '')'',
       sel_record_delimiter = '',''\<rparr> w = (Ret (map (\<lambda>r. r @ '','') records, success), w')"
    and "items \<noteq> []" and "list_all (\<lambda>p. CHR '','' \<notin> set p) items" and "last items \<noteq> []"
    and "list_all (\<lambda>r. c_str r = r) records"
  shows "s3select S cfg bucket key column (intercalate '','' items) w = (Ret (''['' @ intercalate '','' records @ '']''), w')"
proof -
  have items: "getline_all (CHR '','') (intercalate '','' items) = items"
    using assms(2-4) by (intro getline_all_intercalate) (auto simp: list_all_iff)
  have ne: "intercalate '','' items \<noteq> []"
    using assms(2,4) by (cases items) (auto simp: intercalate_Cons split: if_splits)
  have sel: "select_expression column (intercalate '','' items) =
      ''SELECT * FROM S3Object WHERE '' @ column @ '' IN ('' @
         intercalate '','' (map (\<lambda>p. [CHR 0x27] @ p @ [CHR 0x27]) items) @ '')''"
    using ne by (simp add: select_expression_def items append_items_intercalate)
  have cstr: "map c_str (map (\<lambda>r. r @ '','') records) = map (\<lambda>r. r @ '','') records"
    using assms(5) by (simp add: c_str_def list_all_iff takeWhile_eq_all_conv char_code_def)
  show ?thesis
    unfolding s3select_def sel io_bind_def assms(1)
    by (simp only: prod.case outcome.case cstr io_return_def close_array_records)
qed

theorem s3select_query_and_array_witness:
  "s3select sample_s3 default_s3_config ''b'' ''k'' ''c'' (intercalate '','' [''x'', ''y'']) () = (Ret (''['' @ ''1,2'' @ '']''), ())"
proof -
  have "intercalate '','' [''1'', ''2''] = ''1,2''" by simp
  moreover have "s3select sample_s3 default_s3_config ''b'' ''k'' ''c'' (intercalate '','' [''x'', ''y'']) () =
      (Ret (''['' @ intercalate '','' [''1'', ''2''] @ '']''), ())"
    by (rule s3select_query_and_array [where success = True]) (simp_all add: sample_s3_def io_return_def c_str_def char_code_def)
  ultimately show ?thesis by simp
qed

end
