(* ===== verification/Mongo_Service.thy ===== *)
theory Mongo_Service
  imports Json_Lib
begin

text \<open>
  \<open>src/services/mongo_service.cpp\<close>: documents in and out of MongoDB as JSON text. The
  driver and the BSON library are the parameter \<open>mongo_ops\<close>; a result that the driver may
  not give (unacknowledged writes) is an option.
\<close>

section \<open>The driver interface\<close>

datatype 'b bulk_op = Update_one 'b 'b bool | Update_many 'b 'b bool
  \<comment> \<open>filter, update, upsert flag\<close>

record ('w, 'b) mongo_ops =
  mg_from_json :: "string \<Rightarrow> exn + 'b"
  mg_to_json :: "'b \<Rightarrow> string"
  mg_to_json_relaxed :: "'b \<Rightarrow> string"
  mg_document :: "(string \<times> 'b) list \<Rightarrow> 'b" \<comment> \<open>a document built from \<open>kvp\<close>s\<close>
  mg_int :: "int \<Rightarrow> 'b"
  mg_acquire :: "('w, unit) io" \<comment> \<open>take a connection from the pool\<close>
  mg_release :: "'w \<Rightarrow> 'w" \<comment> \<open>the pool entry goes out of scope\<close>
  mg_insert_one :: "string \<Rightarrow> string \<Rightarrow> 'b \<Rightarrow> ('w, string option) io"
  mg_insert_many :: "string \<Rightarrow> string \<Rightarrow> 'b list \<Rightarrow> ('w, ((nat \<times> 'b) list \<times> int) option) io"
  mg_bulk_write :: "string \<Rightarrow> string \<Rightarrow> 'b bulk_op list \<Rightarrow> ('w, ((nat \<times> 'b) list \<times> int) option) io"
  mg_find_one :: "string \<Rightarrow> string \<Rightarrow> 'b \<Rightarrow> ('w, 'b option) io"
  mg_find :: "string \<Rightarrow> string \<Rightarrow> 'b \<Rightarrow> ('w, 'b list) io"
  mg_delete_one :: "string \<Rightarrow> string \<Rightarrow> 'b \<Rightarrow> ('w, int option) io"
  mg_delete_many :: "string \<Rightarrow> string \<Rightarrow> 'b \<Rightarrow> ('w, int option) io"

text \<open>The pool entry is released on every way out of the function.\<close>

definition with_connection :: "('w, 'b) mongo_ops \<Rightarrow> ('w, 'a) io \<Rightarrow> ('w, 'a) io" where
  "with_connection M body =
     io_bind (mg_acquire M) (\<lambda>_ w. case body w of (r, w') \<Rightarrow> (r, mg_release M w'))"

section \<open>The client object\<close>

text \<open>
  Driver and pool of a client. \<open>md_instance\<close> constructs the driver's \<open>instance\<close>, \<open>md_pool\<close> the
  connection pool of a URL, \<open>md_drop\<close> is what their destructors do; \<open>md_created\<close> says whether
  the process has constructed an instance before, for the specifications.
\<close>

record ('w, 'p) mongo_driver =
  md_instance :: "('w, unit) io"
  md_pool :: "string \<Rightarrow> ('w, 'p) io"
  md_acquire :: "'p \<Rightarrow> ('w, unit) io"
  md_try_acquire :: "'p \<Rightarrow> ('w, bool) io"
  md_drop :: "'w \<Rightarrow> 'w"
  md_created :: "'w \<Rightarrow> bool"

record 'p mongo_client =
  mc_url :: string
  mc_instance :: bool
  mc_pool :: "'p option"

text \<open>An object is destroyed when an exception leaves the block (or constructor) that owns it.\<close>

definition destroy_on_throw :: "('w \<Rightarrow> 'w) \<Rightarrow> ('w, 'a) io \<Rightarrow> ('w, 'a) io" where
  "destroy_on_throw drop_it m = (\<lambda>w. case m w of (Throw e, w') \<Rightarrow> (Throw e, drop_it w') | r \<Rightarrow> r)"

definition MongoClient_configure :: "'p \<Rightarrow> 'p mongo_client \<Rightarrow> 'p mongo_client" where
  "MongoClient_configure p c = c\<lparr>mc_instance := True, mc_pool := Some p\<rparr>"

definition MongoClient :: "('w, 'p) mongo_driver \<Rightarrow> string \<Rightarrow> ('w, 'p mongo_client) io" where
  "MongoClient D url =
     io_bind (md_instance D) (\<lambda>_.
       destroy_on_throw (md_drop D)
         (io_bind (md_pool D url) (\<lambda>p.
           io_return (MongoClient_configure p \<lparr>mc_url = url, mc_instance = False, mc_pool = None\<rparr>))))"

text \<open>The pool is a pointer; a null pointer is dereferenced.\<close>

definition MongoClient_get_connection :: "('w, 'p) mongo_driver \<Rightarrow> 'p mongo_client \<Rightarrow> ('w, unit) io" where
  "MongoClient_get_connection D c =
     (case mc_pool c of None \<Rightarrow> io_lift Abort | Some p \<Rightarrow> md_acquire D p)"

definition MongoClient_try_get_connection :: "('w, 'p) mongo_driver \<Rightarrow> 'p mongo_client \<Rightarrow> ('w, bool) io" where
  "MongoClient_try_get_connection D c =
     (case mc_pool c of None \<Rightarrow> io_lift Abort | Some p \<Rightarrow> md_try_acquire D p)"

text \<open>
  What the driver documents: there is one instance in the life of a process. Constructing it
  again throws, even after the first one was destroyed.
\<close>

definition driver_laws :: "('w, 'p) mongo_driver \<Rightarrow> bool" where
  "driver_laws D \<longleftrightarrow>
     (\<forall>w. md_created D w \<longrightarrow> (\<exists>e w'. md_instance D w = (Throw e, w') \<and> md_created D w')) \<and>
     (\<forall>w x w'. md_instance D w = (Ret x, w') \<longrightarrow> md_created D w') \<and>
     (\<forall>w. md_created D w \<longrightarrow> md_created D (md_drop D w)) \<and>
     (\<forall>url w. md_created D w \<longrightarrow> md_created D (snd (md_pool D url w)))"

lemma destroy_on_throw_Ret [simp]: "destroy_on_throw d m w = (Ret x, w') \<longleftrightarrow> m w = (Ret x, w')"
  by (simp add: destroy_on_throw_def split: prod.split outcome.split)

text \<open>A client that was constructed has its pool, so the two accessors use it.\<close>

lemma MongoClient_constructed:
  "MongoClient D url w = (Ret c, w') \<Longrightarrow>
   \<exists>p. mc_pool c = Some p \<and> mc_instance c \<and> mc_url c = url \<and> MongoClient_get_connection D c = md_acquire D p \<and>
     MongoClient_try_get_connection D c = md_try_acquire D p"
  by (auto simp: MongoClient_def MongoClient_configure_def MongoClient_get_connection_def MongoClient_try_get_connection_def
      io_bind_Ret_iff io_return_apply)

lemma MongoClient_again:
  assumes "driver_laws D" and "md_created D w"
  obtains e w' where "MongoClient D url w = (Throw e, w')" and "md_created D w'"
proof -
  from assms obtain e w' where "md_instance D w = (Throw e, w')" "md_created D w'" unfolding driver_laws_def by blast
  with that [of e w'] show thesis by (simp add: MongoClient_def io_bind_Throw)
qed

section \<open>Operations of the client\<close>

definition MongoClient_insert ::
    "('w, 'b) mongo_ops \<Rightarrow> string \<Rightarrow> string \<Rightarrow> string \<Rightarrow> ('w, string) io" where
  "MongoClient_insert M database collection_name document_json =
     with_connection M
       (io_bind (io_lift (of_sum (mg_from_json M document_json))) (\<lambda>doc.
        io_bind (mg_insert_one M database collection_name doc) (\<lambda>result.
          case result of Some oid \<Rightarrow> io_return oid | None \<Rightarrow> io_return ''error'')))"

text \<open>The loop over the elements of the array, each printed and parsed again as BSON.\<close>

fun collect_documents :: "'j json_lib \<Rightarrow> ('w, 'b) mongo_ops \<Rightarrow> 'j list \<Rightarrow> exn + 'b list" where
  "collect_documents J M [] = Inr []"
| "collect_documents J M (v # vs) =
     (case mg_from_json M (js_serialize J v) of
        Inl e \<Rightarrow> Inl e
      | Inr d \<Rightarrow> (case collect_documents J M vs of Inl e \<Rightarrow> Inl e | Inr ds \<Rightarrow> Inr (d # ds)))"

fun ids_kvps :: "(nat \<times> 'b) list \<Rightarrow> (string \<times> 'b) list" where
  "ids_kvps [] = []"
| "ids_kvps ((i, v) # ps) = (to_string i, v) # ids_kvps ps"

definition MongoClient_insert_many ::
    "'j json_lib \<Rightarrow> ('w, 'b) mongo_ops \<Rightarrow> string \<Rightarrow> string \<Rightarrow> string \<Rightarrow> ('w, string) io" where
  "MongoClient_insert_many J M database collection_name document_json =
     io_bind (io_lift (of_sum (js_parse J default_parse_options document_json))) (\<lambda>jsonValue.
       case js_array J jsonValue of
         None \<Rightarrow> io_return ''Not an array''
       | Some arr \<Rightarrow>
           if arr = [] then io_return ''Empty array''
           else io_bind (io_lift (of_sum (collect_documents J M arr))) (\<lambda>documents.
             with_connection M
               (io_bind (mg_insert_many M database collection_name documents) (\<lambda>insert_many_result.
                 case insert_many_result of
                   Some (inserted_ids, inserted_count) \<Rightarrow>
                     io_return (mg_to_json M (mg_document M
                       [(''result'', mg_document M
                          [(''insertedIds'', mg_document M (ids_kvps inserted_ids)),
                           (''insertedCount'', mg_int M inserted_count)])]))
                 | None \<Rightarrow> io_return ''error''))))"

definition MongoClient_upsert ::
    "('w, 'b) mongo_ops \<Rightarrow> string \<Rightarrow> string \<Rightarrow> string \<Rightarrow> string \<Rightarrow> bool \<Rightarrow> ('w, string) io" where
  "MongoClient_upsert M database collection_name search_json update_json update_one =
     with_connection M
       (io_bind (io_lift (of_sum (mg_from_json M search_json))) (\<lambda>search_doc.
        io_bind (io_lift (of_sum (mg_from_json M update_json))) (\<lambda>update_doc.
        let set_doc = mg_document M [([CHR 0x24] @ ''set'', update_doc)];
            upsert_op = (if update_one then Update_one search_doc set_doc True
                         else Update_many search_doc set_doc True)
        in io_bind (mg_bulk_write M database collection_name [upsert_op]) (\<lambda>upserted_result.
             case upserted_result of
               Some (upserted_ids, upserted_count) \<Rightarrow>
                 io_return (mg_to_json M (mg_document M
                   [(''result'', mg_document M
                      [(''upsertedIds'', mg_document M (ids_kvps upserted_ids)),
                       (''insertedCount'', mg_int M upserted_count)])]))
             | None \<Rightarrow> io_return [CHR 0x7B, CHR 0x7D]))))"

definition MongoClient_find_one ::
    "('w, 'b) mongo_ops \<Rightarrow> string \<Rightarrow> string \<Rightarrow> string \<Rightarrow> ('w, string) io" where
  "MongoClient_find_one M database collection_name document_json =
     with_connection M
       (io_bind (io_lift (of_sum (mg_from_json M document_json))) (\<lambda>filter_doc.
        io_bind (mg_find_one M database collection_name filter_doc) (\<lambda>result.
          case result of
            Some doc \<Rightarrow> io_return (mg_to_json M doc)
          | None \<Rightarrow> io_return [CHR 0x7B, CHR 0x7D])))"

text \<open>The loop of \<open>find_all\<close> over the cursor; \<open>found\<close> is set before the loop and never again.\<close>

fun append_documents :: "('w, 'b) mongo_ops \<Rightarrow> string \<Rightarrow> 'b list \<Rightarrow> string" where
  "append_documents M ss [] = ss"
| "append_documents M ss (doc # docs) =
     append_documents M (ss @ mg_to_json_relaxed M doc @ '','') docs"

definition MongoClient_find_all ::
    "('w, 'b) mongo_ops \<Rightarrow> string \<Rightarrow> string \<Rightarrow> string \<Rightarrow> ('w, string) io" where
  "MongoClient_find_all M database collection_name document_json =
     with_connection M
       (io_bind (io_lift (of_sum (mg_from_json M document_json))) (\<lambda>filter_doc.
        io_bind (mg_find M database collection_name filter_doc) (\<lambda>cursor_filtered.
          let found = False;
              ss = append_documents M ''['' cursor_filtered
          in io_return ((if found then butlast ss else ss) @ '']''))))"

definition MongoClient_delete ::
    "('w, 'b) mongo_ops \<Rightarrow> string \<Rightarrow> string \<Rightarrow> string \<Rightarrow> bool \<Rightarrow> ('w, string) io" where
  "MongoClient_delete M database collection_name document_json delete_one =
     with_connection M
       (io_bind (io_lift (of_sum (mg_from_json M document_json))) (\<lambda>filter_doc.
        io_bind (if delete_one then mg_delete_one M database collection_name filter_doc
                 else mg_delete_many M database collection_name filter_doc) (\<lambda>delete_result.
          let deleted_count = (case delete_result of Some n \<Rightarrow> n | None \<Rightarrow> 0)
          in io_return (mg_to_json M (mg_document M
               [(''result'', mg_document M [(''deletedCount'', mg_int M deleted_count)])])))))"

section \<open>Facts\<close>

lemma append_documents_concat:
  "append_documents M ss docs = ss @ concat (map (\<lambda>d. mg_to_json_relaxed M d @ '','') docs)"
  by (induction M ss docs rule: append_documents.induct) auto

lemma with_connection_Ret:
  assumes "mg_acquire M w = (Ret (), w1)" and "body w1 = (r, w2)"
  shows "with_connection M body w = (r, mg_release M w2)"
  using assms by (simp add: with_connection_def io_simps)

lemma collect_documents_length:
  "collect_documents J M vs = Inr ds \<Longrightarrow> length ds = length vs"
  by (induction vs arbitrary: ds) (auto split: sum.splits)

end
