(* ===== verification/Duckdb_Service.thy ===== *)
theory Duckdb_Service
  imports S3_Service Json_Lib
begin

text \<open>
  \<open>src/services/duckdb_service.cpp\<close>: a parquet file of the object store becomes a table of
  an in-memory DuckDB database, created on first use from a presigned URL, and is then
  queried. DuckDB and the hash function of Boost are parameters.
\<close>

record 'w duckdb_ops =
  dk_query :: "string \<Rightarrow> ('w, string option) io" \<comment> \<open>the error message of the result, if any\<close>
  dk_query_exists :: "string \<Rightarrow> string \<Rightarrow> ('w, int list list list) io"
    \<comment> \<open>a prepared query with one argument: the chunks, each a list of rows\<close>
  dk_query_rows :: "string \<Rightarrow> ('w, string list) io" \<comment> \<open>column 0 of every row, as text\<close>

section \<open>Does a table exist\<close>

text \<open>The three nested loops return at the first value they meet.\<close>

fun first_in_row :: "int list \<Rightarrow> bool option" where
  "first_in_row [] = None"
| "first_in_row (v # vs) = Some (v = 1)"

fun first_in_chunk :: "int list list \<Rightarrow> bool option" where
  "first_in_chunk [] = None"
| "first_in_chunk (r # rs) = (case first_in_row r of Some b \<Rightarrow> Some b | None \<Rightarrow> first_in_chunk rs)"

fun first_in_chunks :: "int list list list \<Rightarrow> bool" where
  "first_in_chunks [] = False"
| "first_in_chunks (c # cs) = (case first_in_chunk c of Some b \<Rightarrow> b | None \<Rightarrow> first_in_chunks cs)"

definition table_exists :: "'w duckdb_ops \<Rightarrow> string \<Rightarrow> ('w, bool) io" where
  "table_exists K table_name =
     io_bind (dk_query_exists K
         ''SELECT EXISTS (SELECT 1 FROM information_schema.tables WHERE table_name = ?)'' table_name)
       (\<lambda>chunks. io_return (first_in_chunks chunks))"

section \<open>Creating the table\<close>

definition url_placeholder :: string where
  "url_placeholder = ''presigned_url_to_replace''"

definition replace_placeholder :: "string \<Rightarrow> string \<Rightarrow> string" where
  "replace_placeholder create_statement presigned_url =
     (case str_find url_placeholder create_statement of
        Some pos \<Rightarrow> str_replace pos (length url_placeholder) presigned_url create_statement
      | None \<Rightarrow> create_statement)"

text \<open>
  Errors of the CREATE statement and a table that is still missing afterwards are only
  written to the log.
\<close>

definition CreateTableIfDoesNotExists ::
    "'w duckdb_ops \<Rightarrow> 'w s3_ops \<Rightarrow> s3_config \<Rightarrow> string \<Rightarrow> string \<Rightarrow> string \<Rightarrow> string \<Rightarrow> ('w, unit) io" where
  "CreateTableIfDoesNotExists K S cfg bucket_name prefix table_name create_statement =
     io_bind (table_exists K table_name) (\<lambda>exists.
       if \<not> exists
       then io_bind (generatePresignedUrl S cfg bucket_name prefix) (\<lambda>presigned_url.
            let updated_create_statement = replace_placeholder create_statement presigned_url
            in io_bind (dk_query K ''SET autoinstall_known_extensions=1;'') (\<lambda>_.
               io_bind (dk_query K ''SET autoload_known_extensions=1;'') (\<lambda>_.
               io_bind (dk_query K updated_create_statement) (\<lambda>query_error.
               io_bind (table_exists K table_name) (\<lambda>_. io_return ())))))
       else io_return ())"

definition duck_table_name :: "(string \<Rightarrow> nat) \<Rightarrow> string \<Rightarrow> string \<Rightarrow> string" where
  "duck_table_name hash_value bucket_name prefix =
     ''sravz_'' @ to_string (hash_value bucket_name) @ ''_'' @ to_string (hash_value prefix)"

definition create_statement :: "string \<Rightarrow> string" where
  "create_statement table_name =
     ''CREATE TABLE '' @ table_name @
     '' AS SELECT * FROM parquet_scan('' @ [CHR 0x27] @ ''presigned_url_to_replace'' @ [CHR 0x27] @ '')''"

text \<open>The rows are parsed one after the other; a row that is not JSON throws.\<close>

fun parse_rows :: "'j json_lib \<Rightarrow> string list \<Rightarrow> exn + 'j list" where
  "parse_rows J [] = Inr []"
| "parse_rows J (r # rs) =
     (case js_parse J default_parse_options r of
        Inl e \<Rightarrow> Inl e
      | Inr v \<Rightarrow> (case parse_rows J rs of Inl e \<Rightarrow> Inl e | Inr vs \<Rightarrow> Inr (v # vs)))"

definition duck_select_from_s3_parquet_file ::
    "'w duckdb_ops \<Rightarrow> 'w s3_ops \<Rightarrow> s3_config \<Rightarrow> 'j json_lib \<Rightarrow> (string \<Rightarrow> nat) \<Rightarrow>
     string \<Rightarrow> string \<Rightarrow> string \<Rightarrow> ('w, 'j list) io" where
  "duck_select_from_s3_parquet_file K S cfg J hash_value bucket_name prefix where_clause =
     (let table_name = duck_table_name hash_value bucket_name prefix
      in io_bind (CreateTableIfDoesNotExists K S cfg bucket_name prefix table_name
                    (create_statement table_name)) (\<lambda>_.
         io_bind (dk_query_rows K (''SELECT to_json('' @ table_name @ '') FROM '' @ table_name @
                    '' WHERE '' @ where_clause)) (\<lambda>rows.
         io_lift (of_sum (parse_rows J rows)))))"

text \<open>The constructor loads two extensions and prints two diagnostics.\<close>

definition DuckDBClient :: "'w duckdb_ops \<Rightarrow> ('w, unit) io" where
  "DuckDBClient K =
     io_bind (dk_query K ''LOAD httpfs;'') (\<lambda>_.
     io_bind (dk_query K ''LOAD json;'') (\<lambda>_.
     io_bind (dk_query K ''SELECT duckdb_version();'') (\<lambda>_.
     io_bind (dk_query K ''PRAGMA show_extensions;'') (\<lambda>_. io_return ()))))"

section \<open>Facts\<close>

lemma digit_in_placeholder: "is_digit c \<Longrightarrow> c \<noteq> CHR ''p''"
  by (auto simp: is_digit_def char_code_def)

lemma table_name_no_p: "CHR ''p'' \<notin> set (duck_table_name h b p)"
  using to_string_digits [of "CHR ''p''"] digit_in_placeholder [of "CHR ''p''"]
  by (auto simp: duck_table_name_def)

text \<open>
  The first \<open>p\<close> of the statement after its keywords belongs to \<open>parquet_scan\<close>, which is not
  the start of the placeholder.
\<close>

lemma str_find_prefix_gen:
  assumes "p \<notin> set pre"
  shows "str_find (p # ps) (pre @ s) = map_option (\<lambda>i. length pre + i) (str_find (p # ps) s)"
  using assms
  by (induction pre; cases "str_find (p # ps) s") auto

lemma placeholder_position:
  assumes "CHR ''p'' \<notin> set t"
  shows "replace_placeholder (create_statement t) url =
         ''CREATE TABLE '' @ t @ '' AS SELECT * FROM parquet_scan('' @ [CHR 0x27] @ url @ [CHR 0x27] @ '')''"
proof -
  let ?pre = "''CREATE TABLE '' @ t @ '' AS SELECT * FROM ''"
  let ?mid = "''parquet_scan('' @ [CHR 0x27]"
  let ?post = "[CHR 0x27] @ '')''"
  have stm: "create_statement t = ?pre @ ?mid @ url_placeholder @ ?post"
    by (simp add: create_statement_def url_placeholder_def)
  have "str_find url_placeholder (?mid @ url_placeholder @ ?post) = Some (length ?mid)"
    by (simp add: url_placeholder_def)
  moreover have "CHR ''p'' \<notin> set ?pre" using assms by simp
  ultimately have "str_find url_placeholder (create_statement t) = Some (length (?pre @ ?mid))"
    unfolding stm
    using str_find_prefix_gen [of "CHR ''p''" ?pre "''resigned_url_to_replace''"]
    by (simp add: url_placeholder_def)
  moreover have "str_replace (length (?pre @ ?mid)) (length url_placeholder) url (create_statement t) =
      (?pre @ ?mid) @ url @ ?post"
    using str_replace_at [of "?pre @ ?mid" url_placeholder url ?post] unfolding stm by simp
  ultimately show ?thesis by (simp add: replace_placeholder_def)
qed

section \<open>Properties\<close>

text \<open>
  The table of a parquet file is created from its presigned URL exactly when it does not exist.
  When it does, no statement is run; when it does not, the statement that is run names the table
  of the bucket and the key, with the URL in the place of the placeholder, and an error of that
  statement is not reported.
\<close>
theorem table_created_when_missing:
  assumes "t = duck_table_name hash_value bucket prefix"
  shows "(table_exists K t w = (Ret True, w1) \<longrightarrow>
      CreateTableIfDoesNotExists K S cfg bucket prefix t (create_statement t) w = (Ret (), w1)) \<and>
    (table_exists K t w = (Ret False, w1) \<and>
     s3_GeneratePresignedUrl S cfg bucket prefix w1 = (Ret url, w2) \<and>
     dk_query K ''SET autoinstall_known_extensions=1;'' w2 = (Ret e1, w3) \<and>
     dk_query K ''SET autoload_known_extensions=1;'' w3 = (Ret e2, w4) \<and>
     dk_query K (''CREATE TABLE '' @ t @ '' AS SELECT * FROM parquet_scan('' @ [CHR 0x27] @ url @ [CHR 0x27] @ '')'') w4 = (Ret e3, w5) \<and>
     table_exists K t w5 = (Ret created, w6) \<longrightarrow>
      CreateTableIfDoesNotExists K S cfg bucket prefix t (create_statement t) w = (Ret (), w6))"
proof -
  have "CHR ''p'' \<notin> set t" unfolding assms by (rule table_name_no_p)
  note placed = placeholder_position [OF this]
  show ?thesis
    unfolding CreateTableIfDoesNotExists_def placed
    by (auto simp: io_bind_def io_return_def generatePresignedUrl_def Let_def)
qed

definition sample_duckdb :: "unit duckdb_ops" where
  "sample_duckdb = \<lparr>dk_query = (\<lambda>q. io_return None), dk_query_exists = (\<lambda>q t. io_return [[[0]]]), dk_query_rows = (\<lambda>q. io_return [])\<rparr>"

theorem table_created_when_missing_witness:
  "CreateTableIfDoesNotExists sample_duckdb sample_s3 default_s3_config ''b'' ''k'' (duck_table_name length ''b'' ''k'')
     (create_statement (duck_table_name length ''b'' ''k'')) () = (Ret (), ())"
proof -
  have "table_exists sample_duckdb t () = (Ret False, ())" for t
    by (simp add: table_exists_def sample_duckdb_def io_bind_def io_return_def)
  with table_created_when_missing [OF refl, of sample_duckdb length "''b''" "''k''" "()" "()" sample_s3 default_s3_config "''u''" "()" None "()" None "()" None "()" False "()"]
  show ?thesis by (simp add: sample_duckdb_def sample_s3_def io_return_def)
qed

end
