(* ===== verification/Root_Certificates.thy ===== *)
theory Root_Certificates
  imports Prelude
begin

text \<open>
  The loaders of \<open>include/root_certificates.hpp\<close>, which the data provider calls when it is made. The text
  of the certificates is data.
\<close>

text \<open>
  \<open>cert\<close> is the text of the bundle, \<open>add\<close> the method of the TLS context that takes it and
  gives an error code.
\<close>

definition detail_load_root_certificates ::
    "(string \<Rightarrow> 'c \<Rightarrow> string option \<times> 'c) \<Rightarrow> string \<Rightarrow> 'c \<Rightarrow> string option \<times> 'c" where
  "detail_load_root_certificates add cert ctx = add cert ctx"

definition load_root_certificates_ec ::
    "(string \<Rightarrow> 'c \<Rightarrow> string option \<times> 'c) \<Rightarrow> string \<Rightarrow> 'c \<Rightarrow> string option \<times> 'c" where
  "load_root_certificates_ec add cert ctx = detail_load_root_certificates add cert ctx"

definition load_root_certificates ::
    "(string \<Rightarrow> 'c \<Rightarrow> string option \<times> 'c) \<Rightarrow> string \<Rightarrow> ('c, unit) io" where
  "load_root_certificates add cert ctx =
     (case detail_load_root_certificates add cert ctx of
        (Some ec, ctx') \<Rightarrow> (Throw (Library_exception ec), ctx')
      | (None, ctx') \<Rightarrow> (Ret (), ctx'))"

lemma load_root_certificates_Ret:
  "load_root_certificates add cert ctx = (Ret (), ctx') \<longleftrightarrow> load_root_certificates_ec add cert ctx = (None, ctx')"
  by (auto simp: load_root_certificates_def load_root_certificates_ec_def split: prod.splits option.splits)

end
