(* ===== verification/Data_Provider.thy ===== *)
theory Data_Provider
  imports Backend_Utils Root_Certificates
begin

text \<open>
  \<open>src/services/data_provider_service.cpp\<close>: an HTTPS GET as a coroutine that reports its
  result through a callback. The network operations of Boost.Asio and OpenSSL are the
  parameter \<open>net_ops\<close>; an operation with an error code gives \<open>Some\<close> message when it failed.

  The coroutine calls its callback at most once, as its last statement. \<open>httpGet_\<close> therefore
  returns the argument of that call, or \<open>None\<close> when it ends without calling it.
\<close>

record get_request =
  rq_target :: string
  rq_version :: nat
  rq_host :: string
  rq_user_agent :: string

record 'w net_ops =
  nt_set_sni :: "string \<Rightarrow> ('w, bool) io"
  nt_resolve :: "string \<Rightarrow> string \<Rightarrow> ('w, string option) io"
  nt_connect :: "('w, string option) io"
  nt_handshake :: "('w, string option) io"
  nt_write :: "get_request \<Rightarrow> ('w, string option) io"
  nt_read :: "('w, string option \<times> string) io"
  nt_shutdown :: "('w, string option) io"

definition HOSTNAME :: string where "HOSTNAME = ''eodhd.com''"
definition PORT :: string where "PORT = ''443''"

record data_provider =
  EODHISTORICALDATA_API_KEY2 :: string
  EODHISTORICALDATA_API_KEY :: string

text \<open>
  The constructor: \<open>add\<close> gives a text of certificates to the TLS context, which is part of the world, and
  \<open>cert\<close> is the bundle. A bundle that is refused is an exception.
\<close>

definition IDataProvider :: "(string \<Rightarrow> 'w \<Rightarrow> string option \<times> 'w) \<Rightarrow> string \<Rightarrow> environment \<Rightarrow> ('w, data_provider) io" where
  "IDataProvider add cert E =
     io_bind (load_root_certificates add cert) (\<lambda>_.
       io_return
         \<lparr>EODHISTORICALDATA_API_KEY2 = snd (Getenv E ''EODHISTORICALDATA_API_KEY2'' []),
          EODHISTORICALDATA_API_KEY = snd (Getenv E ''EODHISTORICALDATA_API_KEY'' [])\<rparr>)"

text \<open>One asynchronous operation: on an error the coroutine returns at once.\<close>

definition net_step :: "('w, string option) io \<Rightarrow> ('w, 'a option) io \<Rightarrow> ('w, 'a option) io" where
  "net_step m k = io_bind m (\<lambda>ec. case ec of Some _ \<Rightarrow> io_return None | None \<Rightarrow> k)"

definition httpGet_coroutine ::
    "'w net_ops \<Rightarrow> string \<Rightarrow> string \<Rightarrow> string \<Rightarrow> string \<Rightarrow> ('w, string option) io" where
  "httpGet_coroutine N user_agent host port target =
     io_bind (nt_set_sni N host) (\<lambda>sni_ok.
       if \<not> sni_ok then io_return None
       else net_step (nt_resolve N host port)
           (net_step (nt_connect N)
           (net_step (nt_handshake N)
           (net_step (nt_write N \<lparr>rq_target = target, rq_version = 11, rq_host = host, rq_user_agent = user_agent\<rparr>)
           (io_bind (nt_read N) (\<lambda>(ec, body).
              case ec of
                Some _ \<Rightarrow> io_return None
              | None \<Rightarrow> io_bind (nt_shutdown N) (\<lambda>_. io_return (Some body))))))))"

text \<open>The overload with a callback, and the two with a promise, whose value is the result.\<close>

definition httpGet_callback ::
    "'w net_ops \<Rightarrow> string \<Rightarrow> string \<Rightarrow> string \<Rightarrow> string \<Rightarrow> (string \<Rightarrow> ('w, unit) io) \<Rightarrow> ('w, unit) io" where
  "httpGet_callback N user_agent host port target callback =
     io_bind (httpGet_coroutine N user_agent host port target)
       (\<lambda>r. case r of Some body \<Rightarrow> callback body | None \<Rightarrow> io_return ())"

definition httpGet_promise_host ::
    "'w net_ops \<Rightarrow> string \<Rightarrow> string \<Rightarrow> string \<Rightarrow> string \<Rightarrow> ('w, string option) io" where
  "httpGet_promise_host N user_agent host port target = httpGet_coroutine N user_agent host port target"

definition httpGet_promise ::
    "'w net_ops \<Rightarrow> string \<Rightarrow> string \<Rightarrow> ('w, string option) io" where
  "httpGet_promise N user_agent target = httpGet_coroutine N user_agent HOSTNAME PORT target"

text \<open>\<open>std::future::get\<close> waits until the promise has a value.\<close>

definition future_get :: "string option \<Rightarrow> ('w, string) io" where
  "future_get p = (case p of Some v \<Rightarrow> io_return v | None \<Rightarrow> io_lift Blocked)"

text \<open>The errors of one run, in the order of the operations, for the facts below.\<close>

definition net_script ::
    "'w net_ops \<Rightarrow> bool \<Rightarrow> string option \<Rightarrow> string option \<Rightarrow> string option \<Rightarrow> string option \<Rightarrow>
     string option \<Rightarrow> string \<Rightarrow> string option \<Rightarrow> bool" where
  "net_script N sni res con hs wr rd body sh \<longleftrightarrow>
     (\<forall>h w. fst (nt_set_sni N h w) = Ret sni) \<and>
     (\<forall>h p w. fst (nt_resolve N h p w) = Ret res) \<and>
     (\<forall>w. fst (nt_connect N w) = Ret con) \<and>
     (\<forall>w. fst (nt_handshake N w) = Ret hs) \<and>
     (\<forall>r w. fst (nt_write N r w) = Ret wr) \<and>
     (\<forall>w. fst (nt_read N w) = Ret (rd, body)) \<and>
     (\<forall>w. fst (nt_shutdown N w) = Ret sh)"

lemma io_bind_fst_Ret: "fst (m w) = Ret x \<Longrightarrow> io_bind m f w = f x (snd (m w))"
  by (cases "m w") (simp add: io_bind_def)

lemma httpGet_coroutine_script:
  assumes "net_script N sni res con hs wr rd body sh"
  shows "fst (httpGet_coroutine N ua host port target w) =
         Ret (if sni \<and> res = None \<and> con = None \<and> hs = None \<and> wr = None \<and> rd = None
              then Some body else None)"
  using assms
  by (cases sni; cases res; cases con; cases hs; cases wr; cases rd)
     (simp_all add: net_script_def httpGet_coroutine_def net_step_def io_bind_fst_Ret io_simps)

end
