(* ===== verification/Controllers.thy ===== *)
theory Controllers
  imports Models Redis_Service S3_Service Mongo_Service Duckdb_Service Data_Provider
begin

text \<open>
  The controllers of \<open>src/controllers\<close>: they connect the request models with the services.
  \<open>FundamentalsController\<close> is a read-through cache of presigned URLs; the others delegate.
  The last section states the contract between the router's template
  \<open>route_to_controller\<close> and a controller, and shows that both controllers used with it
  satisfy the contract.
\<close>

section \<open>Fundamentals\<close>

definition FUNDAMENTALS_BUCKET_NAME :: string where
  "FUNDAMENTALS_BUCKET_NAME = ''sravz-data''"

definition FUNDAMENTALS_PREFIX :: string where
  "FUNDAMENTALS_PREFIX = ''/mutual_funds/fundamentals/''"

definition KEY_EXPIRY_IN_SECONDS :: nat where
  "KEY_EXPIRY_IN_SECONDS = 24 * 3600"

text \<open>The services a fundamentals controller holds; \<open>fd_user_agent\<close> is the library's version string.\<close>

record 'w fundamentals_deps =
  fd_s3 :: "'w s3_ops"
  fd_s3_config :: s3_config
  fd_redis :: "'w redis_ops"
  fd_net :: "'w net_ops"
  fd_provider :: data_provider
  fd_user_agent :: string

definition FetchDataAndSaveToS3 ::
    "'w fundamentals_deps \<Rightarrow> string \<Rightarrow> string \<Rightarrow> ('w, unit) io" where
  "FetchDataAndSaveToS3 F sravzID completeFileLocation =
     io_bind (io_lift (ConvertMutualFundSravzIDToCode sravzID)) (\<lambda>code.
       let target = ''/api/eod/'' @ code @ ''?api_token='' @
                    EODHISTORICALDATA_API_KEY2 (fd_provider F) @ ''&order=d&fmt=json''
       in io_bind (httpGet_promise (fd_net F) (fd_user_agent F) target) (\<lambda>promise.
          io_bind (future_get promise) (\<lambda>response.
          io_bind (putObject (fd_s3 F) (fd_s3_config F) FUNDAMENTALS_BUCKET_NAME
                     completeFileLocation response) (\<lambda>_. io_return ()))))"

definition CheckAndFetchData ::
    "'w fundamentals_deps \<Rightarrow> string \<Rightarrow> string \<Rightarrow> ('w, unit) io" where
  "CheckAndFetchData F sravzID completeFileLocation =
     io_bind (objectExists (fd_s3 F) (fd_s3_config F) FUNDAMENTALS_BUCKET_NAME completeFileLocation)
       (\<lambda>exists. if \<not> exists then FetchDataAndSaveToS3 F sravzID completeFileLocation else io_return ())"

definition fundamentals_location :: "string \<Rightarrow> string" where
  "fundamentals_location sravzID = FUNDAMENTALS_PREFIX @ sravzID @ ''.json''"

definition FundamentalsController_get ::
    "'w fundamentals_deps \<Rightarrow> presigned_url_model \<Rightarrow> ('w, presigned_url_model) io" where
  "FundamentalsController_get F m =
     (let completeFileLocation = fundamentals_location (pm_sravzid m)
      in io_bind (RedisClient_get (fd_redis F) completeFileLocation) (\<lambda>redisPresignedURL.
           case redisPresignedURL of
             Some url \<Rightarrow> io_return (m\<lparr>pm_url := url\<rparr>)
           | None \<Rightarrow>
               io_bind (CheckAndFetchData F (pm_sravzid m) completeFileLocation) (\<lambda>_.
               io_bind (generatePresignedUrl (fd_s3 F) (fd_s3_config F)
                          FUNDAMENTALS_BUCKET_NAME completeFileLocation) (\<lambda>preSignedURL.
               io_bind (RedisClient_set_with_expiry (fd_redis F) completeFileLocation preSignedURL
                          KEY_EXPIRY_IN_SECONDS) (\<lambda>_.
               io_return (m\<lparr>pm_url := preSignedURL\<rparr>))))))"

definition FundamentalsController_validate_request :: "presigned_url_model \<Rightarrow> presigned_url_model" where
  "FundamentalsController_validate_request m = set_param ''sravzid'' (\<lambda>v m. m\<lparr>pm_sravzid := v\<rparr>) m"

section \<open>DuckDB\<close>

record ('w, 'j) duckdb_deps =
  dd_duckdb :: "'w duckdb_ops"
  dd_s3 :: "'w s3_ops"
  dd_s3_config :: s3_config
  dd_json :: "'j json_lib"
  dd_hash_value :: "string \<Rightarrow> nat"

definition DuckDBController_select ::
    "('w, 'j) duckdb_deps \<Rightarrow> string \<Rightarrow> string \<Rightarrow> string \<Rightarrow> ('w, 'j list) io" where
  "DuckDBController_select D bucket_name prefix where_clause =
     duck_select_from_s3_parquet_file (dd_duckdb D) (dd_s3 D) (dd_s3_config D) (dd_json D)
       (dd_hash_value D) bucket_name prefix where_clause"

definition DuckDBController_get ::
    "('w, 'j) duckdb_deps \<Rightarrow> 'j duckdb_model \<Rightarrow> ('w, 'j duckdb_model) io" where
  "DuckDBController_get D m =
     io_bind (DuckDBController_select D (dm_bucket m) (dm_key m) (dm_where_clause m))
       (\<lambda>rows. io_return (m\<lparr>dm_db_query_result := rows\<rparr>))"

definition DuckDBController_validate_request :: "'j duckdb_model \<Rightarrow> 'j duckdb_model" where
  "DuckDBController_validate_request m =
     set_param ''where_clause'' (\<lambda>v m. m\<lparr>dm_where_clause := v\<rparr>)
       (set_param ''key'' (\<lambda>v m. m\<lparr>dm_key := v\<rparr>)
         (set_param ''bucket'' (\<lambda>v m. m\<lparr>dm_bucket := v\<rparr>) m))"

section \<open>MongoDB and S3 Select\<close>

definition MongoController_get :: "('w, 'b) mongo_ops \<Rightarrow> string \<Rightarrow> string \<Rightarrow> ('w, string) io" where
  "MongoController_get M collection document_json = MongoClient_find_one M ''sravz'' collection document_json"

definition MongoController_post ::
    "'j json_lib \<Rightarrow> ('w, 'b) mongo_ops \<Rightarrow> string \<Rightarrow> string \<Rightarrow> ('w, string) io" where
  "MongoController_post J M collection document_json =
     MongoClient_insert_many J M ''sravz'' collection document_json"

definition MongoController_put ::
    "('w, 'b) mongo_ops \<Rightarrow> string \<Rightarrow> string \<Rightarrow> string \<Rightarrow> bool \<Rightarrow> ('w, string) io" where
  "MongoController_put M collection search_json update_json update_one =
     MongoClient_upsert M ''sravz'' collection search_json update_json update_one"

definition MongoController_delete ::
    "('w, 'b) mongo_ops \<Rightarrow> string \<Rightarrow> string \<Rightarrow> bool \<Rightarrow> ('w, string) io" where
  "MongoController_delete M collection search_json delete_one =
     MongoClient_delete M ''sravz'' collection search_json delete_one"

definition AWSS3Controller_get ::
    "'w s3_ops \<Rightarrow> s3_config \<Rightarrow> string \<Rightarrow> string \<Rightarrow> string \<Rightarrow> string \<Rightarrow> ('w, string) io" where
  "AWSS3Controller_get S cfg bucket key column in_clause = s3select S cfg bucket key column in_clause"

section \<open>The router's template\<close>

text \<open>
  \<open>route_to_controller<T1, T2>\<close> works with any model class \<open>T1\<close> and controller class \<open>T2\<close>
  that have the operations it calls; they are its arguments here: the constructor from the
  parameters, \<open>validate_request\<close>, \<open>get\<close>, \<open>to_json\<close> and the two updates of the base model.
\<close>

definition route_to_controller ::
    "((string \<Rightarrow> string option) \<Rightarrow> 'm base_model_scheme) \<Rightarrow>
     ('m base_model_scheme \<Rightarrow> 'm base_model_scheme) \<Rightarrow>
     ('m base_model_scheme \<Rightarrow> ('w, 'm base_model_scheme) io) \<Rightarrow>
     ('m base_model_scheme \<Rightarrow> string) \<Rightarrow>
     (string \<Rightarrow> string option) \<Rightarrow> ('w, http_status \<times> string) io" where
  "route_to_controller T1 validate_request get to_json params =
     (let model = validate_request (T1 params)
      in if status model \<noteq> Status_ok
         then (let model' = set_missing_params_status model
               in io_return (Status_bad_request, status_message model'))
         else io_bind (get model) (\<lambda>model'. io_return (status model', to_json model')))"

text \<open>
  What the template gets from a controller: a fresh model has status ok, validation
  changes neither the status nor the parameters, and \<open>get\<close> keeps the status.
\<close>

locale request_controller =
  fixes T1 :: "(string \<Rightarrow> string option) \<Rightarrow> 'm base_model_scheme"
    and validate_request :: "'m base_model_scheme \<Rightarrow> 'm base_model_scheme"
    and get :: "'m base_model_scheme \<Rightarrow> ('w, 'm base_model_scheme) io"
    and to_json :: "'m base_model_scheme \<Rightarrow> string"
    and required :: "string list"
  assumes fresh_ok: "status (T1 params) = Status_ok"
    and fresh_params: "params_map (T1 params) = params"
    and fresh_missing: "missing_params (T1 params) = []"
    and validate_status: "status (validate_request m) = status m"
    and validate_missing: "missing_params (validate_request m) =
           missing_params m @ filter (\<lambda>p. params_map m p = None) required"
    and get_status: "get m w = (Ret m', w') \<Longrightarrow> status m' = status m"
begin

lemma missing_recorded:
  "missing_params (validate_request (T1 params)) = filter (\<lambda>p. params p = None) required"
  by (simp add: validate_missing fresh_missing fresh_params)

text \<open>The branch for a failed validation is never taken.\<close>

lemma routed_to_get:
  "route_to_controller T1 validate_request get to_json params =
     io_bind (get (validate_request (T1 params))) (\<lambda>m. io_return (status m, to_json m))"
  by (simp add: route_to_controller_def validate_status fresh_ok)

lemma routed_status_ok:
  assumes "route_to_controller T1 validate_request get to_json params w = (Ret (st, body), w')"
  shows "st = Status_ok"
  using assms get_status
  by (auto simp: routed_to_get io_bind_Ret_iff io_return_apply validate_status fresh_ok)

end

text \<open>
  The base class \<open>BaseController\<close>: both of its operations return the model they are given. It
  satisfies the contract with no required parameter.
\<close>

definition BaseController_get :: "'m base_model_scheme \<Rightarrow> 'm base_model_scheme" where
  "BaseController_get baseModel = baseModel"

definition BaseController_validate_request :: "'m base_model_scheme \<Rightarrow> 'm base_model_scheme" where
  "BaseController_validate_request baseModel = baseModel"

interpretation base: request_controller
  PreSignedUrlModel BaseController_validate_request "io_return \<circ> BaseController_get"
  "PreSignedUrlModel_to_json J" "[]"
  for J :: "'j json_lib"
  by unfold_locales (simp_all add: BaseController_get_def BaseController_validate_request_def io_return_apply)

lemma base_routed:
  "route_to_controller PreSignedUrlModel BaseController_validate_request (io_return \<circ> BaseController_get)
     (PreSignedUrlModel_to_json J) params =
   io_return (Status_ok, PreSignedUrlModel_to_json J (PreSignedUrlModel params))"
  by (simp add: base.routed_to_get BaseController_get_def BaseController_validate_request_def)

lemma set_param_status:
  "(\<And>v m. status (setter v m) = status m) \<Longrightarrow> status (set_param p setter m) = status m"
  by (simp add: set_param_def split: option.split)

lemma FundamentalsController_get_Ret:
  "FundamentalsController_get F m w = (Ret m', w') \<Longrightarrow> \<exists>url. m' = m\<lparr>pm_url := url\<rparr>"
  by (auto simp: FundamentalsController_get_def Let_def io_bind_Ret_iff io_return_apply split: option.splits)

lemma DuckDBController_get_Ret:
  "DuckDBController_get D m w = (Ret m', w') \<Longrightarrow> \<exists>rows. m' = m\<lparr>dm_db_query_result := rows\<rparr>"
  by (auto simp: DuckDBController_get_def io_bind_Ret_iff io_return_apply)

interpretation fundamentals: request_controller
  PreSignedUrlModel FundamentalsController_validate_request "FundamentalsController_get F"
  "PreSignedUrlModel_to_json J" "[''sravzid'']"
  for F :: "'w fundamentals_deps" and J :: "'j json_lib"
proof unfold_locales
  fix m m' :: presigned_url_model and w w' :: 'w
  show "missing_params (FundamentalsController_validate_request m) =
        missing_params m @ filter (\<lambda>p. params_map m p = None) [''sravzid'']"
    by (simp add: FundamentalsController_validate_request_def set_param_def split: option.split)
  show "FundamentalsController_get F m w = (Ret m', w') \<Longrightarrow> status m' = status m"
    by (auto dest: FundamentalsController_get_Ret)
qed (simp_all add: FundamentalsController_validate_request_def set_param_status)

interpretation duckdb: request_controller
  DuckDBModel DuckDBController_validate_request "DuckDBController_get D"
  "DuckDBModel_to_json J" "[''bucket'', ''key'', ''where_clause'']"
  for D :: "('w, 'j) duckdb_deps" and J :: "'j json_lib"
proof unfold_locales
  fix m m' :: "'j duckdb_model" and w w' :: 'w
  show "missing_params (DuckDBController_validate_request m) =
        missing_params m @ filter (\<lambda>p. params_map m p = None) [''bucket'', ''key'', ''where_clause'']"
    by (simp add: DuckDBController_validate_request_def set_param_def split: option.split)
  show "DuckDBController_get D m w = (Ret m', w') \<Longrightarrow> status m' = status m"
    by (auto dest: DuckDBController_get_Ret)
qed (simp_all add: DuckDBController_validate_request_def set_param_status)

text \<open>
  When Redis and the object store know nothing of a fund and any step of the download fails, the
  promise is never fulfilled and \<open>future.get()\<close> waits for ever.
\<close>

lemma failed_download_blocks:
  assumes "net_script (fd_net F) sni res con hs wr rd body sh"
    and "\<not> sni \<or> res \<noteq> None \<or> con \<noteq> None \<or> hs \<noteq> None \<or> wr \<noteq> None \<or> rd \<noteq> None"
    and "rd_get (fd_redis F) (fundamentals_location (pm_sravzid m)) w = (Ret None, w1)"
    and "s3_HeadObject (fd_s3 F) (fd_s3_config F) FUNDAMENTALS_BUCKET_NAME (fundamentals_location (pm_sravzid m)) w1 = (Ret False, w2)"
    and "ConvertMutualFundSravzIDToCode (pm_sravzid m) = Ret code"
  shows "fst (FundamentalsController_get F m w) = Blocked"
proof -
  let ?target = "''/api/eod/'' @ code @ ''?api_token='' @ EODHISTORICALDATA_API_KEY2 (fd_provider F) @ ''&order=d&fmt=json''"
  from httpGet_coroutine_script [OF assms(1), of "fd_user_agent F" HOSTNAME PORT ?target w2] assms(2)
  have "fst (httpGet_promise (fd_net F) (fd_user_agent F) ?target w2) = Ret None"
    by (auto simp: httpGet_promise_def)
  then obtain w3 where h: "httpGet_promise (fd_net F) (fd_user_agent F) ?target w2 = (Ret None, w3)"
    by (cases "httpGet_promise (fd_net F) (fd_user_agent F) ?target w2") auto
  have "FetchDataAndSaveToS3 F (pm_sravzid m) (fundamentals_location (pm_sravzid m)) w2 = (Blocked, w3)"
    unfolding FetchDataAndSaveToS3_def assms(5) Let_def
    using h by (simp add: io_bind_def io_lift_def future_get_def)
  then show ?thesis
    using assms(3,4)
    by (simp add: FundamentalsController_get_def Let_def RedisClient_get_def CheckAndFetchData_def objectExists_def
        io_bind_def io_return_def)
qed

section \<open>Properties\<close>

text \<open>
  What Redis documents: reading a key changes nothing, and a key that was set is read back while
  it has not expired. The calls that are compared here follow each other within the expiry time.
\<close>

definition redis_keeps :: "'w redis_ops \<Rightarrow> bool" where
  "redis_keeps R \<longleftrightarrow>
     (\<forall>k w r w'. rd_get R k w = (Ret r, w') \<longrightarrow> rd_get R k w' = (Ret r, w')) \<and>
     (\<forall>k v n w r w'. rd_set_ex R k v n w = (Ret r, w') \<longrightarrow> rd_get R k w' = (Ret (Some v), w'))"

text \<open>Whichever way a request was answered, the URL is in the cache afterwards.\<close>

lemma FundamentalsController_get_caches:
  assumes "redis_keeps (fd_redis F)" and "FundamentalsController_get F m w = (Ret m', w')"
  obtains url where "m' = m\<lparr>pm_url := url\<rparr>"
    and "rd_get (fd_redis F) (fundamentals_location (pm_sravzid m)) w' = (Ret (Some url), w')"
  using assms
  by (auto simp: FundamentalsController_get_def Let_def RedisClient_get_def RedisClient_set_with_expiry_def
      redis_keeps_def io_bind_Ret_iff io_return_def split: option.splits)

lemma FundamentalsController_get_hit:
  "rd_get (fd_redis F) (fundamentals_location (pm_sravzid m)) w = (Ret (Some url), w1) \<Longrightarrow>
   FundamentalsController_get F m w = (Ret (m\<lparr>pm_url := url\<rparr>), w1)"
  by (simp add: FundamentalsController_get_def Let_def RedisClient_get_def io_bind_def io_return_def)

lemma FundamentalsController_get_miss:
  assumes "rd_get (fd_redis F) (fundamentals_location (pm_sravzid m)) w = (Ret None, w1)"
    and "s3_HeadObject (fd_s3 F) (fd_s3_config F) FUNDAMENTALS_BUCKET_NAME (fundamentals_location (pm_sravzid m)) w1 = (Ret True, w2)"
    and "s3_GeneratePresignedUrl (fd_s3 F) (fd_s3_config F) FUNDAMENTALS_BUCKET_NAME (fundamentals_location (pm_sravzid m)) w2 = (Ret url, w3)"
    and "rd_set_ex (fd_redis F) (fundamentals_location (pm_sravzid m)) url 86400 w3 = (Ret stored, w4)"
  shows "FundamentalsController_get F m w = (Ret (m\<lparr>pm_url := url\<rparr>), w4)"
  using assms
  by (simp add: FundamentalsController_get_def Let_def RedisClient_get_def RedisClient_set_with_expiry_def
      CheckAndFetchData_def objectExists_def generatePresignedUrl_def KEY_EXPIRY_IN_SECONDS_def io_bind_def io_return_def)

text \<open>
  C39: fundamentals are a read-through cache. When Redis has the URL of the fund, it is returned and
  nothing else is contacted; when Redis has none and the object exists, a new URL is generated,
  stored under the object's location for 24 hours and returned, and nothing is downloaded. However
  a request was answered, repeating it gives the same answer from the cache and contacts no
  other service: the world is left as it is.
\<close>
theorem fundamentals_read_through_cache:
  assumes "redis_keeps (fd_redis F)" and "loc = fundamentals_location (pm_sravzid m)"
  shows "(rd_get (fd_redis F) loc w = (Ret (Some url), w1) \<longrightarrow>
      FundamentalsController_get F m w = (Ret (m\<lparr>pm_url := url\<rparr>), w1)) \<and>
    (rd_get (fd_redis F) loc w = (Ret None, w1) \<and>
     s3_HeadObject (fd_s3 F) (fd_s3_config F) FUNDAMENTALS_BUCKET_NAME loc w1 = (Ret True, w2) \<and>
     s3_GeneratePresignedUrl (fd_s3 F) (fd_s3_config F) FUNDAMENTALS_BUCKET_NAME loc w2 = (Ret url, w3) \<and>
     rd_set_ex (fd_redis F) loc url 86400 w3 = (Ret stored, w4) \<longrightarrow>
      FundamentalsController_get F m w = (Ret (m\<lparr>pm_url := url\<rparr>), w4)) \<and>
    (\<forall>m' w'. FundamentalsController_get F m w = (Ret m', w') \<longrightarrow>
      FundamentalsController_get F m w' = (Ret m', w'))"
proof -
  have again: "FundamentalsController_get F m w' = (Ret m', w')" if "FundamentalsController_get F m w = (Ret m', w')" for m' w'
    using FundamentalsController_get_caches [OF assms(1) that] FundamentalsController_get_hit by metis
  show ?thesis
    unfolding assms(2)
    by (intro conjI allI impI) (erule FundamentalsController_get_hit, (elim conjE, erule (3) FundamentalsController_get_miss), erule again)
qed

text \<open>Services over a unit world: Redis knows every key, the object store is empty, the network is down.\<close>

definition sample_redis :: "unit redis_ops" where
  "sample_redis = \<lparr>rd_get = (\<lambda>k. io_return (Some ''u'')), rd_set = (\<lambda>k v. io_return True), rd_set_ex = (\<lambda>k v n. io_return True)\<rparr>"

definition empty_redis :: "unit redis_ops" where
  "empty_redis = sample_redis\<lparr>rd_get := (\<lambda>k. io_return None)\<rparr>"

definition broken_net :: "unit net_ops" where
  "broken_net =
     \<lparr>nt_set_sni = (\<lambda>h. io_return True), nt_resolve = (\<lambda>h p. io_return (Some ''host not found'')),
      nt_connect = io_return None, nt_handshake = io_return None, nt_write = (\<lambda>r. io_return None),
      nt_read = io_return (None, []), nt_shutdown = io_return None\<rparr>"

definition sample_fundamentals :: "unit fundamentals_deps" where
  "sample_fundamentals =
     \<lparr>fd_s3 = sample_s3, fd_s3_config = default_s3_config, fd_redis = sample_redis, fd_net = broken_net,
      fd_provider = \<lparr>EODHISTORICALDATA_API_KEY2 = ''k'', EODHISTORICALDATA_API_KEY = ''k''\<rparr>, fd_user_agent = ''B''\<rparr>"

definition sample_fund :: presigned_url_model where
  "sample_fund = (PreSignedUrlModel Map.empty)\<lparr>pm_sravzid := ''fund_us_abc''\<rparr>"

text \<open>Redis as a map, and an object store that has every object.\<close>

definition map_redis :: "(string \<Rightarrow> string option) redis_ops" where
  "map_redis =
     \<lparr>rd_get = (\<lambda>k w. (Ret (w k), w)), rd_set = (\<lambda>k v w. (Ret True, w(k \<mapsto> v))),
      rd_set_ex = (\<lambda>k v n w. (Ret True, w(k \<mapsto> v)))\<rparr>"

definition full_fundamentals :: "(string \<Rightarrow> string option) s3_ops \<Rightarrow> (string \<Rightarrow> string option) net_ops \<Rightarrow> (string \<Rightarrow> string option) fundamentals_deps" where
  "full_fundamentals S N =
     \<lparr>fd_s3 = S\<lparr>s3_HeadObject := (\<lambda>cfg b k. io_return True), s3_GeneratePresignedUrl := (\<lambda>cfg b k. io_return ''u'')\<rparr>,
      fd_s3_config = default_s3_config, fd_redis = map_redis, fd_net = N,
      fd_provider = \<lparr>EODHISTORICALDATA_API_KEY2 = ''k'', EODHISTORICALDATA_API_KEY = ''k''\<rparr>, fd_user_agent = ''B''\<rparr>"

theorem fundamentals_read_through_cache_witness:
  "\<forall>S N. \<exists>w'. FundamentalsController_get (full_fundamentals S N) sample_fund Map.empty = (Ret (sample_fund\<lparr>pm_url := ''u''\<rparr>), w') \<and>
     FundamentalsController_get (full_fundamentals S N) sample_fund w' = (Ret (sample_fund\<lparr>pm_url := ''u''\<rparr>), w')"
proof (intro allI)
  fix S N
  let ?F = "full_fundamentals S N" and ?loc = "fundamentals_location (pm_sravzid sample_fund)"
  have "redis_keeps (fd_redis ?F)" by (simp add: redis_keeps_def full_fundamentals_def map_redis_def)
  note cached = fundamentals_read_through_cache [OF this refl, of sample_fund Map.empty "''u''" Map.empty Map.empty Map.empty True "[?loc \<mapsto> ''u'']"]
  then have first: "FundamentalsController_get ?F sample_fund Map.empty = (Ret (sample_fund\<lparr>pm_url := ''u''\<rparr>), [?loc \<mapsto> ''u''])"
    by (simp add: full_fundamentals_def map_redis_def io_return_def)
  with cached show "\<exists>w'. FundamentalsController_get ?F sample_fund Map.empty = (Ret (sample_fund\<lparr>pm_url := ''u''\<rparr>), w') \<and>
     FundamentalsController_get ?F sample_fund w' = (Ret (sample_fund\<lparr>pm_url := ''u''\<rparr>), w')" by blast
qed

end
