(* ===== verification/Http_Session.thy ===== *)
theory Http_Session
  imports Router
begin

text \<open>
  \<open>src/web/http_session.cpp\<close>: one HTTP connection. The theory has the request checks and
  the responses (JWT validation, CORS, health check, HEAD and OPTIONS), the hand-over of a
  request to the background worker, and the life cycle of the session object as a
  transition system over its pending asynchronous operations.

  The JWT library, the test for a web socket upgrade and the server's version string are
  parameters.
\<close>

section \<open>Requests and responses\<close>

record http_request =
  req_method :: verb
  req_target :: string
  req_version :: nat
  req_keep_alive :: bool
  req_headers :: "string \<Rightarrow> string option" \<comment> \<open>by lower-case field name\<close>
  req_body :: string

record http_response =
  res_status :: http_status
  res_version :: nat
  res_headers :: "string \<Rightarrow> string option"
  res_keep_alive :: bool
  res_body :: string
  res_content_length :: "nat option"

definition res_set :: "string \<Rightarrow> string \<Rightarrow> http_response \<Rightarrow> http_response" where
  "res_set field val res = res\<lparr>res_headers := (res_headers res)(field \<mapsto> val)\<rparr>"

definition new_response :: "http_status \<Rightarrow> nat \<Rightarrow> http_response" where
  "new_response st version =
     \<lparr>res_status = st, res_version = version, res_headers = Map.empty, res_keep_alive = True,
      res_body = [], res_content_length = None\<rparr>"

text \<open>\<open>prepare_payload\<close> of a string body announces the length the body has at that moment.\<close>

definition prepare_payload :: "http_response \<Rightarrow> http_response" where
  "prepare_payload res = res\<lparr>res_content_length := Some (length (res_body res))\<rparr>"

datatype jwt_result =
    Jwt_decoded | TokenExpiredError | SignatureFormatError | DecodeError | VerificationError
  | Jwt_other_exception

record http_params =
  hp_version_string :: string
  hp_jwt_decode :: "string \<Rightarrow> string \<Rightarrow> jwt_result" \<comment> \<open>token and secret, algorithm HS256\<close>
  hp_is_upgrade :: "http_request \<Rightarrow> bool"

section \<open>MIME types and paths\<close>

definition iequals :: "string \<Rightarrow> string \<Rightarrow> bool" where
  "iequals a b \<longleftrightarrow> map toupper a = map toupper b"

fun first_mime :: "(string \<times> string) list \<Rightarrow> string \<Rightarrow> string" where
  "first_mime [] ext = ''application/text''"
| "first_mime ((e, t) # rest) ext = (if iequals ext e then t else first_mime rest ext)"

definition mime_table :: "(string \<times> string) list" where
  "mime_table =
     [(''.htm'', ''text/html''), (''.html'', ''text/html''), (''.php'', ''text/html''),
      (''.css'', ''text/css''), (''.txt'', ''text/plain''), (''.js'', ''application/javascript''),
      (''.json'', ''application/json''), (''.xml'', ''application/xml''),
      (''.swf'', ''application/x-shockwave-flash''), (''.flv'', ''video/x-flv''),
      (''.png'', ''image/png''), (''.jpe'', ''image/jpeg''), (''.jpeg'', ''image/jpeg''),
      (''.jpg'', ''image/jpeg''), (''.gif'', ''image/gif''), (''.bmp'', ''image/bmp''),
      (''.ico'', ''image/vnd.microsoft.icon''), (''.tiff'', ''image/tiff''), (''.tif'', ''image/tiff''),
      (''.svg'', ''image/svg+xml''), (''.svgz'', ''image/svg+xml'')]"

definition mime_type :: "string \<Rightarrow> string" where
  "mime_type path =
     (let ext = (case rfind_suffix (CHR ''.'') path of None \<Rightarrow> [] | Some e \<Rightarrow> e)
      in first_mime mime_table ext)"

definition path_cat :: "string \<Rightarrow> string \<Rightarrow> string" where
  "path_cat base path =
     (if base = [] then path
      else (if last base = CHR ''/'' then butlast base else base) @ path)"

section \<open>Token validation\<close>

definition unauthorized :: "http_params \<Rightarrow> http_request \<Rightarrow> string \<Rightarrow> http_response" where
  "unauthorized P req why =
     (let res = new_response Status_unauthorized (req_version req);
          res = res_set ''server'' (hp_version_string P) res;
          res = res_set ''content-type'' ''text/html'' res;
          res = res\<lparr>res_keep_alive := req_keep_alive req\<rparr>;
          res = res\<lparr>res_body := why\<rparr>
      in prepare_payload res)"

text \<open>\<open>None\<close> means that the request may proceed.\<close>

definition validate_jwt_token :: "http_params \<Rightarrow> string \<Rightarrow> http_request \<Rightarrow> http_response option" where
  "validate_jwt_token P jwt_token req =
     (if req_target req = ''/health'' \<or> req_method req = Verb_options then None
      else (case req_headers req ''authorization'' of
              Some authorization_header \<Rightarrow>
                if substr 0 7 authorization_header = ''Bearer ''
                then (case hp_jwt_decode P (drop 7 authorization_header) jwt_token of
                        Jwt_decoded \<Rightarrow> None
                      | TokenExpiredError \<Rightarrow> Some (unauthorized P req ''Unauthorized - api_token expired'')
                      | SignatureFormatError \<Rightarrow>
                          Some (unauthorized P req ''Unauthorized - api_token signature format error'')
                      | DecodeError \<Rightarrow> Some (unauthorized P req ''Unauthorized - api_token decode error'')
                      | VerificationError \<Rightarrow>
                          Some (unauthorized P req ''Unauthorized - api_token verification error'')
                      | Jwt_other_exception \<Rightarrow>
                          Some (unauthorized P req ''Unauthorized - api_token unknown error''))
                else Some (unauthorized P req ''Unauthorized - api_token missing'')
            | None \<Rightarrow> Some (unauthorized P req ''Unauthorized - api_token missing'')))"

section \<open>Responses that need no background work\<close>

definition bad_request :: "http_params \<Rightarrow> http_request \<Rightarrow> string \<Rightarrow> http_response" where
  "bad_request P req why =
     (let res = new_response Status_bad_request (req_version req);
          res = res_set ''server'' (hp_version_string P) res;
          res = res_set ''content-type'' ''text/html'' res;
          res = res\<lparr>res_keep_alive := req_keep_alive req\<rparr>;
          res = res\<lparr>res_body := why\<rparr>
      in prepare_payload res)"

text \<open>The next two are declared beside it and never called.\<close>

definition not_found :: "http_params \<Rightarrow> http_request \<Rightarrow> string \<Rightarrow> http_response" where
  "not_found P req target =
     (let res = new_response Status_not_found (req_version req);
          res = res_set ''server'' (hp_version_string P) res;
          res = res_set ''content-type'' ''text/html'' res;
          res = res\<lparr>res_keep_alive := req_keep_alive req\<rparr>;
          res = res\<lparr>res_body := ''The resource '' @ [CHR 39] @ target @ [CHR 39] @ '' was not found.''\<rparr>
      in prepare_payload res)"

definition server_error :: "http_params \<Rightarrow> http_request \<Rightarrow> string \<Rightarrow> http_response" where
  "server_error P req reason =
     (let res = new_response Status_internal_server_error (req_version req);
          res = res_set ''server'' (hp_version_string P) res;
          res = res_set ''content-type'' ''text/html'' res;
          res = res\<lparr>res_keep_alive := req_keep_alive req\<rparr>;
          res = res\<lparr>res_body := ''An error occurred: '' @ [CHR 39] @ reason @ [CHR 39]\<rparr>
      in prepare_payload res)"

definition head_response :: "http_params \<Rightarrow> http_request \<Rightarrow> http_response" where
  "head_response P req =
     (let res = new_response Status_ok (req_version req);
          res = res_set ''server'' (hp_version_string P) res;
          res = res_set ''content-type'' (mime_type (req_target req)) res;
          res = res\<lparr>res_content_length := Some 1\<rparr>
      in res\<lparr>res_keep_alive := req_keep_alive req\<rparr>)"

text \<open>The CORS step shared in form by the OPTIONS response and the background response.\<close>

definition set_allowed_origin :: "string list \<Rightarrow> http_request \<Rightarrow> http_response \<Rightarrow> http_response" where
  "set_allowed_origin allowed_origins req res =
     (case req_headers req ''origin'' of
        Some origin \<Rightarrow>
          if origin \<in> set allowed_origins then res_set ''access-control-allow-origin'' origin res else res
      | None \<Rightarrow> res)"

definition options_response :: "http_params \<Rightarrow> string list \<Rightarrow> http_request \<Rightarrow> http_response" where
  "options_response P allowed_origins req =
     (let res = new_response Status_no_content (req_version req);
          res = res_set ''server'' (hp_version_string P) res;
          res = set_allowed_origin allowed_origins req res;
          res = res_set ''access-control-allow-headers''
                  (''Origin,X-Requested-With,Content-Type,Accept,Authorization,Accept-'' @
                   ''Language,Content-Language,Last-Event-ID,X-HTTP-Method-Override'') res;
          res = res_set ''access-control-allow-methods'' ''POST, GET, PUT, DELETE, PATCH, HEAD'' res;
          res = res_set ''access-control-allow-credentials'' ''true'' res
      in res\<lparr>res_keep_alive := req_keep_alive req\<rparr>)"

definition health_check_response :: "http_params \<Rightarrow> http_request \<Rightarrow> http_response" where
  "health_check_response P req =
     (let res = new_response Status_ok (req_version req);
          res = res_set ''server'' (hp_version_string P) res;
          res = res_set ''content-type'' ''text/html'' res;
          res = res\<lparr>res_keep_alive := req_keep_alive req\<rparr>;
          res = res\<lparr>res_body := ''Ok''\<rparr>
      in prepare_payload res)"

text \<open>\<open>None\<close> means that the request has been posted to the background worker.\<close>

definition handle_request :: "http_params \<Rightarrow> string list \<Rightarrow> http_request \<Rightarrow> http_response option" where
  "handle_request P allowed_origins req =
     (if req_method req \<noteq> Verb_get \<and> req_method req \<noteq> Verb_head \<and> req_method req \<noteq> Verb_post \<and>
         req_method req \<noteq> Verb_put \<and> req_method req \<noteq> Verb_delete \<and> req_method req \<noteq> Verb_patch \<and>
         req_method req \<noteq> Verb_options
      then Some (bad_request P req ''Unknown HTTP-method'')
      else if req_method req = Verb_head then Some (head_response P req)
      else if req_method req = Verb_options then Some (options_response P allowed_origins req)
      else if req_target req = ''/health'' then Some (health_check_response P req)
      else None)"

section \<open>The background worker\<close>

definition background_response ::
    "http_params \<Rightarrow> string list \<Rightarrow> http_request \<Rightarrow> http_status \<times> string \<Rightarrow> http_response" where
  "background_response P allowed_origins req result =
     (let (code, body) = result;
          res = new_response code (req_version req);
          res = res_set ''server'' (hp_version_string P) res;
          res = res_set ''content-type'' ''application/json'' res;
          res = res\<lparr>res_keep_alive := req_keep_alive req\<rparr>;
          res = res_set ''server'' (hp_version_string P) res;
          res = res\<lparr>res_body := body\<rparr>;
          res = res\<lparr>res_content_length := Some (length (res_body res))\<rparr>
      in set_allowed_origin allowed_origins req res)"

text \<open>The posted lambda: \<open>None\<close> when an exception was caught and no response is posted.\<close>

definition background_work ::
    "http_params \<Rightarrow> ('w, 'j, 'b) router \<Rightarrow> string list \<Rightarrow> http_request \<Rightarrow> ('w, http_response option) io" where
  "background_work P R allowed_origins req =
     io_catch
       (io_bind (route R (req_method req) (req_target req) (req_body req)) (\<lambda>result.
          io_return (Some (background_response P allowed_origins req result))))
       (\<lambda>ex. io_return None)"

text \<open>\<open>do_write\<close> appends the identity of its thread to the body before it starts the write.\<close>

definition do_write_response :: "string \<Rightarrow> http_response \<Rightarrow> http_response" where
  "do_write_response thread_id res =
     res\<lparr>res_body := res_body res @ '' webserver thread ID: '' @ thread_id\<rparr>"

section \<open>Events of a session\<close>

datatype read_result = Read_end_of_stream | Read_error string | Read_ok http_request

datatype read_outcome =
    Read_shutdown
  | Read_failed
  | Read_respond http_response
  | Read_upgrade http_request
  | Read_background http_request

record http_session =
  hs_jwt_token :: string
  hs_disableJWTTokenValidation :: string

text \<open>The constructor takes two strings from the environment; a missing one throws.\<close>

definition new_http_session :: "(string \<Rightarrow> string option) \<Rightarrow> http_session outcome" where
  "new_http_session vm_env =
     (case vm_env ''JWT_ACCESS_TOKEN_SECRET'' of
        None \<Rightarrow> Throw (Library_exception ''bad any_cast'')
      | Some secret \<Rightarrow>
          (case vm_env ''DisableJWTTokenValidation'' of
             None \<Rightarrow> Throw (Library_exception ''bad any_cast'')
           | Some disable \<Rightarrow> Ret \<lparr>hs_jwt_token = secret, hs_disableJWTTokenValidation = disable\<rparr>))"

definition on_read :: "http_params \<Rightarrow> string list \<Rightarrow> http_session \<Rightarrow> read_result \<Rightarrow> read_outcome" where
  "on_read P allowed_origins h r =
     (case r of
        Read_end_of_stream \<Rightarrow> Read_shutdown
      | Read_error msg \<Rightarrow> Read_failed
      | Read_ok req \<Rightarrow>
          (case (if hs_disableJWTTokenValidation h \<noteq> ''true''
                 then validate_jwt_token P (hs_jwt_token h) req else None) of
             Some unauthorized_res \<Rightarrow> Read_respond unauthorized_res
           | None \<Rightarrow>
               if hp_is_upgrade P req then Read_upgrade req
               else (case handle_request P allowed_origins req of
                       Some msg \<Rightarrow> Read_respond msg
                     | None \<Rightarrow> Read_background req)))"

section \<open>Life cycle of the session object\<close>

text \<open>
  The asynchronous operations a session can be waiting for. A handler that captures
  \<open>shared_from_this()\<close> keeps the session alive; the completion handler of \<open>do_write\<close>
  captures the bare \<open>this\<close>.
\<close>

datatype pending =
    Pend_read
  | Pend_write bool \<comment> \<open>keep alive; the handler owns the session (\<open>self\<close>)\<close>
  | Pend_background http_request
  | Pend_do_write http_response
  | Pend_write_raw bool \<comment> \<open>keep alive; the handler holds the raw pointer\<close>

fun owns_session :: "pending \<Rightarrow> bool" where
  "owns_session (Pend_write_raw _) = False"
| "owns_session _ = True"

record session_state =
  ss_pending :: "pending list"
  ss_requests :: nat \<comment> \<open>requests read so far\<close>
  ss_shutdown :: bool \<comment> \<open>the sending side was shut down\<close>
  ss_upgraded :: bool \<comment> \<open>the socket went to a web socket session\<close>

definition session_run :: session_state where
  "session_run = \<lparr>ss_pending = [Pend_read], ss_requests = 0, ss_shutdown = False, ss_upgraded = False\<rparr>"

definition session_alive :: "session_state \<Rightarrow> bool" where
  "session_alive s \<longleftrightarrow> (\<exists>p \<in> set (ss_pending s). owns_session p)"

text \<open>A pending operation whose completion handler would use a destroyed session.\<close>

definition dangling :: "session_state \<Rightarrow> bool" where
  "dangling s \<longleftrightarrow> ss_pending s \<noteq> [] \<and> \<not> session_alive s"

definition on_write :: "bool \<Rightarrow> bool \<Rightarrow> session_state \<Rightarrow> session_state" where
  "on_write failed keep_alive s =
     (if failed then s
      else if \<not> keep_alive then s\<lparr>ss_shutdown := True\<rparr>
      else s)"

text \<open>One completed operation: it leaves the list, and its handler adds what it starts.\<close>

inductive session_step ::
    "http_params \<Rightarrow> string list \<Rightarrow> http_session \<Rightarrow> session_state \<Rightarrow> session_state \<Rightarrow> bool"
  for P :: http_params and allowed_origins :: "string list" and h :: http_session where
  read_end: "ss_pending s = xs @ Pend_read # ys \<Longrightarrow>
     on_read P allowed_origins h r = Read_shutdown \<Longrightarrow>
     session_step P allowed_origins h s (s\<lparr>ss_pending := xs @ ys, ss_shutdown := True\<rparr>)"
| read_failed: "ss_pending s = xs @ Pend_read # ys \<Longrightarrow>
     on_read P allowed_origins h r = Read_failed \<Longrightarrow>
     session_step P allowed_origins h s (s\<lparr>ss_pending := xs @ ys\<rparr>)"
| read_respond: "ss_pending s = xs @ Pend_read # ys \<Longrightarrow>
     on_read P allowed_origins h r = Read_respond res \<Longrightarrow>
     session_step P allowed_origins h s
       (s\<lparr>ss_pending := xs @ ys @ [Pend_write (res_keep_alive res)], ss_requests := Suc (ss_requests s)\<rparr>)"
| read_upgrade: "ss_pending s = xs @ Pend_read # ys \<Longrightarrow>
     on_read P allowed_origins h r = Read_upgrade req \<Longrightarrow>
     session_step P allowed_origins h s
       (s\<lparr>ss_pending := xs @ ys, ss_requests := Suc (ss_requests s), ss_upgraded := True\<rparr>)"
| read_background: "ss_pending s = xs @ Pend_read # ys \<Longrightarrow>
     on_read P allowed_origins h r = Read_background req \<Longrightarrow>
     session_step P allowed_origins h s
       (s\<lparr>ss_pending := xs @ ys @ [Pend_background req], ss_requests := Suc (ss_requests s)\<rparr>)"
| background_done: "ss_pending s = xs @ Pend_background req # ys \<Longrightarrow>
     res = background_response P allowed_origins req result \<Longrightarrow>
     session_step P allowed_origins h s (s\<lparr>ss_pending := xs @ ys @ [Pend_do_write res]\<rparr>)"
| background_failed: "ss_pending s = xs @ Pend_background req # ys \<Longrightarrow>
     session_step P allowed_origins h s (s\<lparr>ss_pending := xs @ ys\<rparr>)"
| do_write: "ss_pending s = xs @ Pend_do_write res # ys \<Longrightarrow>
     session_step P allowed_origins h s
       (s\<lparr>ss_pending := xs @ ys @ [Pend_write_raw (res_keep_alive (do_write_response thread_id res))]\<rparr>)"
| write_done: "ss_pending s = xs @ Pend_write keep_alive # ys \<Longrightarrow>
     session_step P allowed_origins h s (on_write failed keep_alive (s\<lparr>ss_pending := xs @ ys\<rparr>))"
| write_raw_done: "ss_pending s = xs @ Pend_write_raw keep_alive # ys \<Longrightarrow>
     session_step P allowed_origins h s (on_write failed keep_alive (s\<lparr>ss_pending := xs @ ys\<rparr>))"

inductive session_reachable ::
    "http_params \<Rightarrow> string list \<Rightarrow> http_session \<Rightarrow> session_state \<Rightarrow> bool"
  for P :: http_params and allowed_origins :: "string list" and h :: http_session where
  start: "session_reachable P allowed_origins h session_run"
| step: "session_reachable P allowed_origins h s \<Longrightarrow> session_step P allowed_origins h s t \<Longrightarrow>
     session_reachable P allowed_origins h t"

section \<open>Facts\<close>

lemma res_set_fields [simp]:
  "res_headers (res_set f v res) = (res_headers res)(f \<mapsto> v)"
  "res_status (res_set f v res) = res_status res"
  "res_body (res_set f v res) = res_body res"
  "res_keep_alive (res_set f v res) = res_keep_alive res"
  "res_content_length (res_set f v res) = res_content_length res"
  by (simp_all add: res_set_def)

lemma prepare_payload_fields [simp]:
  "res_headers (prepare_payload res) = res_headers res"
  "res_status (prepare_payload res) = res_status res"
  "res_keep_alive (prepare_payload res) = res_keep_alive res"
  "res_body (prepare_payload res) = res_body res"
  "res_content_length (prepare_payload res) = Some (length (res_body res))"
  by (simp_all add: prepare_payload_def)

lemma new_response_fields [simp]:
  "res_headers (new_response st v) = Map.empty" "res_status (new_response st v) = st"
  "res_body (new_response st v) = []" "res_content_length (new_response st v) = None"
  by (simp_all add: new_response_def)

lemma set_allowed_origin_fields [simp]:
  "res_status (set_allowed_origin ao req res) = res_status res"
  "res_body (set_allowed_origin ao req res) = res_body res"
  "res_keep_alive (set_allowed_origin ao req res) = res_keep_alive res"
  "res_content_length (set_allowed_origin ao req res) = res_content_length res"
  by (simp_all add: set_allowed_origin_def split: option.split)

lemma set_allowed_origin_header:
  "res_headers (set_allowed_origin ao req res) ''access-control-allow-origin'' =
     (case req_headers req ''origin'' of
        Some orig \<Rightarrow> if orig \<in> set ao then Some orig
                     else res_headers res ''access-control-allow-origin''
      | None \<Rightarrow> res_headers res ''access-control-allow-origin'')"
  by (simp add: set_allowed_origin_def split: option.split)

lemma set_allowed_origin_other_header:
  "f \<noteq> ''access-control-allow-origin'' \<Longrightarrow>
   res_headers (set_allowed_origin ao req res) f = res_headers res f"
  by (simp add: set_allowed_origin_def split: option.split)

lemma validate_jwt_None_iff:
  "validate_jwt_token P secret req = None \<longleftrightarrow>
     req_target req = ''/health'' \<or> req_method req = Verb_options \<or>
     (\<exists>tok. req_headers req ''authorization'' = Some (''Bearer '' @ tok) \<and>
            hp_jwt_decode P tok secret = Jwt_decoded)"
proof (cases "req_target req = ''/health'' \<or> req_method req = Verb_options")
  case True
  then show ?thesis by (auto simp: validate_jwt_token_def)
next
  case False
  show ?thesis
  proof (cases "req_headers req ''authorization''")
    case None
    with False show ?thesis by (simp add: validate_jwt_token_def)
  next
    case (Some hdr)
    have fwd: "hdr = ''Bearer '' @ drop 7 hdr" if "take 7 hdr = ''Bearer ''"
      using append_take_drop_id [of 7 hdr] that by simp
    show ?thesis
    proof (cases "take 7 hdr = ''Bearer ''")
      case True
      then have "hdr = ''Bearer '' @ drop 7 hdr" by (rule fwd)
      with False Some True show ?thesis
        by (cases "hp_jwt_decode P (drop 7 hdr) secret")
           (auto simp: validate_jwt_token_def substr_def)
    next
      case no: False
      then have "\<nexists>tok. hdr = ''Bearer '' @ tok" by auto
      with False Some no show ?thesis by (auto simp: validate_jwt_token_def substr_def)
    qed
  qed
qed

text \<open>At most one operation is pending at any time, and the session never reads again.\<close>

definition session_inv :: "session_state \<Rightarrow> bool" where
  "session_inv s \<longleftrightarrow>
     length (ss_pending s) \<le> 1 \<and> ss_requests s \<le> 1 \<and>
     (Pend_read \<in> set (ss_pending s) \<longrightarrow> ss_requests s = 0)"

lemma on_write_fields [simp]:
  "ss_pending (on_write failed ka s) = ss_pending s"
  "ss_requests (on_write failed ka s) = ss_requests s"
  by (simp_all add: on_write_def)

lemma session_step_inv:
  "session_step P ao h s t \<Longrightarrow> session_inv s \<Longrightarrow> session_inv t"
  by (induction rule: session_step.induct) (auto simp: session_inv_def)

lemma session_reachable_inv: "session_reachable P ao h s \<Longrightarrow> session_inv s"
proof (induction rule: session_reachable.induct)
  case start
  show ?case by (simp add: session_inv_def session_run_def)
next
  case (step s t)
  then show ?case by (blast intro: session_step_inv)
qed

lemma write_raw_dangling:
  "session_inv s \<Longrightarrow> Pend_write_raw ka \<in> set (ss_pending s) \<Longrightarrow> dangling s"
proof -
  assume "session_inv s" and m: "Pend_write_raw ka \<in> set (ss_pending s)"
  then have "length (ss_pending s) \<le> 1" by (simp add: session_inv_def)
  with m have "ss_pending s = [Pend_write_raw ka]" by (cases "ss_pending s") auto
  then show ?thesis by (simp add: dangling_def session_alive_def)
qed

text \<open>The request has a token that the library accepts.\<close>

definition token_accepted :: "http_params \<Rightarrow> http_session \<Rightarrow> http_request \<Rightarrow> bool" where
  "token_accepted P h req \<longleftrightarrow>
     (case req_headers req ''authorization'' of
        None \<Rightarrow> False
      | Some hdr \<Rightarrow> take 7 hdr = ''Bearer '' \<and> hp_jwt_decode P (drop 7 hdr) (hs_jwt_token h) = Jwt_decoded)"

lemma token_accepted_iff:
  "token_accepted P h req \<longleftrightarrow>
     (\<exists>tok. req_headers req ''authorization'' = Some (''Bearer '' @ tok) \<and> hp_jwt_decode P tok (hs_jwt_token h) = Jwt_decoded)"
proof
  assume "token_accepted P h req"
  then obtain hdr where hdr: "req_headers req ''authorization'' = Some hdr" "take 7 hdr = ''Bearer ''"
    "hp_jwt_decode P (drop 7 hdr) (hs_jwt_token h) = Jwt_decoded"
    by (auto simp: token_accepted_def split: option.splits)
  have "hdr = ''Bearer '' @ drop 7 hdr" using append_take_drop_id [of 7 hdr] hdr(2) by simp
  with hdr show "\<exists>tok. req_headers req ''authorization'' = Some (''Bearer '' @ tok) \<and> hp_jwt_decode P tok (hs_jwt_token h) = Jwt_decoded"
    by metis
qed (auto simp: token_accepted_def)

lemma validate_None:
  "validate_jwt_token P (hs_jwt_token h) req = None \<longleftrightarrow>
     req_target req = ''/health'' \<or> req_method req = Verb_options \<or> token_accepted P h req"
  unfolding validate_jwt_None_iff token_accepted_iff by simp

lemma handle_request_None:
  "handle_request P ao req = None \<longleftrightarrow>
     req_method req \<in> {Verb_get, Verb_post, Verb_put, Verb_delete, Verb_patch} \<and> req_target req \<noteq> ''/health''"
  by (auto simp: handle_request_def)

lemma on_read_request:
  "on_read P ao h r = Read_upgrade req \<or> on_read P ao h r = Read_background req \<Longrightarrow> r = Read_ok req"
  by (auto simp: on_read_def split: read_result.splits option.splits if_splits)

lemma past_token_check:
  "(on_read P ao h (Read_ok req) = Read_background req \<longleftrightarrow>
      \<not> hp_is_upgrade P req \<and> req_target req \<noteq> ''/health'' \<and>
      req_method req \<in> {Verb_get, Verb_post, Verb_put, Verb_delete, Verb_patch} \<and>
      (hs_disableJWTTokenValidation h = ''true'' \<or> token_accepted P h req)) \<and>
   (on_read P ao h (Read_ok req) = Read_upgrade req \<longleftrightarrow>
      hp_is_upgrade P req \<and>
      (hs_disableJWTTokenValidation h = ''true'' \<or> token_accepted P h req \<or>
       req_target req = ''/health'' \<or> req_method req = Verb_options))"
proof -
  define v where "v = (if hs_disableJWTTokenValidation h \<noteq> ''true''
                 then validate_jwt_token P (hs_jwt_token h) req else None)"
  have v: "v = None \<longleftrightarrow> hs_disableJWTTokenValidation h = ''true'' \<or> req_target req = ''/health'' \<or>
      req_method req = Verb_options \<or> token_accepted P h req"
    using validate_None [of P h req] by (auto simp: v_def)
  have r: "on_read P ao h (Read_ok req) =
      (case v of Some res \<Rightarrow> Read_respond res
       | None \<Rightarrow> if hp_is_upgrade P req then Read_upgrade req
                else (case handle_request P ao req of Some msg \<Rightarrow> Read_respond msg | None \<Rightarrow> Read_background req))"
    by (simp add: on_read_def v_def)
  show ?thesis
  proof (cases v)
    case None
    with v r handle_request_None [of P ao req] show ?thesis
      by (cases "handle_request P ao req") auto
  next
    case (Some res)
    with v r show ?thesis by auto
  qed
qed

section \<open>Properties\<close>

text \<open>
  C16: who gets past the token check. A request reaches the router exactly when it is no upgrade, has
  one of five methods, is not the health check, and its token is accepted or validation is
  switched off; a web socket is opened exactly for upgrade requests that pass the check, and
  the health target and the OPTIONS method pass it without any token.
\<close>
theorem requests_past_token_check:
  "(on_read P ao h (Read_ok req) = Read_background req \<longleftrightarrow>
      \<not> hp_is_upgrade P req \<and> req_target req \<noteq> ''/health'' \<and>
      req_method req \<in> {Verb_get, Verb_post, Verb_put, Verb_delete, Verb_patch} \<and>
      (hs_disableJWTTokenValidation h = ''true'' \<or> token_accepted P h req)) \<and>
   (on_read P ao h (Read_ok req) = Read_upgrade req \<longleftrightarrow>
      hp_is_upgrade P req \<and>
      (hs_disableJWTTokenValidation h = ''true'' \<or> token_accepted P h req \<or>
       req_target req = ''/health'' \<or> req_method req = Verb_options))"
  by (rule past_token_check)

text \<open>
  Cross-origin access. Every response of the router and every response to OPTIONS allows an
  origin exactly when the request names it and it is one of the configured origins; no other
  value is ever sent.
\<close>
theorem cors_only_configured_origins:
  "(res_headers (background_response P ao req result) ''access-control-allow-origin'' = Some origin \<longleftrightarrow>
      req_headers req ''origin'' = Some origin \<and> origin \<in> set ao) \<and>
   (res_headers (options_response P ao req) ''access-control-allow-origin'' = Some origin \<longleftrightarrow>
      req_headers req ''origin'' = Some origin \<and> origin \<in> set ao)"
  by (auto simp: background_response_def options_response_def Let_def set_allowed_origin_header split: prod.split option.split)

text \<open>
  The announced length of a routed response is wrong. The length is taken of the body of the
  router, and the thread that writes appends its identity to the body afterwards, so the
  body sent is longer than announced by 22 characters and the length of that identity.
\<close>
theorem routed_response_longer_than_announced:
  "\<exists>n. res_content_length (do_write_response thread_id (background_response P ao req result)) = Some n \<and>
     length (res_body (do_write_response thread_id (background_response P ao req result))) = n + 22 + length thread_id"
  by (simp add: do_write_response_def background_response_def Let_def split: prod.split)

text \<open>
  The life of a connection. At any time at most one operation of a session is pending, and a
  session reads at most one request: a connection that is kept alive is never read again. The
  write of a routed response is the only pending operation and holds the bare pointer, so the
  session may be destroyed before its handler runs.
\<close>
theorem one_request_per_connection:
  assumes "session_reachable P ao h s"
  shows "length (ss_pending s) \<le> 1 \<and> ss_requests s \<le> 1 \<and>
    (\<forall>ka. Pend_write_raw ka \<in> set (ss_pending s) \<longrightarrow> dangling s)"
  using session_reachable_inv [OF assms] write_raw_dangling by (auto simp: session_inv_def)

definition sample_params :: http_params where
  "sample_params = \<lparr>hp_version_string = ''B'', hp_jwt_decode = (\<lambda>tok secret. Jwt_decoded), hp_is_upgrade = (\<lambda>req. False)\<rparr>"

definition sample_session :: http_session where
  "sample_session = \<lparr>hs_jwt_token = ''k'', hs_disableJWTTokenValidation = ''false''\<rparr>"

definition sample_request :: http_request where
  "sample_request =
     \<lparr>req_method = Verb_get, req_target = ''/api'', req_version = 11, req_keep_alive = True,
      req_headers = [''authorization'' \<mapsto> ''Bearer t''], req_body = []\<rparr>"

lemma sample_background: "on_read sample_params [] sample_session (Read_ok sample_request) = Read_background sample_request"
  by (simp add: on_read_def validate_jwt_token_def handle_request_def substr_def
      sample_params_def sample_session_def sample_request_def)

lemma written_reachable:
  "\<exists>ka. session_reachable sample_params [] sample_session
     \<lparr>ss_pending = [Pend_write_raw ka], ss_requests = 1, ss_shutdown = False, ss_upgraded = False\<rparr>"
proof -
  let ?st = "\<lambda>p. \<lparr>ss_pending = [p], ss_requests = 1, ss_shutdown = False, ss_upgraded = False\<rparr>"
  let ?res = "background_response sample_params [] sample_request (Status_ok, [])"
  have "session_step sample_params [] sample_session session_run (?st (Pend_background sample_request))"
    using session_step.read_background [of session_run "[]" "[]", OF _ sample_background]
    by (simp add: session_run_def)
  from session_reachable.step [OF session_reachable.start this]
  have r1: "session_reachable sample_params [] sample_session (?st (Pend_background sample_request))" .
  have "session_step sample_params [] sample_session (?st (Pend_background sample_request)) (?st (Pend_do_write ?res))"
    using session_step.background_done [of "?st (Pend_background sample_request)" "[]" sample_request "[]" ?res] by simp
  from session_reachable.step [OF r1 this]
  have r2: "session_reachable sample_params [] sample_session (?st (Pend_do_write ?res))" .
  have "session_step sample_params [] sample_session (?st (Pend_do_write ?res))
      (?st (Pend_write_raw (res_keep_alive (do_write_response ''1'' ?res))))"
    using session_step.do_write [of "?st (Pend_do_write ?res)" "[]" ?res "[]" sample_params "[]" sample_session "''1''"] by simp
  from session_reachable.step [OF r2 this] show ?thesis by blast
qed

theorem one_request_per_connection_witness:
  "\<exists>s. session_reachable sample_params [] sample_session s \<and> dangling s \<and> ss_requests s = 1"
proof -
  from written_reachable obtain ka where r: "session_reachable sample_params [] sample_session
     \<lparr>ss_pending = [Pend_write_raw ka], ss_requests = 1, ss_shutdown = False, ss_upgraded = False\<rparr>" ..
  from one_request_per_connection [OF this] r show ?thesis by fastforce
qed

end
