(* ===== verification/Symbols.thy ===== *)
theory Symbols
  imports Prelude
begin

text \<open>
  \<open>src/web/symbol.cpp\<close>: a financial symbol with the set of web socket sessions subscribed
  to it. Sessions are raw pointers in the source and numbers here. The locale states what
  the shared state relies on.
\<close>

type_synonym sid = nat

record symbol =
  sym_code :: string
  sym_quote :: string
  sym_time :: int
  sym_refcount :: int
  sym_sessions :: "sid set"

definition new_symbol :: "string \<Rightarrow> string \<Rightarrow> int \<Rightarrow> symbol" where
  "new_symbol code quote time =
     \<lparr>sym_code = code, sym_quote = quote, sym_time = time, sym_refcount = 0, sym_sessions = {}\<rparr>"

definition symbol_join :: "sid \<Rightarrow> symbol \<Rightarrow> symbol" where
  "symbol_join session smb = smb\<lparr>sym_sessions := insert session (sym_sessions smb)\<rparr>"

text \<open>\<open>unordered_set::erase\<close> returns how many elements it removed.\<close>

definition symbol_leave :: "sid \<Rightarrow> symbol \<Rightarrow> nat \<times> symbol" where
  "symbol_leave session smb =
     (if session \<in> sym_sessions smb then 1 else 0,
      smb\<lparr>sym_sessions := sym_sessions smb - {session}\<rparr>)"

locale session_registry =
  fixes members :: "'r \<Rightarrow> sid set"
    and join :: "sid \<Rightarrow> 'r \<Rightarrow> 'r"
    and leave :: "sid \<Rightarrow> 'r \<Rightarrow> nat \<times> 'r"
  assumes members_join: "members (join s r) = insert s (members r)"
    and members_leave: "members (snd (leave s r)) = members r - {s}"
    and leave_count: "fst (leave s r) = (if s \<in> members r then 1 else 0)"
begin

lemma join_nonempty [simp]: "members (join s r) \<noteq> {}"
  by (simp add: members_join)

lemma left_last_iff:
  "0 < fst (leave s r) \<and> members (snd (leave s r)) = {} \<longleftrightarrow> members r = {s}"
  by (auto simp: members_leave leave_count)

lemma leave_absent: "s \<notin> members r \<Longrightarrow> fst (leave s r) = 0 \<and> members (snd (leave s r)) = members r"
  by (auto simp: members_leave leave_count)

lemma leave_join: "s \<notin> members r \<Longrightarrow> members (snd (leave s (join s r))) = members r"
  by (auto simp: members_leave members_join)

end

interpretation symreg: session_registry sym_sessions symbol_join symbol_leave
  by unfold_locales (auto simp: symbol_join_def symbol_leave_def)

end
