(* ===== verification/Message_Queue.thy ===== *)
theory Message_Queue
  imports Std_Lib
begin

text \<open>
  The bounded queues between the threads of the program (\<open>boost::lockfree::spsc_queue\<close> with
  a capacity of 1024) as an interface, and the loop of \<open>include/sravz.hpp\<close> that waits for a
  message with exponential backoff.

  The queue belongs to Boost, so its operations are a parameter (\<open>spsc\<close>); the locale
  \<open>spsc_queue\<close> states what its documentation promises: \<open>push\<close> appends and returns true while
  there is room and otherwise returns false and changes nothing, \<open>pop\<close> takes the oldest
  element. \<open>sp_contents\<close> is the abstraction of a queue to the list of its elements, oldest
  first; only specifications use it.
\<close>

section \<open>The queue interface\<close>

record ('q, 'a) spsc =
  sp_push :: "'a \<Rightarrow> 'q \<Rightarrow> bool \<times> 'q"
  sp_pop :: "'q \<Rightarrow> ('a \<times> 'q) option"
  sp_contents :: "'q \<Rightarrow> 'a list"

text \<open>\<open>boost::lockfree::capacity<1024>\<close>, the same for every queue of the program.\<close>

definition queue_capacity :: nat where
  "queue_capacity = 1024"

locale spsc_queue =
  fixes Q :: "('q, 'a) spsc"
  assumes push_room: "length (sp_contents Q q) < queue_capacity \<Longrightarrow>
      fst (sp_push Q x q) \<and> sp_contents Q (snd (sp_push Q x q)) = sp_contents Q q @ [x]"
    and push_full: "\<not> length (sp_contents Q q) < queue_capacity \<Longrightarrow> sp_push Q x q = (False, q)"
    and pop_empty: "sp_contents Q q = [] \<Longrightarrow> sp_pop Q q = None"
    and pop_first: "sp_contents Q q = x # xs \<Longrightarrow> \<exists>q'. sp_pop Q q = Some (x, q') \<and> sp_contents Q q' = xs"
begin

lemma contents_push:
  "sp_contents Q (snd (sp_push Q x q)) =
     (if length (sp_contents Q q) < queue_capacity then sp_contents Q q @ [x] else sp_contents Q q)"
  using push_room [of q x] push_full [of q x] by auto

lemma push_ok_iff: "fst (sp_push Q x q) \<longleftrightarrow> length (sp_contents Q q) < queue_capacity"
  using push_room [of q x] push_full [of q x] by (cases "length (sp_contents Q q) < queue_capacity") auto

lemma pop_None_iff [simp]: "sp_pop Q q = None \<longleftrightarrow> sp_contents Q q = []"
proof (cases "sp_contents Q q")
  case Nil
  then show ?thesis by (simp add: pop_empty)
next
  case (Cons x xs)
  then show ?thesis using pop_first [OF Cons] by auto
qed

lemma pop_SomeD: "sp_pop Q q = Some (x, q') \<Longrightarrow> sp_contents Q q = x # sp_contents Q q'"
proof -
  assume p: "sp_pop Q q = Some (x, q')"
  then obtain y ys where "sp_contents Q q = y # ys"
    by (metis list.exhaust option.distinct(1) pop_None_iff)
  with pop_first [OF this] p show ?thesis by auto
qed

lemma contents_bounded:
  "length (sp_contents Q q) \<le> queue_capacity \<Longrightarrow>
   length (sp_contents Q (snd (sp_push Q x q))) \<le> queue_capacity"
  by (auto simp: contents_push)

lemma contents_push_set:
  "set (sp_contents Q (snd (sp_push Q x q))) \<subseteq> insert x (set (sp_contents Q q))"
  by (auto simp: contents_push)

end

text \<open>The documented behaviour itself, on lists: the instance that the witnesses compute with.\<close>

definition bounded_queue :: "('a list, 'a) spsc" where
  "bounded_queue =
     \<lparr>sp_push = (\<lambda>x q. if length q < queue_capacity then (True, q @ [x]) else (False, q)),
      sp_pop = (\<lambda>q. case q of [] \<Rightarrow> None | x # xs \<Rightarrow> Some (x, xs)),
      sp_contents = (\<lambda>q. q)\<rparr>"

interpretation bq: spsc_queue bounded_queue
  by unfold_locales (auto simp: bounded_queue_def)

lemma bounded_queue_spsc: "spsc_queue bounded_queue"
  by (rule bq.spsc_queue_axioms)

lemma bounded_queue_simps [simp]:
  "sp_push bounded_queue x q = (if length q < queue_capacity then (True, q @ [x]) else (False, q))"
  "sp_pop bounded_queue [] = None"
  "sp_pop bounded_queue (y # ys) = Some (y, ys)"
  "sp_contents bounded_queue q = q"
  by (simp_all add: bounded_queue_def)

section \<open>Waiting with exponential backoff\<close>

definition EXPONENTIAL_BACKOFF_LIMIT :: nat where
  "EXPONENTIAL_BACKOFF_LIMIT = 5"

text \<open>
  \<open>sleep secs\<close> is the effect of sleeping on the queue: whatever the producer did meanwhile.
  \<open>1 << backoff++\<close> is a shift of a 32-bit \<open>int\<close>. The last argument records the lengths of the
  sleeps; \<open>None\<close> means that the loop polls forever.
\<close>

partial_function (option) backoff_loop ::
    "nat \<Rightarrow> ('q, 'a) spsc \<Rightarrow> (nat \<Rightarrow> 'q \<Rightarrow> 'q) \<Rightarrow> nat \<Rightarrow> 'q \<Rightarrow> nat list \<Rightarrow> ('a \<times> 'q \<times> nat list) option" where
  "backoff_loop limit Q sleep backoff q slept =
     (case sp_pop Q q of
        Some (msg, q') \<Rightarrow> Some (msg, q', slept)
      | None \<Rightarrow>
          (let secs = unat (push_bit backoff (1 :: 32 word));
               backoff' = Suc backoff
           in backoff_loop limit Q sleep (if limit < backoff' then 0 else backoff')
                (sleep secs q) (slept @ [secs])))"

definition get_message_with_backoff ::
    "('q, 'a) spsc \<Rightarrow> (nat \<Rightarrow> 'q \<Rightarrow> 'q) \<Rightarrow> 'q \<Rightarrow> ('a \<times> 'q \<times> nat list) option" where
  "get_message_with_backoff Q sleep q = backoff_loop EXPONENTIAL_BACKOFF_LIMIT Q sleep 0 q []"

text \<open>The length of the \<open>i\<close>-th sleep, and the queue as the \<open>i\<close>-th poll from round \<open>k\<close> on sees it.\<close>

definition nth_sleep :: "nat \<Rightarrow> nat" where
  "nth_sleep i = 2 ^ (i mod 6)"

primrec polled_queue :: "(nat \<Rightarrow> 'q \<Rightarrow> 'q) \<Rightarrow> nat \<Rightarrow> nat \<Rightarrow> 'q \<Rightarrow> 'q" where
  "polled_queue sleep k 0 q = q"
| "polled_queue sleep k (Suc i) q = polled_queue sleep (Suc k) i (sleep (nth_sleep k) q)"

definition found_at :: "('q, 'a) spsc \<Rightarrow> (nat \<Rightarrow> 'q \<Rightarrow> 'q) \<Rightarrow> nat \<Rightarrow> nat \<Rightarrow> 'q \<Rightarrow> 'a \<Rightarrow> 'q \<Rightarrow> bool" where
  "found_at Q sleep k n q msg q' \<longleftrightarrow>
     (\<forall>i < n. sp_pop Q (polled_queue sleep k i q) = None) \<and>
     sp_pop Q (polled_queue sleep k n q) = Some (msg, q')"

lemma shift_secs: "unat (push_bit (k mod 6) (1 :: 32 word)) = nth_sleep k"
proof -
  have "k mod 6 < 6" by simp
  then consider "k mod 6 = 0" | "k mod 6 = 1" | "k mod 6 = 2" | "k mod 6 = 3" | "k mod 6 = 4" | "k mod 6 = 5"
    by linarith
  then show ?thesis
    by cases (simp_all add: nth_sleep_def push_bit_eq_mult)
qed

lemma next_backoff: "(if 5 < Suc (k mod 6) then 0 else Suc (k mod 6)) = Suc k mod 6"
proof -
  have "k mod 6 < 6" by simp
  then show ?thesis by (auto simp: mod_Suc)
qed

lemma backoff_loop_unfold:
  "backoff_loop 5 Q sleep (k mod 6) q slept =
     (case sp_pop Q q of
        Some (msg, q') \<Rightarrow> Some (msg, q', slept)
      | None \<Rightarrow> backoff_loop 5 Q sleep (Suc k mod 6) (sleep (nth_sleep k) q) (slept @ [nth_sleep k]))"
  by (subst backoff_loop.simps) (simp only: Let_def shift_secs next_backoff)

lemma found_at_0 [simp]: "found_at Q sleep k 0 q msg q' \<longleftrightarrow> sp_pop Q q = Some (msg, q')"
  by (simp add: found_at_def)

lemma found_at_Suc [simp]:
  "found_at Q sleep k (Suc n) q msg q' \<longleftrightarrow>
     sp_pop Q q = None \<and> found_at Q sleep (Suc k) n (sleep (nth_sleep k) q) msg q'"
  unfolding found_at_def less_Suc_eq_0_disj by auto

lemma map_sleeps_Suc: "map nth_sleep [k..<k + Suc n] = nth_sleep k # map nth_sleep [Suc k..<Suc k + n]"
proof -
  have "[k..<k + Suc n] = k # [Suc k..<Suc k + n]"
    by (subst upt_conv_Cons) simp_all
  then show ?thesis by simp
qed

lemma backoff_loop_found:
  "found_at Q sleep k n q msg q' \<Longrightarrow>
   backoff_loop 5 Q sleep (k mod 6) q slept = Some (msg, q', slept @ map nth_sleep [k..<k + n])"
proof (induction n arbitrary: k q slept)
  case 0
  then show ?case by (simp add: backoff_loop_unfold)
next
  case (Suc n)
  from Suc.prems have "found_at Q sleep (Suc k) n (sleep (nth_sleep k) q) msg q'" by simp
  from Suc.IH [OF this] Suc.prems show ?case
    unfolding map_sleeps_Suc by (simp add: backoff_loop_unfold)
qed

lemma backoff_loop_returns:
  fixes Q :: "('q, 'a) spsc"
  assumes "backoff_loop lim Q sleep b q slept = Some r" and "lim = 5" and "b = k mod 6"
  shows "\<exists>n msg q'. r = (msg, q', slept @ map nth_sleep [k..<k + n]) \<and> found_at Q sleep k n q msg q'"
proof -
  define P where "P lim Q sleep b q slept r \<longleftrightarrow>
      (\<forall>k. lim = 5 \<and> b = k mod 6 \<longrightarrow>
        (\<exists>n msg q'. r = (msg, q', slept @ map nth_sleep [k..<k + n]) \<and> found_at Q sleep k n q msg q'))"
    for lim b :: nat and Q :: "('q, 'a) spsc" and sleep q slept r
  have "P lim Q sleep b q slept r"
  proof (rule backoff_loop.raw_induct [where P = P, OF _ assms(1)])
    fix f lim Q sleep b q slept r
    assume IH: "\<And>lim Q sleep b q slept r. f lim Q sleep b q slept = Some r \<Longrightarrow> P lim Q sleep b q slept r"
      and eq: "(case sp_pop Q q of
        Some (msg, q') \<Rightarrow> Some (msg, q', slept)
      | None \<Rightarrow>
          (let secs = unat (push_bit b (1 :: 32 word)); backoff' = Suc b
           in f lim Q sleep (if lim < backoff' then 0 else backoff') (sleep secs q) (slept @ [secs]))) = Some r"
    show "P lim Q sleep b q slept r"
      unfolding P_def
    proof (intro allI impI)
      fix k assume k: "lim = 5 \<and> b = k mod 6"
      show "\<exists>n msg q'. r = (msg, q', slept @ map nth_sleep [k..<k + n]) \<and> found_at Q sleep k n q msg q'"
      proof (cases "sp_pop Q q")
        case None
        with eq k have "f lim Q sleep (Suc k mod 6) (sleep (nth_sleep k) q) (slept @ [nth_sleep k]) = Some r"
          by (simp only: Let_def shift_secs next_backoff option.case)
        from IH [OF this] k obtain n msg q' where
          r: "r = (msg, q', (slept @ [nth_sleep k]) @ map nth_sleep [Suc k..<Suc k + n])"
          and f: "found_at Q sleep (Suc k) n (sleep (nth_sleep k) q) msg q'"
          unfolding P_def by blast
        from f None have "found_at Q sleep k (Suc n) q msg q'" by simp
        moreover have "r = (msg, q', slept @ map nth_sleep [k..<k + Suc n])"
          using r unfolding map_sleeps_Suc by simp
        ultimately show ?thesis by blast
      next
        case (Some p)
        with eq show ?thesis
          by (intro exI [of _ 0]) (auto split: prod.splits)
      qed
    qed
  qed
  then show ?thesis using assms(2,3) unfolding P_def by blast
qed

lemma get_message_with_backoff_iff:
  "get_message_with_backoff Q sleep q = Some (msg, q', slept) \<longleftrightarrow>
     (\<exists>n. found_at Q sleep 0 n q msg q' \<and> slept = map nth_sleep [0..<n])"
proof
  assume "get_message_with_backoff Q sleep q = Some (msg, q', slept)"
  then have "backoff_loop 5 Q sleep 0 q [] = Some (msg, q', slept)"
    by (simp add: get_message_with_backoff_def EXPONENTIAL_BACKOFF_LIMIT_def)
  from backoff_loop_returns [OF this, of 0]
  show "\<exists>n. found_at Q sleep 0 n q msg q' \<and> slept = map nth_sleep [0..<n]" by auto
next
  assume "\<exists>n. found_at Q sleep 0 n q msg q' \<and> slept = map nth_sleep [0..<n]"
  then obtain n where f: "found_at Q sleep 0 n q msg q'" and s: "slept = map nth_sleep [0..<n]" by blast
  from backoff_loop_found [OF f, of "[]"] s
  show "get_message_with_backoff Q sleep q = Some (msg, q', slept)"
    by (simp add: get_message_with_backoff_def EXPONENTIAL_BACKOFF_LIMIT_def)
qed

lemma nth_sleep_bounds: "1 \<le> nth_sleep i \<and> nth_sleep i \<le> 32"
proof -
  have "(2::nat) ^ (i mod 6) \<le> 2 ^ 5" by (rule power_increasing) auto
  then show ?thesis by (simp add: nth_sleep_def)
qed

section \<open>Properties\<close>

text \<open>
  C34: waiting for a message. The loop returns exactly when some poll finds the queue not empty, with
  the oldest message of that poll; before the \<open>n\<close>-th poll it has slept 1, 2, 4, 8, 16 and 32
  seconds in turn, over and over, so a waiting thread sees a message after at most 32 seconds.
\<close>
theorem backoff_returns_first_message:
  "(get_message_with_backoff Q sleep q = Some (msg, q', slept) \<longleftrightarrow>
     (\<exists>n. (\<forall>i < n. sp_pop Q (polled_queue sleep 0 i q) = None) \<and>
          sp_pop Q (polled_queue sleep 0 n q) = Some (msg, q') \<and>
          slept = map (\<lambda>i. 2 ^ (i mod 6)) [0..<n])) \<and>
   (get_message_with_backoff Q sleep q = Some (msg, q', slept) \<longrightarrow> (\<forall>s \<in> set slept. 1 \<le> s \<and> s \<le> 32))"
proof -
  have ns: "nth_sleep = (\<lambda>i. 2 ^ (i mod 6))" by (rule ext) (rule nth_sleep_def)
  show ?thesis
    using get_message_with_backoff_iff [of Q sleep q msg q' slept] nth_sleep_bounds
    by (auto simp: found_at_def ns)
qed

theorem backoff_returns_first_message_witness:
  "get_message_with_backoff bounded_queue (\<lambda>secs q. if secs = 4 then [True] else q) [] = Some (True, [], [1, 2, 4])"
proof -
  let ?sleep = "\<lambda>secs q. if secs = 4 then [True] else q"
  have "\<forall>i < 3. sp_pop bounded_queue (polled_queue ?sleep 0 i []) = None"
    by (auto simp: numeral_3_eq_3 less_Suc_eq nth_sleep_def)
  moreover have "sp_pop bounded_queue (polled_queue ?sleep 0 3 []) = Some (True, [])"
    by (simp add: numeral_3_eq_3 nth_sleep_def)
  moreover have "([1, 2, 4] :: nat list) = map (\<lambda>i. 2 ^ (i mod 6)) [0..<3 :: nat]" by (simp add: upt_rec)
  ultimately show ?thesis
    by (intro iffD2 [OF conjunct1 [OF backoff_returns_first_message]] exI [of _ 3] conjI)
qed

end
