(* ===== verification/Shared_State.thy ===== *)
theory Shared_State
  imports Symbols Message_Queue Json_Lib
begin

text \<open>
  \<open>src/web/shared_state.cpp\<close>: the state every web socket session shares. It maps topics to
  symbols, keeps the set of connected sessions, and tells the Redis subscriber through a
  bounded queue which topics gained their first or lost their last session.

  \<open>std::map::operator[]\<close> inserts a null pointer for an unknown topic and the next arrow
  dereferences it, so an entry of \<open>symbols\<close> is absent, null (\<open>Some None\<close>) or a symbol. The
  member \<open>topics\<close> of every session object is the field \<open>ws_topics\<close>. The splitting function of
  Boost is the parameter \<open>split\<close>.
\<close>

section \<open>State\<close>

record ('pq, 'sq) shared_state =
  doc_root :: string
  topics_arg :: string
  symbols :: "string \<Rightarrow> symbol option option"
  spsc_queue_publish :: 'pq
  spsc_queue_subscriber :: 'sq
  sessions :: "sid set"
  allowed_origins :: "string list"
  ws_topics :: "sid \<Rightarrow> string set"

text \<open>The loop over the configured topics; \<open>now i\<close> is the clock at the \<open>i\<close>-th round.\<close>

fun init_symbols ::
    "(nat \<Rightarrow> int) \<Rightarrow> nat \<Rightarrow> string list \<Rightarrow> (string \<Rightarrow> symbol option option) \<Rightarrow> string \<Rightarrow> symbol option option" where
  "init_symbols now i [] m = m"
| "init_symbols now i (t # ts) m = init_symbols now (Suc i) ts (m(t \<mapsto> Some (new_symbol t [] (now i))))"

definition new_shared_state ::
    "(string \<Rightarrow> string list) \<Rightarrow> (nat \<Rightarrow> int) \<Rightarrow> 'pq \<Rightarrow> 'sq \<Rightarrow> string \<Rightarrow> string \<Rightarrow>
     (string \<Rightarrow> string option) \<Rightarrow> ('pq, 'sq) shared_state outcome" where
  "new_shared_state split now pq sq root topics vm =
     (case vm ''allowed-origins'' of
        None \<Rightarrow> Throw (Library_exception ''bad any_cast'')
      | Some origins \<Rightarrow>
          Ret \<lparr>doc_root = root, topics_arg = topics,
               symbols = init_symbols now 0 (split topics) Map.empty,
               spsc_queue_publish = pq, spsc_queue_subscriber = sq, sessions = {},
               allowed_origins = split origins, ws_topics = (\<lambda>_. {})\<rparr>)"

section \<open>Operations\<close>

definition shared_join :: "sid \<Rightarrow> ('pq, 'sq) shared_state \<Rightarrow> ('pq, 'sq) shared_state" where
  "shared_join session st = st\<lparr>sessions := insert session (sessions st)\<rparr>"

text \<open>\<open>symbols_[topic]->\<close>: the state after the lookup, and the symbol if the pointer is not null.\<close>

definition symbol_at ::
    "string \<Rightarrow> ('pq, 'sq) shared_state \<Rightarrow> symbol option \<times> ('pq, 'sq) shared_state" where
  "symbol_at topic st =
     (case symbols st topic of
        None \<Rightarrow> (None, st\<lparr>symbols := (symbols st)(topic \<mapsto> None)\<rparr>)
      | Some p \<Rightarrow> (p, st))"

definition subscribe_topic ::
    "('sq, MsgType \<times> string) spsc \<Rightarrow> sid \<Rightarrow> string \<Rightarrow> (('pq, 'sq) shared_state, unit) io" where
  "subscribe_topic Q session topic st =
     (let st1 = st\<lparr>ws_topics := (ws_topics st)(session := insert topic (ws_topics st session))\<rparr>
      in case symbol_at topic st1 of
           (None, st2) \<Rightarrow> (Abort, st2)
         | (Some smb, st2) \<Rightarrow>
             (let st3 = (if sym_sessions smb = {}
                         then st2\<lparr>spsc_queue_subscriber :=
                                    snd (sp_push Q (SUBSCRIBE, topic) (spsc_queue_subscriber st2))\<rparr>
                         else st2)
              in (Ret (), st3\<lparr>symbols := (symbols st3)(topic \<mapsto> Some (symbol_join session smb))\<rparr>)))"

fun websocket_subscribe_to_symbols ::
    "('sq, MsgType \<times> string) spsc \<Rightarrow> sid \<Rightarrow> string list \<Rightarrow> (('pq, 'sq) shared_state, unit) io" where
  "websocket_subscribe_to_symbols Q session [] = io_return ()"
| "websocket_subscribe_to_symbols Q session (topic # topics) =
     io_seq (subscribe_topic Q session topic) (websocket_subscribe_to_symbols Q session topics)"

definition unsubscribe_topic ::
    "('sq, MsgType \<times> string) spsc \<Rightarrow> sid \<Rightarrow> string \<Rightarrow> (('pq, 'sq) shared_state, unit) io" where
  "unsubscribe_topic Q session topic st =
     (let st1 = st\<lparr>ws_topics := (ws_topics st)(session := ws_topics st session - {topic})\<rparr>
      in case symbol_at topic st1 of
           (None, st2) \<Rightarrow> (Abort, st2)
         | (Some smb, st2) \<Rightarrow>
             (case symbol_leave session smb of
                (n, smb') \<Rightarrow>
                  (let st3 = st2\<lparr>symbols := (symbols st2)(topic \<mapsto> Some smb')\<rparr>
                   in (Ret (),
                       if n \<noteq> 0 \<and> sym_sessions smb' = {}
                       then st3\<lparr>spsc_queue_subscriber :=
                                  snd (sp_push Q (UNSUBSCRIBE, topic) (spsc_queue_subscriber st3))\<rparr>
                       else st3))))"

fun websocket_unsubscribe_to_symbols ::
    "('sq, MsgType \<times> string) spsc \<Rightarrow> sid \<Rightarrow> string list \<Rightarrow> (('pq, 'sq) shared_state, unit) io" where
  "websocket_unsubscribe_to_symbols Q session [] = io_return ()"
| "websocket_unsubscribe_to_symbols Q session (topic # topics) =
     io_seq (unsubscribe_topic Q session topic) (websocket_unsubscribe_to_symbols Q session topics)"

text \<open>
  Leaving passes a copy of the session's \<open>std::set\<close> of topics, which iterates in
  lexicographic order.
\<close>

definition shared_leave ::
    "('sq, MsgType \<times> string) spsc \<Rightarrow> sid \<Rightarrow> (('pq, 'sq) shared_state, unit) io" where
  "shared_leave Q session st =
     io_seq (websocket_unsubscribe_to_symbols Q session (sorted_list_of_set (ws_topics st session)))
       (\<lambda>st'. (Ret (), st'\<lparr>sessions := sessions st' - {session}\<rparr>)) st"

text \<open>
  The request in a message: an exception, the \<open>default\<close> branch (\<open>None\<close>), or a message type
  with its topics.
\<close>

definition parse_message ::
    "'j json_lib \<Rightarrow> (string \<Rightarrow> string list) \<Rightarrow> string \<Rightarrow> exn + (MsgType \<times> string list) option" where
  "parse_message J split msg =
     (case parser_parse J msg of
        Inl e \<Rightarrow> Inl e
      | Inr obj \<Rightarrow>
          (case js_at J obj ''ty'' of
             Inl e \<Rightarrow> Inl e
           | Inr ty \<Rightarrow>
               (case js_to_int J ty of
                  Inl e \<Rightarrow> Inl e
                | Inr n \<Rightarrow>
                    (case msg_type_of_int n of
                       None \<Rightarrow> Inr None
                     | Some t \<Rightarrow>
                         (case js_at J obj ''to'' of
                            Inl e \<Rightarrow> Inl e
                          | Inr v \<Rightarrow>
                              (case js_to_string J v of
                                 Inl e \<Rightarrow> Inl e
                               | Inr s \<Rightarrow> Inr (Some (t, split s))))))))"

definition shared_parse ::
    "('sq, MsgType \<times> string) spsc \<Rightarrow> 'j json_lib \<Rightarrow> (string \<Rightarrow> string list) \<Rightarrow> string \<Rightarrow> sid \<Rightarrow>
     (('pq, 'sq) shared_state, unit) io" where
  "shared_parse Q J split msg session =
     (case parse_message J split msg of
        Inl e \<Rightarrow> io_return ()
      | Inr None \<Rightarrow> io_return ()
      | Inr (Some (SUBSCRIBE, topics)) \<Rightarrow> websocket_subscribe_to_symbols Q session topics
      | Inr (Some (UNSUBSCRIBE, topics)) \<Rightarrow> websocket_unsubscribe_to_symbols Q session topics)"

section \<open>Well-formed states\<close>

definition known_topics :: "('pq, 'sq) shared_state \<Rightarrow> string set" where
  "known_topics st = {t. \<exists>smb. symbols st t = Some (Some smb)}"

definition registered :: "('pq, 'sq) shared_state \<Rightarrow> string \<Rightarrow> sid set" where
  "registered st t = (case symbols st t of Some (Some smb) \<Rightarrow> sym_sessions smb | _ \<Rightarrow> {})"

text \<open>
  No symbol is null, a session is in the set of a symbol exactly when the topic is in the
  session's own set, and those sets are finite.
\<close>

definition state_ok :: "('pq, 'sq) shared_state \<Rightarrow> bool" where
  "state_ok st \<longleftrightarrow>
     (\<forall>t. symbols st t \<noteq> Some None) \<and>
     (\<forall>t s. s \<in> registered st t \<longleftrightarrow> t \<in> ws_topics st s) \<and>
     (\<forall>s. finite (ws_topics st s))"

definition active_topics :: "('pq, 'sq) shared_state \<Rightarrow> string set" where
  "active_topics st = {t. registered st t \<noteq> {}}"

lemma symbol_at_known:
  "topic \<in> known_topics st \<Longrightarrow> \<exists>smb. symbols st topic = Some (Some smb) \<and> symbol_at topic st = (Some smb, st)"
  by (auto simp: known_topics_def symbol_at_def)

lemma symbol_at_unknown:
  "topic \<notin> known_topics st \<Longrightarrow> fst (symbol_at topic st) = None"
  by (auto simp: known_topics_def symbol_at_def split: option.split)

lemma registered_upd:
  "registered (st\<lparr>symbols := (symbols st)(topic \<mapsto> Some smb)\<rparr>) t =
     (if t = topic then sym_sessions smb else registered st t)"
  by (simp add: registered_def)

lemma known_topics_other_fields [simp]:
  "known_topics (st\<lparr>ws_topics := w\<rparr>) = known_topics st"
  "known_topics (st\<lparr>spsc_queue_subscriber := q\<rparr>) = known_topics st"
  "known_topics (st\<lparr>sessions := S\<rparr>) = known_topics st"
  by (simp_all add: known_topics_def)

lemma registered_other_fields [simp]:
  "registered (st\<lparr>ws_topics := w\<rparr>) t = registered st t"
  "registered (st\<lparr>spsc_queue_subscriber := q\<rparr>) t = registered st t"
  "registered (st\<lparr>sessions := S\<rparr>) t = registered st t"
  by (simp_all add: registered_def)

lemma active_topics_other_fields [simp]:
  "active_topics (st\<lparr>ws_topics := w\<rparr>) = active_topics st"
  "active_topics (st\<lparr>spsc_queue_subscriber := q\<rparr>) = active_topics st"
  "active_topics (st\<lparr>sessions := S\<rparr>) = active_topics st"
  by (simp_all add: active_topics_def)

section \<open>One topic\<close>

text \<open>
  The effect of the two steps on a known topic, field by field. \<open>queue_after\<close> is the queue
  after a push that happens only under a condition.
\<close>

definition queue_after :: "('sq, 'a) spsc \<Rightarrow> bool \<Rightarrow> 'a \<Rightarrow> 'sq \<Rightarrow> 'sq" where
  "queue_after Q c x q = (if c then snd (sp_push Q x q) else q)"

lemma subscribe_topic_known:
  assumes "topic \<in> known_topics st"
  shows "\<exists>st'. subscribe_topic Q session topic st = (Ret (), st') \<and>
     known_topics st' = known_topics st \<and>
     (\<forall>t. symbols st' t = Some None \<longleftrightarrow> symbols st t = Some None) \<and>
     registered st' = (registered st)(topic := insert session (registered st topic)) \<and>
     ws_topics st' = (ws_topics st)(session := insert topic (ws_topics st session)) \<and>
     sessions st' = sessions st \<and>
     spsc_queue_subscriber st' =
       queue_after Q (registered st topic = {}) (SUBSCRIBE, topic) (spsc_queue_subscriber st)"
proof -
  let ?st1 = "st\<lparr>ws_topics := (ws_topics st)(session := insert topic (ws_topics st session))\<rparr>"
  from assms have "topic \<in> known_topics ?st1" by simp
  then obtain smb where s: "symbols st topic = Some (Some smb)"
    and at: "symbol_at topic ?st1 = (Some smb, ?st1)"
    using symbol_at_known [of topic ?st1] by auto
  have reg: "registered st topic = sym_sessions smb" by (simp add: registered_def s)
  show ?thesis
    unfolding subscribe_topic_def at Let_def prod.case option.case reg
    by (auto simp: known_topics_def registered_def fun_eq_iff s queue_after_def symbol_join_def)
qed

lemma unsubscribe_topic_known:
  assumes "topic \<in> known_topics st"
  shows "\<exists>st'. unsubscribe_topic Q session topic st = (Ret (), st') \<and>
     known_topics st' = known_topics st \<and>
     (\<forall>t. symbols st' t = Some None \<longleftrightarrow> symbols st t = Some None) \<and>
     registered st' = (registered st)(topic := registered st topic - {session}) \<and>
     ws_topics st' = (ws_topics st)(session := ws_topics st session - {topic}) \<and>
     sessions st' = sessions st \<and>
     spsc_queue_subscriber st' =
       queue_after Q (registered st topic = {session}) (UNSUBSCRIBE, topic) (spsc_queue_subscriber st)"
proof -
  let ?st1 = "st\<lparr>ws_topics := (ws_topics st)(session := ws_topics st session - {topic})\<rparr>"
  from assms have "topic \<in> known_topics ?st1" by simp
  then obtain smb where s: "symbols st topic = Some (Some smb)"
    and at: "symbol_at topic ?st1 = (Some smb, ?st1)"
    using symbol_at_known [of topic ?st1] by auto
  have reg: "registered st topic = sym_sessions smb" by (simp add: registered_def s)
  have last: "(if session \<in> sym_sessions smb then 1 else 0 :: nat) \<noteq> 0 \<and> sym_sessions smb - {session} = {}
      \<longleftrightarrow> sym_sessions smb = {session}" by auto
  show ?thesis
    unfolding unsubscribe_topic_def at Let_def prod.case option.case reg symbol_leave_def
    using last
    by (auto simp: known_topics_def registered_def fun_eq_iff s queue_after_def)
qed

lemma subscribe_topic_unknown:
  "topic \<notin> known_topics st \<Longrightarrow> fst (subscribe_topic Q session topic st) = Abort"
  using symbol_at_unknown [of topic "st\<lparr>ws_topics := (ws_topics st)(session := insert topic (ws_topics st session))\<rparr>"]
  by (auto simp: subscribe_topic_def Let_def split: prod.split option.split)

lemma unsubscribe_topic_unknown:
  "topic \<notin> known_topics st \<Longrightarrow> fst (unsubscribe_topic Q session topic st) = Abort"
  using symbol_at_unknown [of topic "st\<lparr>ws_topics := (ws_topics st)(session := ws_topics st session - {topic})\<rparr>"]
  by (auto simp: unsubscribe_topic_def Let_def split: prod.split option.split)

lemma subscribe_topic_ok:
  assumes "state_ok st" and "subscribe_topic Q session topic st = (Ret (), st')"
  shows "state_ok st' \<and> known_topics st' = known_topics st"
proof -
  from assms(2) subscribe_topic_unknown [of topic st Q session]
  have "topic \<in> known_topics st" by (metis fst_conv outcome.distinct(3))
  from subscribe_topic_known [OF this, of Q session] assms
  show ?thesis by (auto simp: state_ok_def)
qed

lemma unsubscribe_topic_ok:
  assumes "state_ok st" and "unsubscribe_topic Q session topic st = (Ret (), st')"
  shows "state_ok st' \<and> known_topics st' = known_topics st"
proof -
  from assms(2) unsubscribe_topic_unknown [of topic st Q session]
  have "topic \<in> known_topics st" by (metis fst_conv outcome.distinct(3))
  from unsubscribe_topic_known [OF this, of Q session] assms
  show ?thesis by (auto simp: state_ok_def)
qed

section \<open>Lists of topics\<close>

text \<open>
  A list of topics is processed to its end exactly when every topic is a configured one; the
  first other topic dereferences a null pointer.
\<close>

lemma subscribe_list_known:
  "set topics \<subseteq> known_topics st \<Longrightarrow>
   \<exists>st'. websocket_subscribe_to_symbols Q session topics st = (Ret (), st') \<and>
     known_topics st' = known_topics st \<and>
     registered st' = (\<lambda>t. if t \<in> set topics then insert session (registered st t) else registered st t) \<and>
     ws_topics st' = (ws_topics st)(session := ws_topics st session \<union> set topics) \<and>
     sessions st' = sessions st"
proof (induction topics arbitrary: st)
  case Nil
  then show ?case by (auto simp: io_simps)
next
  case (Cons topic topics)
  then have "topic \<in> known_topics st" by simp
  from subscribe_topic_known [OF this, of Q session] obtain st1 where
    st1: "subscribe_topic Q session topic st = (Ret (), st1)" "known_topics st1 = known_topics st"
      "registered st1 = (registered st)(topic := insert session (registered st topic))"
      "ws_topics st1 = (ws_topics st)(session := insert topic (ws_topics st session))"
      "sessions st1 = sessions st" by blast
  from Cons.prems st1(2) have "set topics \<subseteq> known_topics st1" by simp
  from Cons.IH [OF this] st1 show ?case
    by (auto simp: io_simps fun_eq_iff)
qed

lemma unsubscribe_list_known:
  "set topics \<subseteq> known_topics st \<Longrightarrow>
   \<exists>st'. websocket_unsubscribe_to_symbols Q session topics st = (Ret (), st') \<and>
     known_topics st' = known_topics st \<and>
     (\<forall>t. symbols st' t = Some None \<longleftrightarrow> symbols st t = Some None) \<and>
     registered st' = (\<lambda>t. if t \<in> set topics then registered st t - {session} else registered st t) \<and>
     ws_topics st' = (ws_topics st)(session := ws_topics st session - set topics) \<and>
     sessions st' = sessions st"
proof (induction topics arbitrary: st)
  case Nil
  then show ?case by (auto simp: io_simps)
next
  case (Cons topic topics)
  then have "topic \<in> known_topics st" by simp
  from unsubscribe_topic_known [OF this, of Q session] obtain st1 where
    st1: "unsubscribe_topic Q session topic st = (Ret (), st1)" "known_topics st1 = known_topics st"
      "\<forall>t. symbols st1 t = Some None \<longleftrightarrow> symbols st t = Some None"
      "registered st1 = (registered st)(topic := registered st topic - {session})"
      "ws_topics st1 = (ws_topics st)(session := ws_topics st session - {topic})"
      "sessions st1 = sessions st" by blast
  from Cons.prems st1(2) have "set topics \<subseteq> known_topics st1" by simp
  from Cons.IH [OF this] st1 show ?case
    by (auto simp: io_simps fun_eq_iff)
qed

lemma abort_after:
  "m st = (Ret (), st1) \<Longrightarrow> fst (io_seq m n st) = fst (n st1)"
  by (simp add: io_simps)

lemma subscribe_list_unknown:
  "\<not> set topics \<subseteq> known_topics st \<Longrightarrow> fst (websocket_subscribe_to_symbols Q session topics st) = Abort"
proof (induction topics arbitrary: st)
  case (Cons topic topics)
  show ?case
  proof (cases "topic \<in> known_topics st")
    case True
    from subscribe_topic_known [OF True, of Q session] obtain st1 where
      "subscribe_topic Q session topic st = (Ret (), st1)" "known_topics st1 = known_topics st" by blast
    with Cons True show ?thesis by (simp add: io_simps)
  next
    case False
    from subscribe_topic_unknown [OF False, of Q session] show ?thesis
      by (auto simp: io_seq_def io_bind_def split: prod.split)
  qed
qed simp

lemma unsubscribe_list_unknown:
  "\<not> set topics \<subseteq> known_topics st \<Longrightarrow> fst (websocket_unsubscribe_to_symbols Q session topics st) = Abort"
proof (induction topics arbitrary: st)
  case (Cons topic topics)
  show ?case
  proof (cases "topic \<in> known_topics st")
    case True
    from unsubscribe_topic_known [OF True, of Q session] obtain st1 where
      "unsubscribe_topic Q session topic st = (Ret (), st1)" "known_topics st1 = known_topics st" by blast
    with Cons True show ?thesis by (simp add: io_simps)
  next
    case False
    from unsubscribe_topic_unknown [OF False, of Q session] show ?thesis
      by (auto simp: io_seq_def io_bind_def split: prod.split)
  qed
qed simp

lemma subscribe_list_outcome:
  "fst (websocket_subscribe_to_symbols Q session topics st) =
     (if set topics \<subseteq> known_topics st then Ret () else Abort)"
  using subscribe_list_known [of topics st Q session] subscribe_list_unknown [of topics st Q session] by auto

lemma unsubscribe_list_outcome:
  "fst (websocket_unsubscribe_to_symbols Q session topics st) =
     (if set topics \<subseteq> known_topics st then Ret () else Abort)"
  using unsubscribe_list_known [of topics st Q session] unsubscribe_list_unknown [of topics st Q session] by auto

lemma io_seq_unit_Ret:
  fixes m :: "('w, unit) io"
  shows "io_seq m n st = (Ret y, st') \<longleftrightarrow> (\<exists>st1. m st = (Ret (), st1) \<and> n st1 = (Ret y, st'))"
  by (simp add: io_seq_def io_bind_Ret_iff)

lemma subscribe_list_ok:
  "state_ok st \<Longrightarrow> websocket_subscribe_to_symbols Q session topics st = (Ret (), st') \<Longrightarrow>
   state_ok st' \<and> known_topics st' = known_topics st"
proof (induction topics arbitrary: st)
  case (Cons topic topics)
  from Cons.prems(2) obtain st1 where one: "subscribe_topic Q session topic st = (Ret (), st1)"
    and rest: "websocket_subscribe_to_symbols Q session topics st1 = (Ret (), st')"
    by (auto simp only: websocket_subscribe_to_symbols.simps io_seq_unit_Ret)
  from subscribe_topic_ok [OF Cons.prems(1) one] Cons.IH [OF _ rest] show ?case by simp
qed (simp add: io_return_apply)

lemma unsubscribe_list_ok:
  "state_ok st \<Longrightarrow> websocket_unsubscribe_to_symbols Q session topics st = (Ret (), st') \<Longrightarrow>
   state_ok st' \<and> known_topics st' = known_topics st"
proof (induction topics arbitrary: st)
  case (Cons topic topics)
  from Cons.prems(2) obtain st1 where one: "unsubscribe_topic Q session topic st = (Ret (), st1)"
    and rest: "websocket_unsubscribe_to_symbols Q session topics st1 = (Ret (), st')"
    by (auto simp only: websocket_unsubscribe_to_symbols.simps io_seq_unit_Ret)
  from unsubscribe_topic_ok [OF Cons.prems(1) one] Cons.IH [OF _ rest] show ?case by simp
qed (simp add: io_return_apply)

section \<open>Leaving and parsing\<close>

lemma known_of_topic: "state_ok st \<Longrightarrow> ws_topics st session \<subseteq> known_topics st"
  by (auto simp: state_ok_def registered_def known_topics_def split: option.splits) blast

lemma state_ok_sessions [simp]: "state_ok (st\<lparr>sessions := S\<rparr>) = state_ok st"
  by (simp add: state_ok_def)

text \<open>A session that leaves a well-formed state is gone from every symbol and from the sessions.\<close>

lemma shared_leave_state:
  assumes ok: "state_ok st"
  shows "\<exists>st'. shared_leave Q session st = (Ret (), st') \<and> state_ok st' \<and>
     known_topics st' = known_topics st \<and>
     registered st' = (\<lambda>t. registered st t - {session}) \<and>
     ws_topics st' = (ws_topics st)(session := {}) \<and>
     sessions st' = sessions st - {session}"
proof -
  let ?ts = "sorted_list_of_set (ws_topics st session)"
  have fin: "set ?ts = ws_topics st session" using ok by (simp add: state_ok_def)
  with known_of_topic [OF ok] have "set ?ts \<subseteq> known_topics st" by simp
  from unsubscribe_list_known [OF this, of Q session] obtain st1 where
    st1: "websocket_unsubscribe_to_symbols Q session ?ts st = (Ret (), st1)"
      "known_topics st1 = known_topics st"
      "registered st1 = (\<lambda>t. if t \<in> set ?ts then registered st t - {session} else registered st t)"
      "ws_topics st1 = (ws_topics st)(session := ws_topics st session - set ?ts)"
      "sessions st1 = sessions st" by blast
  have "registered st1 = (\<lambda>t. registered st t - {session})"
    unfolding st1(3) fin using ok by (auto simp: state_ok_def fun_eq_iff)
  moreover have "ws_topics st1 = (ws_topics st)(session := {})"
    unfolding st1(4) fin by simp
  ultimately show ?thesis
    using st1(1,2,5) unsubscribe_list_ok [OF ok st1(1)]
    by (simp add: shared_leave_def io_simps fun_eq_iff)
qed

lemma shared_parse_outcome:
  "fst (shared_parse Q J split msg session st) =
     (case parse_message J split msg of
        Inr (Some (ty, topics)) \<Rightarrow> if set topics \<subseteq> known_topics st then Ret () else Abort
      | _ \<Rightarrow> Ret ())"
  by (auto simp: shared_parse_def subscribe_list_outcome unsubscribe_list_outcome io_simps
      split: sum.split option.split MsgType.split)

lemma shared_parse_ok:
  assumes "state_ok st" and "shared_parse Q J split msg session st = (Ret (), st')"
  shows "state_ok st' \<and> known_topics st' = known_topics st"
  using assms(2) subscribe_list_ok [OF assms(1)] unsubscribe_list_ok [OF assms(1)] assms(1)
  unfolding shared_parse_def
  by (auto simp: io_return_apply split: sum.splits option.splits prod.splits MsgType.splits)

section \<open>The initial state\<close>

lemma init_symbols_lookup:
  "init_symbols now i ts m t = (if t \<in> set ts then init_symbols now i ts m t else m t)"
  by (induction ts arbitrary: i m) (auto split: if_splits)

lemma init_symbols_new:
  "t \<in> set ts \<Longrightarrow> \<exists>k. init_symbols now i ts m t = Some (Some (new_symbol t [] k))"
proof (induction ts arbitrary: i m)
  case (Cons u us)
  show ?case
  proof (cases "t \<in> set us")
    case False
    with Cons.prems have "t = u" by simp
    then show ?thesis using False by (auto simp: init_symbols_lookup [of now "Suc i" us])
  qed (simp add: Cons.IH)
qed simp

lemma init_symbols_other: "t \<notin> set ts \<Longrightarrow> init_symbols now i ts m t = m t"
  by (induction ts arbitrary: i m) auto

lemma new_shared_state_ok:
  assumes "new_shared_state split now pq sq root topics vm = Ret st"
  shows "state_ok st \<and> known_topics st = set (split topics) \<and> active_topics st = {} \<and> sessions st = {}"
proof -
  from assms have st: "symbols st = init_symbols now 0 (split topics) Map.empty" "ws_topics st = (\<lambda>_. {})" "sessions st = {}"
    by (auto simp: new_shared_state_def split: option.splits)
  have cases: "(t \<in> set (split topics) \<and> (\<exists>k. symbols st t = Some (Some (new_symbol t [] k)))) \<or>
      (t \<notin> set (split topics) \<and> symbols st t = None)" for t
    using init_symbols_new [of t "split topics" now 0 Map.empty] init_symbols_other [of t "split topics" now 0 Map.empty]
    unfolding st by (cases "t \<in> set (split topics)") simp_all
  have "registered st t = {}" for t
    using cases [of t] by (auto simp: registered_def new_symbol_def)
  moreover have "known_topics st = set (split topics)"
    using cases by (fastforce simp: known_topics_def)
  moreover have "symbols st t \<noteq> Some None" for t using cases [of t] by auto
  ultimately show ?thesis using st by (simp add: state_ok_def active_topics_def)
qed

section \<open>Properties\<close>

text \<open>Small states with one configured topic, for the witnesses.\<close>

definition one_topic_state ::
    "(MsgType \<times> string) list \<Rightarrow> ((string \<times> string) list, (MsgType \<times> string) list) shared_state" where
  "one_topic_state q =
     \<lparr>doc_root = [], topics_arg = ''ETH'', symbols = [''ETH'' \<mapsto> Some (new_symbol ''ETH'' [] 0)],
      spsc_queue_publish = [], spsc_queue_subscriber = q, sessions = {}, allowed_origins = [], ws_topics = (\<lambda>_. {})\<rparr>"

definition subscribe_text :: "string \<Rightarrow> jval option" where
  "subscribe_text s =
     (if s = ''sub'' then Some (JObject [(''ty'', JInt 1), (''to'', JString ''ETH'')]) else None)"

lemma one_topic_state_ok: "state_ok (one_topic_state q) \<and> active_topics (one_topic_state q) = {}"
  by (auto simp: state_ok_def one_topic_state_def registered_def new_symbol_def active_topics_def)

lemma parse_subscribe_text:
  "parse_message (sample_json subscribe_text) (\<lambda>s. [s]) ''sub'' = Inr (Some (SUBSCRIBE, [''ETH'']))"
  by (simp add: parse_message_def parser_parse_def sample_json_def subscribe_text_def msg_type_of_int_def)

definition joined_state ::
    "((string \<times> string) list, (MsgType \<times> string) list) shared_state" where
  "joined_state =
     (one_topic_state [])
       \<lparr>symbols := [''ETH'' \<mapsto> Some (symbol_join 7 (new_symbol ''ETH'' [] 0))], ws_topics := (\<lambda>_. {})(7 := {''ETH''})\<rparr>"

lemma joined_state_ok: "state_ok joined_state \<and> registered joined_state ''ETH'' = {7}"
  by (auto simp: state_ok_def joined_state_def one_topic_state_def registered_def new_symbol_def symbol_join_def
      split: if_splits)

text \<open>
  C9: the state the sessions share is well formed after it is built and after every message
  that is handled: no configured symbol becomes null, a session is in a symbol's set exactly
  when the topic is in the session's own set, and no topic appears or disappears.
\<close>
theorem shared_state_invariant:
  assumes "new_shared_state split now pq sq root topics vm = Ret st0"
  shows "state_ok st0 \<and> known_topics st0 = set (split topics) \<and>
    (\<forall>st msg session st'. state_ok st \<and> shared_parse Q J split msg session st = (Ret (), st') \<longrightarrow>
       state_ok st' \<and> known_topics st' = known_topics st)"
  using new_shared_state_ok [OF assms] shared_parse_ok by blast

definition sample_vm :: "string \<Rightarrow> string option" where
  "sample_vm = [''allowed-origins'' \<mapsto> ''http://a'']"

theorem shared_state_invariant_witness:
  "\<exists>st. new_shared_state (\<lambda>s. [s]) (\<lambda>_. 0) ([] :: nat list) ([] :: nat list) ''.'' ''ETH'' sample_vm = Ret st \<and> state_ok st \<and>
     known_topics st = {''ETH''}"
proof -
  have "\<exists>st. new_shared_state (\<lambda>s. [s]) (\<lambda>_. 0) ([] :: nat list) ([] :: nat list) ''.'' ''ETH'' sample_vm = Ret st"
    by (simp add: new_shared_state_def sample_vm_def)
  then obtain st where st: "new_shared_state (\<lambda>s. [s]) (\<lambda>_. 0) ([] :: nat list) ([] :: nat list) ''.'' ''ETH'' sample_vm = Ret st" ..
  from shared_state_invariant [OF st, of bounded_queue "sample_json subscribe_text"]
  have "state_ok st" and "known_topics st = set [''ETH'']" by blast+
  then have "state_ok st \<and> known_topics st = {''ETH''}" by simp
  with st show ?thesis by (intro exI [of _ st]) simp
qed

text \<open>
  When a session ends, the destructor's call of \<open>leave\<close> always returns, the session is gone
  from every symbol and from the set of sessions, its own topics are empty, no other session
  loses a subscription, and the state stays well formed.
\<close>
theorem leave_removes_session_everywhere:
  assumes "state_ok st"
  shows "\<exists>st'. shared_leave Q session st = (Ret (), st') \<and> state_ok st' \<and>
    session \<notin> sessions st' \<and> ws_topics st' session = {} \<and>
    (\<forall>t. registered st' t = registered st t - {session}) \<and>
    (\<forall>other. other \<noteq> session \<longrightarrow> ws_topics st' other = ws_topics st other)"
  using shared_leave_state [OF assms, of Q session] by auto

theorem leave_removes_session_everywhere_witness:
  "\<exists>st'. shared_leave bounded_queue 7 joined_state = (Ret (), st') \<and> registered st' ''ETH'' = {}"
proof -
  from joined_state_ok have ok: "state_ok joined_state" by simp
  show ?thesis
    using leave_removes_session_everywhere [OF ok, of bounded_queue 7] joined_state_ok by auto
qed

text \<open>
  C35: what a web socket message does to the process. A message that cannot be parsed, lacks a
  field or has another type is ignored; a subscribe or unsubscribe message is handled when
  every topic it names is configured, and otherwise brings the process down with a null
  dereference, which the \<open>try\<close> block does not catch.
\<close>
theorem message_with_unknown_topic_aborts:
  "(fst (shared_parse Q J split msg session st) = Abort \<longleftrightarrow>
     (\<exists>ty topics t. parse_message J split msg = Inr (Some (ty, topics)) \<and> t \<in> set topics \<and> t \<notin> known_topics st)) \<and>
   fst (shared_parse Q J split msg session st) \<in> {Ret (), Abort}"
  by (auto simp: shared_parse_outcome split: sum.split option.split)

end
