(* ===== verification/Websocket_Session.thy ===== *)
theory Websocket_Session
  imports Shared_State
begin

text \<open>
  \<open>src/web/websocket_session.cpp\<close>: one web socket connection. Its member functions are
  completion handlers; each takes the session object apart from the shared state and records
  the asynchronous operations it starts in \<open>ws_ops\<close>. Every such operation holds a shared
  pointer to the session, so the object lives while \<open>ws_ops\<close> is not empty, and its destructor
  leaves the shared state. The socket and the read buffer are not modelled: the result of an
  operation is an argument of its handler.
\<close>

section \<open>State and handlers\<close>

datatype error_code = Operation_aborted | Websocket_closed | Error_code string

text \<open>What is written to the error stream, if anything.\<close>

definition ws_fail :: "error_code \<Rightarrow> string \<Rightarrow> string option" where
  "ws_fail ec where_text =
     (case ec of
        Operation_aborted \<Rightarrow> None
      | Websocket_closed \<Rightarrow> None
      | Error_code msg \<Rightarrow> Some (where_text @ '': '' @ msg))"

datatype ws_op =
    Op_accept
  | Op_read
  | Op_write string
  | Op_post string \<comment> \<open>\<open>on_send\<close> posted to the executor of the stream\<close>

record ws_session =
  ws_self :: sid
  ws_queue :: "string list"
  ws_ops :: "ws_op list"
  ws_log :: "string list"

definition new_websocket_session :: "sid \<Rightarrow> ws_session" where
  "new_websocket_session self = \<lparr>ws_self = self, ws_queue = [], ws_ops = [], ws_log = []\<rparr>"

definition start_op :: "ws_op \<Rightarrow> ws_session \<Rightarrow> ws_session" where
  "start_op p s = s\<lparr>ws_ops := ws_ops s @ [p]\<rparr>"

definition report :: "error_code \<Rightarrow> string \<Rightarrow> ws_session \<Rightarrow> ws_session" where
  "report ec where_text s =
     (case ws_fail ec where_text of None \<Rightarrow> s | Some line \<Rightarrow> s\<lparr>ws_log := ws_log s @ [line]\<rparr>)"

definition ws_run :: "ws_session \<Rightarrow> ws_session" where
  "ws_run s = start_op Op_accept s"

definition ws_on_accept ::
    "error_code option \<Rightarrow> ws_session \<times> ('pq, 'sq) shared_state \<Rightarrow> ws_session \<times> ('pq, 'sq) shared_state" where
  "ws_on_accept ec = (\<lambda>(s, st).
     case ec of
       Some e \<Rightarrow> (report e ''accept'' s, st)
     | None \<Rightarrow> (start_op Op_read s, shared_join (ws_self s) st))"

definition ws_on_read ::
    "('sq, MsgType \<times> string) spsc \<Rightarrow> 'j json_lib \<Rightarrow> (string \<Rightarrow> string list) \<Rightarrow> error_code + string \<Rightarrow>
     (ws_session \<times> ('pq, 'sq) shared_state, unit) io" where
  "ws_on_read Q J split r = (\<lambda>(s, st).
     case r of
       Inl ec \<Rightarrow> (Ret (), (report ec ''read'' s, st))
     | Inr msg \<Rightarrow>
         (case shared_parse Q J split msg (ws_self s) st of
            (Ret u, st') \<Rightarrow> (Ret (), (start_op Op_read s, st'))
          | (out, st') \<Rightarrow> (out, (s, st'))))"

definition ws_send :: "string \<Rightarrow> ws_session \<Rightarrow> ws_session" where
  "ws_send ss s = start_op (Op_post ss) s"

definition ws_on_send :: "string \<Rightarrow> ws_session \<Rightarrow> ws_session" where
  "ws_on_send ss s =
     (let s1 = s\<lparr>ws_queue := ws_queue s @ [ss]\<rparr>
      in if 1 < length (ws_queue s1) then s1
         else start_op (Op_write (hd (ws_queue s1))) s1)"

definition ws_on_write :: "error_code option \<Rightarrow> ws_session \<Rightarrow> ws_session" where
  "ws_on_write ec s =
     (case ec of
        Some e \<Rightarrow> report e ''write'' s
      | None \<Rightarrow>
          (let s1 = s\<lparr>ws_queue := tl (ws_queue s)\<rparr>
           in if ws_queue s1 \<noteq> [] then start_op (Op_write (hd (ws_queue s1))) s1 else s1))"

definition ws_destroy ::
    "('sq, MsgType \<times> string) spsc \<Rightarrow> ws_session \<Rightarrow> (('pq, 'sq) shared_state, unit) io" where
  "ws_destroy Q s = shared_leave Q (ws_self s)"

section \<open>The strand of one session\<close>

text \<open>
  The events of one session, with the list of messages passed to \<open>send\<close> so far and the list
  of messages whose write completed. Handlers posted to the strand run in the order they were
  posted; reads and writes complete at any time. A write may complete with an error only when
  the parameter \<open>faulty\<close> says so.
\<close>

fun posted :: "ws_op list \<Rightarrow> string list" where
  "posted [] = []"
| "posted (Op_post ss # ps) = ss # posted ps"
| "posted (p # ps) = posted ps"

fun writing :: "ws_op list \<Rightarrow> string list" where
  "writing [] = []"
| "writing (Op_write ss # ps) = ss # writing ps"
| "writing (p # ps) = writing ps"

fun receiving :: "ws_op list \<Rightarrow> nat" where
  "receiving [] = 0"
| "receiving (Op_accept # ps) = Suc (receiving ps)"
| "receiving (Op_read # ps) = Suc (receiving ps)"
| "receiving (p # ps) = receiving ps"

inductive strand_step ::
    "bool \<Rightarrow> ('sq, MsgType \<times> string) spsc \<Rightarrow> 'j json_lib \<Rightarrow> (string \<Rightarrow> string list) \<Rightarrow>
     ws_session \<times> ('pq, 'sq) shared_state \<times> string list \<times> string list \<Rightarrow>
     ws_session \<times> ('pq, 'sq) shared_state \<times> string list \<times> string list \<Rightarrow> bool"
  for faulty Q J split where
  strand_send: "strand_step faulty Q J split (s, st, sent, delivered) (ws_send ss s, st, sent @ [ss], delivered)"
| strand_post:
    "ws_ops s = xs @ Op_post ss # ys \<Longrightarrow> posted xs = [] \<Longrightarrow>
     strand_step faulty Q J split (s, st, sent, delivered) (ws_on_send ss (s\<lparr>ws_ops := xs @ ys\<rparr>), st, sent, delivered)"
| strand_written:
    "ws_ops s = xs @ Op_write ss # ys \<Longrightarrow>
     strand_step faulty Q J split (s, st, sent, delivered)
       (ws_on_write None (s\<lparr>ws_ops := xs @ ys\<rparr>), st, sent, delivered @ [ss])"
| strand_write_failed:
    "faulty \<Longrightarrow> ws_ops s = xs @ Op_write ss # ys \<Longrightarrow>
     strand_step faulty Q J split (s, st, sent, delivered)
       (ws_on_write (Some e) (s\<lparr>ws_ops := xs @ ys\<rparr>), st, sent, delivered)"
| strand_accepted:
    "ws_ops s = xs @ Op_accept # ys \<Longrightarrow> ws_on_accept ec (s\<lparr>ws_ops := xs @ ys\<rparr>, st) = (s', st') \<Longrightarrow>
     strand_step faulty Q J split (s, st, sent, delivered) (s', st', sent, delivered)"
| strand_read:
    "ws_ops s = xs @ Op_read # ys \<Longrightarrow>
     ws_on_read Q J split r (s\<lparr>ws_ops := xs @ ys\<rparr>, st) = (Ret (), (s', st')) \<Longrightarrow>
     strand_step faulty Q J split (s, st, sent, delivered) (s', st', sent, delivered)"

inductive strand_reachable ::
    "bool \<Rightarrow> ('sq, MsgType \<times> string) spsc \<Rightarrow> 'j json_lib \<Rightarrow> (string \<Rightarrow> string list) \<Rightarrow>
     ws_session \<times> ('pq, 'sq) shared_state \<times> string list \<times> string list \<Rightarrow> bool"
  for faulty Q J split where
  strand_start: "strand_reachable faulty Q J split (ws_run (new_websocket_session self), st, [], [])"
| strand_next: "strand_reachable faulty Q J split c \<Longrightarrow> strand_step faulty Q J split c d \<Longrightarrow> strand_reachable faulty Q J split d"

inductive strand_steps ::
    "bool \<Rightarrow> ('sq, MsgType \<times> string) spsc \<Rightarrow> 'j json_lib \<Rightarrow> (string \<Rightarrow> string list) \<Rightarrow>
     ws_session \<times> ('pq, 'sq) shared_state \<times> string list \<times> string list \<Rightarrow>
     ws_session \<times> ('pq, 'sq) shared_state \<times> string list \<times> string list \<Rightarrow> bool"
  for faulty Q J split where
  steps_none: "strand_steps faulty Q J split c c"
| steps_more: "strand_steps faulty Q J split c d \<Longrightarrow> strand_step faulty Q J split d e \<Longrightarrow> strand_steps faulty Q J split c e"

section \<open>Invariant\<close>

lemma posted_append [simp]: "posted (xs @ ys) = posted xs @ posted ys"
  by (induction xs rule: posted.induct) auto

lemma writing_append [simp]: "writing (xs @ ys) = writing xs @ writing ys"
  by (induction xs rule: writing.induct) auto

lemma receiving_append [simp]: "receiving (xs @ ys) = receiving xs + receiving ys"
  by (induction xs rule: receiving.induct) auto

lemma start_op_fields [simp]:
  "ws_queue (start_op p s) = ws_queue s"
  "ws_ops (start_op p s) = ws_ops s @ [p]"
  "ws_self (start_op p s) = ws_self s"
  by (simp_all add: start_op_def)

lemma report_fields [simp]:
  "ws_queue (report e w s) = ws_queue s"
  "ws_ops (report e w s) = ws_ops s"
  "ws_self (report e w s) = ws_self s"
  by (simp_all add: report_def split: option.split)

text \<open>
  Every message sent is delivered, queued or still posted, in this order; one write is in
  flight for the head of the queue, or none and the queue is empty or a write has failed.
\<close>

fun strand_inv ::
    "ws_session \<times> ('pq, 'sq) shared_state \<times> string list \<times> string list \<Rightarrow> bool" where
  "strand_inv (s, st, sent, delivered) \<longleftrightarrow>
     sent = delivered @ ws_queue s @ posted (ws_ops s) \<and>
     (writing (ws_ops s) = take 1 (ws_queue s) \<or> writing (ws_ops s) = []) \<and>
     receiving (ws_ops s) \<le> 1"

fun write_failed ::
    "ws_session \<times> ('pq, 'sq) shared_state \<times> string list \<times> string list \<Rightarrow> bool" where
  "write_failed (s, st, sent, delivered) \<longleftrightarrow> ws_queue s \<noteq> [] \<and> writing (ws_ops s) = []"

lemma ws_on_accept_ops:
  "ws_on_accept ec (s, st) = (s', st') \<Longrightarrow>
   ws_queue s' = ws_queue s \<and> (ws_ops s' = ws_ops s \<or> ws_ops s' = ws_ops s @ [Op_read])"
  by (auto simp: ws_on_accept_def split: option.splits)

lemma ws_on_read_ops:
  "ws_on_read Q J split r (s, st) = (Ret (), (s', st')) \<Longrightarrow>
   ws_queue s' = ws_queue s \<and> (ws_ops s' = ws_ops s \<or> ws_ops s' = ws_ops s @ [Op_read])"
  by (auto simp: ws_on_read_def split: sum.splits prod.splits outcome.splits)

lemma writing_one:
  assumes "xs @ ss # ys = take 1 q \<or> xs @ ss # ys = []"
  shows "xs = [] \<and> ys = [] \<and> (\<exists>q'. q = ss # q')"
  using assms by (cases q) (auto simp: append_eq_Cons_conv)

lemma strand_step_inv:
  "strand_step faulty Q J split c d \<Longrightarrow> strand_inv c \<Longrightarrow> strand_inv d \<and> (write_failed c \<longrightarrow> write_failed d) \<and>
     (\<not> faulty \<and> \<not> write_failed c \<longrightarrow> \<not> write_failed d)"
proof (induction rule: strand_step.induct)
  case (strand_send s st sent delivered ss)
  then show ?case by (auto simp: ws_send_def)
next
  case (strand_post s xs ss ys st sent delivered)
  then show ?case by (cases "ws_queue s") (auto simp: ws_on_send_def)
next
  case (strand_written s xs ss ys st sent delivered)
  then have "writing xs = [] \<and> writing ys = [] \<and> (\<exists>q'. ws_queue s = ss # q')"
    by (intro writing_one) auto
  then obtain q' where "writing xs = []" "writing ys = []" "ws_queue s = ss # q'" by blast
  with strand_written show ?case
    by (cases q') (auto simp: ws_on_write_def Let_def)
next
  case (strand_write_failed s xs ss ys st sent delivered e)
  then have "writing xs = [] \<and> writing ys = [] \<and> (\<exists>q'. ws_queue s = ss # q')"
    by (intro writing_one) auto
  with strand_write_failed show ?case by (auto simp: ws_on_write_def)
next
  case (strand_accepted s xs ys ec st s' st' sent delivered)
  from ws_on_accept_ops [OF strand_accepted(2)] strand_accepted(1,3) show ?case by auto
next
  case (strand_read s xs ys r st s' st' sent delivered)
  from ws_on_read_ops [OF strand_read(2)] strand_read(1,3) show ?case by auto
qed

lemma strand_reachable_inv: "strand_reachable faulty Q J split c \<Longrightarrow> strand_inv c"
proof (induction rule: strand_reachable.induct)
  case (strand_start self st)
  then show ?case by (simp add: ws_run_def new_websocket_session_def)
next
  case (strand_next c d)
  then show ?case using strand_step_inv by blast
qed

lemma failed_delivers_nothing:
  "strand_step faulty Q J split (s, st, sent, delivered) (s', st', sent', delivered') \<Longrightarrow>
   write_failed (s, st, sent, delivered) \<Longrightarrow> delivered' = delivered"
  by (auto elim: strand_step.cases)

lemma strand_reachable_not_failed: "strand_reachable False Q J split c \<Longrightarrow> \<not> write_failed c"
proof (induction rule: strand_reachable.induct)
  case (strand_start self st)
  then show ?case by (simp add: ws_run_def new_websocket_session_def)
next
  case (strand_next c d)
  then show ?case using strand_step_inv [of False] strand_reachable_inv by blast
qed

lemma strand_steps_failed:
  "strand_steps faulty Q J split c d \<Longrightarrow> strand_inv c \<Longrightarrow> write_failed c \<Longrightarrow>
   strand_inv d \<and> write_failed d \<and> snd (snd (snd d)) = snd (snd (snd c))"
proof (induction rule: strand_steps.induct)
  case (steps_more c d e)
  then have ih: "strand_inv d" "write_failed d" "snd (snd (snd d)) = snd (snd (snd c))" by auto
  have "snd (snd (snd e)) = snd (snd (snd d))"
    using steps_more.hyps(2) ih(2) by (cases d; cases e) (auto dest: failed_delivers_nothing simp del: write_failed.simps)
  with ih strand_step_inv [OF steps_more.hyps(2) ih(1)] show ?case by simp
qed simp

section \<open>Properties\<close>

text \<open>
  C8: the write queue of a web socket session keeps the stream protocol: at any time at most
  one write and at most one read are in flight, the messages delivered so far are the first
  messages sent, in order and each once, and as long as no write fails a non-empty queue has
  the write of its head in flight, so no message is stuck.
\<close>
theorem websocket_messages_in_order:
  assumes "strand_reachable faulty Q J split (s, st, sent, delivered)"
  shows "length (writing (ws_ops s)) \<le> 1 \<and> receiving (ws_ops s) \<le> 1 \<and>
    sent = delivered @ ws_queue s @ posted (ws_ops s) \<and>
    (\<not> faulty \<longrightarrow> writing (ws_ops s) = take 1 (ws_queue s))"
proof -
  from strand_reachable_inv [OF assms] have inv: "strand_inv (s, st, sent, delivered)" .
  have "\<not> faulty \<longrightarrow> writing (ws_ops s) = take 1 (ws_queue s)"
    using strand_reachable_not_failed [of Q J split "(s, st, sent, delivered)"] assms inv
    by (cases faulty) auto
  with inv show ?thesis by auto
qed

text \<open>Two messages are sent and the first one is written; the read is still pending.\<close>

definition two_messages :: "ws_session" where
  "two_messages =
     \<lparr>ws_self = 7, ws_queue = [''b''], ws_ops = [Op_accept, Op_write ''b''], ws_log = []\<rparr>"

lemma two_messages_reachable:
  "strand_reachable faulty bounded_queue (sample_json subscribe_text) (\<lambda>s. [s])
     (two_messages, one_topic_state [], [''a'', ''b''], [''a''])"
proof -
  let ?reach = "strand_reachable faulty bounded_queue (sample_json subscribe_text) (\<lambda>s. [s])"
  let ?step = "strand_step faulty bounded_queue (sample_json subscribe_text) (\<lambda>s. [s])"
  let ?st = "one_topic_state []"
  define s0 where "s0 = ws_run (new_websocket_session 7)"
  define s1 where "s1 = ws_send ''b'' (ws_send ''a'' s0)"
  define s2 where "s2 = s1\<lparr>ws_ops := [Op_accept, Op_post ''b'', Op_write ''a''], ws_queue := [''a'']\<rparr>"
  define s3 where "s3 = s1\<lparr>ws_ops := [Op_accept, Op_write ''a''], ws_queue := [''a'', ''b'']\<rparr>"
  have eqs: "s0 = \<lparr>ws_self = 7, ws_queue = [], ws_ops = [Op_accept], ws_log = []\<rparr>"
      "s1 = \<lparr>ws_self = 7, ws_queue = [], ws_ops = [Op_accept, Op_post ''a'', Op_post ''b''], ws_log = []\<rparr>"
    by (simp_all add: s0_def s1_def ws_run_def new_websocket_session_def ws_send_def start_op_def)
  have "?reach (s0, ?st, [], [])" unfolding s0_def by (rule strand_start)
  from strand_next [OF this strand_send] have "?reach (ws_send ''a'' s0, ?st, [''a''], [])" by simp
  from strand_next [OF this strand_send] have r1: "?reach (s1, ?st, [''a'', ''b''], [])" by (simp add: s1_def)
  have "?step (s1, ?st, [''a'', ''b''], []) (s2, ?st, [''a'', ''b''], [])"
    using strand_post [of s1 "[Op_accept]" "''a''" "[Op_post ''b'']"]
    by (simp add: eqs s2_def ws_on_send_def start_op_def)
  from strand_next [OF r1 this] have r2: "?reach (s2, ?st, [''a'', ''b''], [])" .
  have "?step (s2, ?st, [''a'', ''b''], []) (s3, ?st, [''a'', ''b''], [])"
    using strand_post [of s2 "[Op_accept]" "''b''" "[Op_write ''a'']"]
    by (simp add: eqs s2_def s3_def ws_on_send_def start_op_def)
  from strand_next [OF r2 this] have r3: "?reach (s3, ?st, [''a'', ''b''], [])" .
  have "?step (s3, ?st, [''a'', ''b''], []) (two_messages, ?st, [''a'', ''b''], [''a''])"
    using strand_written [of s3 "[Op_accept]" "''a''" "[]" faulty _ _ _ ?st "[''a'', ''b'']" "[]"]
    by (simp add: eqs s3_def ws_on_write_def start_op_def two_messages_def)
  from strand_next [OF r3 this] show ?thesis .
qed

theorem websocket_messages_in_order_witness:
  "[''a'', ''b''] = [''a''] @ ws_queue two_messages @ posted (ws_ops two_messages) \<and>
   writing (ws_ops two_messages) = [''b'']"
  using websocket_messages_in_order [OF two_messages_reachable [of False]]
  by (simp add: two_messages_def)

text \<open>
  C31: a write error silences the session for good. The handler keeps the failed message at the
  head of the queue, so every later message is only queued: whatever happens next, nothing is
  delivered any more and the queue never becomes empty.
\<close>
theorem write_error_silences_session:
  assumes "strand_reachable True Q J split (s, st, sent, delivered)"
    and "ws_ops s = xs @ Op_write ss # ys"
    and "strand_steps True Q J split (ws_on_write (Some e) (s\<lparr>ws_ops := xs @ ys\<rparr>), st, sent, delivered)
      (s', st', sent', delivered')"
  shows "delivered' = delivered \<and> ws_queue s' \<noteq> [] \<and> writing (ws_ops s') = []"
proof -
  let ?c = "(ws_on_write (Some e) (s\<lparr>ws_ops := xs @ ys\<rparr>), st, sent, delivered)"
  from strand_reachable_inv [OF assms(1)] have inv: "strand_inv (s, st, sent, delivered)" .
  have "writing xs = [] \<and> writing ys = [] \<and> (\<exists>q'. ws_queue s = ss # q')"
    using inv assms(2) by (intro writing_one) auto
  then have failed: "write_failed ?c" by (auto simp: ws_on_write_def)
  have "strand_inv ?c"
    using strand_step_inv [OF strand_write_failed [OF TrueI assms(2)] inv] by blast
  from strand_steps_failed [OF assms(3) this failed] show ?thesis by simp
qed

theorem write_error_silences_session_witness:
  "\<exists>s'. strand_steps True bounded_queue (sample_json subscribe_text) (\<lambda>s. [s])
          (ws_on_write (Some Websocket_closed) (two_messages\<lparr>ws_ops := [Op_accept]\<rparr>),
           one_topic_state [], [''a'', ''b''], [''a''])
          (s', one_topic_state [], [''a'', ''b'', ''c''], [''a'']) \<and> ws_queue s' \<noteq> []"
proof -
  let ?c = "ws_on_write (Some Websocket_closed) (two_messages\<lparr>ws_ops := [Op_accept]\<rparr>)"
  have steps: "strand_steps True bounded_queue (sample_json subscribe_text) (\<lambda>s. [s])
      (?c, one_topic_state [], [''a'', ''b''], [''a''])
      (ws_send ''c'' ?c, one_topic_state [], [''a'', ''b'', ''c''], [''a''])"
    using steps_more [OF steps_none strand_send, of True bounded_queue "sample_json subscribe_text" "\<lambda>s. [s]"
        ?c "one_topic_state []" "[''a'', ''b'']" "[''a'']" "''c''"] by simp
  have ops: "ws_ops two_messages = [Op_accept] @ Op_write ''b'' # []" by (simp add: two_messages_def)
  from write_error_silences_session [OF two_messages_reachable ops, of Websocket_closed "ws_send ''c'' ?c"] steps
  show ?thesis by auto
qed

end
