(* ===== verification/Listener.thy ===== *)
theory Listener
  imports Http_Session Websocket_Session
begin

text \<open>
  \<open>src/web/listener.cpp\<close>: the acceptor of connections. The socket operations of Boost.Asio are
  parameters; each gives an error code or none. The object is reduced to what its handlers
  read and change: the number of accepts in flight, the sessions it launched and the lines it
  wrote to the error stream.
\<close>

section \<open>State and operations\<close>

record 'a acceptor_ops =
  ac_open :: "'a \<Rightarrow> error_code option \<times> 'a"
  ac_set_option :: "'a \<Rightarrow> error_code option \<times> 'a"
  ac_bind :: "'a \<Rightarrow> error_code option \<times> 'a"
  ac_listen :: "'a \<Rightarrow> error_code option \<times> 'a"

record 'a listener =
  ls_acceptor :: 'a
  ls_accepting :: nat
  ls_sessions :: "http_session list"
  ls_log :: "string list"

text \<open>Unlike in a web socket session, a closed web socket is reported here.\<close>

definition error_message :: "error_code \<Rightarrow> string" where
  "error_message ec =
     (case ec of
        Operation_aborted \<Rightarrow> ''Operation canceled''
      | Websocket_closed \<Rightarrow> ''The WebSocket stream was gracefully closed at both endpoints''
      | Error_code msg \<Rightarrow> msg)"

definition listener_fail :: "error_code \<Rightarrow> string \<Rightarrow> 'a listener \<Rightarrow> 'a listener" where
  "listener_fail ec where_text l =
     (if ec = Operation_aborted then l
      else l\<lparr>ls_log := ls_log l @ [where_text @ '': '' @ error_message ec]\<rparr>)"

text \<open>One guarded step of the constructor: on an error it reports and returns early.\<close>

definition acceptor_step ::
    "('a \<Rightarrow> error_code option \<times> 'a) \<Rightarrow> string \<Rightarrow> ('a listener \<Rightarrow> 'a listener) \<Rightarrow> 'a listener \<Rightarrow> 'a listener" where
  "acceptor_step operation where_text continue l =
     (case operation (ls_acceptor l) of
        (Some ec, a) \<Rightarrow> listener_fail ec where_text (l\<lparr>ls_acceptor := a\<rparr>)
      | (None, a) \<Rightarrow> continue (l\<lparr>ls_acceptor := a\<rparr>))"

definition new_listener :: "'a acceptor_ops \<Rightarrow> 'a \<Rightarrow> 'a listener" where
  "new_listener A acceptor =
     acceptor_step (ac_open A) ''open''
       (acceptor_step (ac_set_option A) ''set_option''
         (acceptor_step (ac_bind A) ''bind''
           (acceptor_step (ac_listen A) ''listen'' (\<lambda>l. l))))
       \<lparr>ls_acceptor = acceptor, ls_accepting = 0, ls_sessions = [], ls_log = []\<rparr>"

definition listener_run :: "'a listener \<Rightarrow> 'a listener" where
  "listener_run l = l\<lparr>ls_accepting := Suc (ls_accepting l)\<rparr>"

text \<open>
  The completion handler. The constructor of the session may throw; nothing above the
  handler catches, so the exception ends the thread and with it the process.
\<close>

definition listener_on_accept ::
    "(string \<Rightarrow> string option) \<Rightarrow> error_code option \<Rightarrow> 'a listener \<Rightarrow> 'a listener outcome" where
  "listener_on_accept vm_env ec l =
     (case ec of
        Some e \<Rightarrow> Ret (listener_fail e ''accept'' l)
      | None \<Rightarrow>
          (case new_http_session vm_env of
             Ret h \<Rightarrow> Ret (listener_run (l\<lparr>ls_sessions := ls_sessions l @ [h]\<rparr>))
           | Throw e \<Rightarrow> Abort
           | Abort \<Rightarrow> Abort
           | Blocked \<Rightarrow> Blocked))"

text \<open>
  A run of the listener: the results of its accepts, in order. A result is used only while an
  accept is in flight.
\<close>

fun accept_events ::
    "(string \<Rightarrow> string option) \<Rightarrow> error_code option list \<Rightarrow> 'a listener \<Rightarrow> 'a listener outcome" where
  "accept_events vm_env [] l = Ret l"
| "accept_events vm_env (ec # ecs) l =
     (if ls_accepting l = 0 then Ret l
      else out_bind (listener_on_accept vm_env ec (l\<lparr>ls_accepting := ls_accepting l - 1\<rparr>))
             (accept_events vm_env ecs))"

section \<open>Lemmas\<close>

lemma listener_fail_fields [simp]:
  "ls_accepting (listener_fail ec w l) = ls_accepting l"
  "ls_sessions (listener_fail ec w l) = ls_sessions l"
  "ls_acceptor (listener_fail ec w l) = ls_acceptor l"
  by (simp_all add: listener_fail_def)

lemma accept_events_stopped: "ls_accepting l = 0 \<Longrightarrow> accept_events vm_env ecs l = Ret l"
  by (cases ecs) simp_all

lemma accept_events_sessions:
  assumes h: "new_http_session vm_env = Ret h"
  shows "ls_accepting l = 1 \<Longrightarrow>
    \<exists>l'. accept_events vm_env ecs l = Ret l' \<and>
      ls_sessions l' = ls_sessions l @ replicate (length (takeWhile (\<lambda>ec. ec = None) ecs)) h \<and>
      (ls_accepting l' = 0 \<longleftrightarrow> (\<exists>e. Some e \<in> set ecs)) \<and> ls_accepting l' \<le> 1"
proof (induction ecs arbitrary: l)
  case Nil
  then show ?case by simp
next
  case (Cons ec ecs)
  show ?case
  proof (cases ec)
    case None
    let ?l = "listener_run (l\<lparr>ls_accepting := 0, ls_sessions := ls_sessions l @ [h]\<rparr>)"
    have "ls_accepting ?l = 1" by (simp add: listener_run_def)
    from Cons.IH [OF this] Cons.prems None show ?thesis
      by (auto simp: listener_on_accept_def h listener_run_def)
  next
    case (Some e)
    with Cons.prems show ?thesis
      by (auto simp: listener_on_accept_def accept_events_stopped)
  qed
qed

section \<open>Properties\<close>

text \<open>
  The listener launches one session for every accepted connection up to the first failed
  accept and none after it: any error of an accept, also a passing one such as running out of
  file descriptors, stops the server from accepting for the rest of its life.
\<close>
theorem accept_error_stops_listener:
  assumes "new_http_session vm_env = Ret h" and "ls_accepting l = 0"
  shows "\<exists>l'. accept_events vm_env (replicate n None @ Some e # ecs) (listener_run l) = Ret l' \<and>
     ls_sessions l' = ls_sessions l @ replicate n h \<and> ls_accepting l' = 0"
proof -
  have "takeWhile (\<lambda>ec. ec = None) (replicate n None @ Some e # ecs) = replicate n None"
    by (simp add: takeWhile_append)
  with accept_events_sessions [OF assms(1), of "listener_run l" "replicate n None @ Some e # ecs"] assms(2)
  show ?thesis by (auto simp: listener_run_def)
qed

definition sample_env :: "string \<Rightarrow> string option" where
  "sample_env = [''JWT_ACCESS_TOKEN_SECRET'' \<mapsto> ''k'', ''DisableJWTTokenValidation'' \<mapsto> ''false'']"

definition idle_listener :: "unit listener" where
  "idle_listener = \<lparr>ls_acceptor = (), ls_accepting = 0, ls_sessions = [], ls_log = []\<rparr>"

theorem accept_error_stops_listener_witness:
  "\<exists>h l'. accept_events sample_env (replicate 2 None @ Some (Error_code ''Too many open files'') # [None, None])
       (listener_run idle_listener) = Ret l' \<and> ls_sessions l' = [h, h] \<and> ls_accepting l' = 0"
proof -
  have h: "new_http_session sample_env = Ret \<lparr>hs_jwt_token = ''k'', hs_disableJWTTokenValidation = ''false''\<rparr>"
    by (simp add: new_http_session_def sample_env_def)
  have l: "ls_accepting idle_listener = 0" by (simp add: idle_listener_def)
  from accept_error_stops_listener [OF h l, of 2 "Error_code ''Too many open files''" "[None, None]"]
  obtain l' where ev: "accept_events sample_env (replicate 2 None @ Some (Error_code ''Too many open files'') # [None, None])
       (listener_run idle_listener) = Ret l'" and acc: "ls_accepting l' = 0"
    and s: "ls_sessions l' = ls_sessions idle_listener @ replicate 2 \<lparr>hs_jwt_token = ''k'', hs_disableJWTTokenValidation = ''false''\<rparr>"
    by blast
  from s have "\<exists>h. ls_sessions l' = [h, h]" by (simp add: idle_listener_def numeral_2_eq_2)
  with ev acc show ?thesis by blast
qed

end
