(* ===== verification/Worker_Pool.thy ===== *)
theory Worker_Pool
  imports Main
begin

text \<open>
  The background workers of \<open>src/web/webserver.cpp\<close>, the threads that run
  \<open>ioc_background_worker\<close>, with the two kinds of handlers that are posted to it: the routing
  of a request (\<open>http_session::handle_request\<close>), which for a download starts a coroutine and
  waits in \<open>future.get()\<close> (\<open>FundamentalsController::FetchDataAndSaveToS3\<close>), and the
  resumptions of that coroutine (\<open>DataProvider::httpGet_\<close>), which the same threads have to
  run: the router hands its \<open>io_context\<close> to the data provider.

  A handler runs as one step, since its threads share nothing else here; that also keeps the
  promise of the strand the coroutines run on. Requests are numbers, and a new request has
  another number than those that wait.
\<close>

section \<open>State and steps\<close>

datatype job =
    Route nat
  | Resume nat nat \<comment> \<open>request, asynchronous operations the coroutine has still to start\<close>

record pool =
  pl_idle :: nat
  pl_jobs :: "job list"
  pl_waiting :: "nat list" \<comment> \<open>requests whose worker is inside \<open>future.get()\<close>\<close>
  pl_network :: "(nat \<times> nat) list" \<comment> \<open>coroutines suspended in an asynchronous operation\<close>
  pl_fulfilled :: "nat list" \<comment> \<open>promises that have a value\<close>
  pl_answered :: "nat list"

text \<open>Resolve, connect, handshake, write, read and shutdown suspend the coroutine.\<close>

definition network_operations :: nat where
  "network_operations = 6"

definition new_pool :: "nat \<Rightarrow> pool" where
  "new_pool workers =
     \<lparr>pl_idle = workers, pl_jobs = [], pl_waiting = [], pl_network = [], pl_fulfilled = [], pl_answered = []\<rparr>"

definition pool_post :: "job \<Rightarrow> pool \<Rightarrow> pool" where
  "pool_post j p = p\<lparr>pl_jobs := pl_jobs p @ [j]\<rparr>"

definition route_download :: "nat \<Rightarrow> pool \<Rightarrow> pool" where
  "route_download i p =
     pool_post (Resume i network_operations)
       (p\<lparr>pl_idle := pl_idle p - 1, pl_waiting := pl_waiting p @ [i]\<rparr>)"

definition route_cached :: "nat \<Rightarrow> pool \<Rightarrow> pool" where
  "route_cached i p = p\<lparr>pl_answered := pl_answered p @ [i]\<rparr>"

definition resume_coroutine :: "nat \<Rightarrow> nat \<Rightarrow> pool \<Rightarrow> pool" where
  "resume_coroutine i k p =
     (case k of
        0 \<Rightarrow> p\<lparr>pl_fulfilled := i # pl_fulfilled p\<rparr>
      | Suc k' \<Rightarrow> p\<lparr>pl_network := pl_network p @ [(i, k')]\<rparr>)"

definition future_ready :: "nat \<Rightarrow> pool \<Rightarrow> pool" where
  "future_ready i p =
     p\<lparr>pl_idle := Suc (pl_idle p), pl_waiting := remove1 i (pl_waiting p), pl_answered := pl_answered p @ [i]\<rparr>"

inductive pool_step :: "pool \<Rightarrow> pool \<Rightarrow> bool" where
  request_arrives: "i \<notin> set (pl_waiting p) \<Longrightarrow> pool_step p (pool_post (Route i) p)"
| run_download:
    "pl_jobs p = Route i # js \<Longrightarrow> 0 < pl_idle p \<Longrightarrow> pool_step p (route_download i (p\<lparr>pl_jobs := js\<rparr>))"
| run_cached:
    "pl_jobs p = Route i # js \<Longrightarrow> 0 < pl_idle p \<Longrightarrow> pool_step p (route_cached i (p\<lparr>pl_jobs := js\<rparr>))"
| run_coroutine:
    "pl_jobs p = Resume i k # js \<Longrightarrow> 0 < pl_idle p \<Longrightarrow> pool_step p (resume_coroutine i k (p\<lparr>pl_jobs := js\<rparr>))"
| coroutine_fails:
    "pl_jobs p = Resume i k # js \<Longrightarrow> 0 < pl_idle p \<Longrightarrow> pool_step p (p\<lparr>pl_jobs := js\<rparr>)"
| network_completes:
    "pl_network p = xs @ (i, k) # ys \<Longrightarrow>
     pool_step p (pool_post (Resume i k) (p\<lparr>pl_network := xs @ ys\<rparr>))"
| future_wakes:
    "i \<in> set (pl_waiting p) \<Longrightarrow> i \<in> set (pl_fulfilled p) \<Longrightarrow> pool_step p (future_ready i p)"

inductive pool_steps :: "pool \<Rightarrow> pool \<Rightarrow> bool" where
  pool_steps_refl: "pool_steps p p"
| pool_steps_next: "pool_steps p q \<Longrightarrow> pool_step q r \<Longrightarrow> pool_steps p r"

inductive_cases pool_stepE: "pool_step p q"

text \<open>All workers wait, and for promises that have no value.\<close>

definition deadlocked :: "pool \<Rightarrow> bool" where
  "deadlocked p \<longleftrightarrow> pl_idle p = 0 \<and> set (pl_waiting p) \<inter> set (pl_fulfilled p) = {}"

section \<open>Lemmas\<close>

lemma pool_steps_trans: "pool_steps q r \<Longrightarrow> pool_steps p q \<Longrightarrow> pool_steps p r"
  by (induction rule: pool_steps.induct) (auto intro: pool_steps.intros)

lemma pool_post_fields [simp]:
  "pl_idle (pool_post j p) = pl_idle p"
  "pl_jobs (pool_post j p) = pl_jobs p @ [j]"
  "pl_waiting (pool_post j p) = pl_waiting p"
  "pl_network (pool_post j p) = pl_network p"
  "pl_fulfilled (pool_post j p) = pl_fulfilled p"
  "pl_answered (pool_post j p) = pl_answered p"
  by (simp_all add: pool_post_def)

lemma deadlocked_step:
  "pool_step p q \<Longrightarrow> deadlocked p \<Longrightarrow> deadlocked q \<and> pl_answered q = pl_answered p"
  by (erule pool_stepE) (auto simp: deadlocked_def)

lemma deadlocked_forever:
  "pool_steps p q \<Longrightarrow> deadlocked p \<Longrightarrow> deadlocked q \<and> pl_answered q = pl_answered p"
  by (induction rule: pool_steps.induct) (auto dest: deadlocked_step)

lemma requests_arrive:
  "pl_waiting p = [] \<Longrightarrow> pool_steps p (p\<lparr>pl_jobs := pl_jobs p @ map Route is\<rparr>)"
proof (induction "is" rule: rev_induct)
  case Nil
  show ?case using pool_steps_refl [of p] by simp
next
  case (snoc i "is")
  then show ?case
    using pool_steps_next [OF snoc.IH [OF snoc.prems] request_arrives [of i]] by (simp add: pool_post_def)
qed

text \<open>As many downloads as there are idle workers take all of them.\<close>

lemma downloads_take_workers:
  "pl_jobs p = map Route is @ js \<Longrightarrow> length is \<le> pl_idle p \<Longrightarrow>
   \<exists>q. pool_steps p q \<and> pl_idle q = pl_idle p - length is \<and> pl_waiting q = pl_waiting p @ is \<and>
     pl_fulfilled q = pl_fulfilled p \<and> pl_answered q = pl_answered p"
proof (induction "is" arbitrary: p js)
  case Nil
  then show ?case by (auto intro: pool_steps_refl)
next
  case (Cons i "is")
  let ?q = "route_download i (p\<lparr>pl_jobs := map Route is @ js\<rparr>)"
  have one: "pool_steps p ?q"
    using Cons.prems by (intro pool_steps_next [OF pool_steps_refl] run_download) auto
  have "pl_jobs ?q = map Route is @ js @ [Resume i network_operations]" "length is \<le> pl_idle ?q"
    using Cons.prems(2) by (auto simp: route_download_def)
  from Cons.IH [OF this] obtain q where q: "pool_steps ?q q" "pl_idle q = pl_idle ?q - length is"
    "pl_waiting q = pl_waiting ?q @ is" "pl_fulfilled q = pl_fulfilled ?q" "pl_answered q = pl_answered ?q" by blast
  with pool_steps_trans [OF q(1) one] Cons.prems(2) show ?case
    by (intro exI [of _ q]) (auto simp: route_download_def)
qed

text \<open>A download that has failed: its promise has no value and no part of it is left.\<close>

definition lost_download :: "nat \<Rightarrow> pool \<Rightarrow> bool" where
  "lost_download i p \<longleftrightarrow>
     i \<in> set (pl_waiting p) \<and> i \<notin> set (pl_fulfilled p) \<and> (\<forall>k. Resume i k \<notin> set (pl_jobs p)) \<and>
     i \<notin> fst ` set (pl_network p) \<and> Route i \<notin> set (pl_jobs p)"

lemma lost_download_step: "pool_step p q \<Longrightarrow> lost_download i p \<Longrightarrow> lost_download i q"
  apply (erule pool_stepE)
        apply (auto simp: lost_download_def route_download_def route_cached_def resume_coroutine_def future_ready_def
      split: nat.splits)
  apply (metis in_set_remove1)
  done

lemma lost_download_forever: "pool_steps p q \<Longrightarrow> lost_download i p \<Longrightarrow> lost_download i q"
  by (induction rule: pool_steps.induct) (auto dest: lost_download_step)

lemma workers_step:
  "pool_step p q \<Longrightarrow> pl_idle q + length (pl_waiting q) = pl_idle p + length (pl_waiting p)"
  by (erule pool_stepE)
    (auto simp: route_download_def route_cached_def resume_coroutine_def future_ready_def length_remove1
      split: nat.splits dest: length_pos_if_in_set)

lemma workers_constant:
  "pool_steps p q \<Longrightarrow> pl_idle q + length (pl_waiting q) = pl_idle p + length (pl_waiting p)"
  by (induction rule: pool_steps.induct) (auto dest: workers_step)

section \<open>Properties\<close>

text \<open>
  The background workers can deadlock. For every number of workers there is a run
  in which that many requests each wait for a download; from then on no
  worker is ever free again and no further request is answered, whatever arrives and whatever
  the network does, because only those workers could run the downloads.
\<close>
theorem workers_deadlock:
  "\<exists>p. pool_steps (new_pool workers) p \<and> length (pl_waiting p) = workers \<and>
     (\<forall>q. pool_steps p q \<longrightarrow> pl_idle q = 0 \<and> pl_answered q = [])"
proof -
  let ?is = "[0..<workers]"
  let ?p = "(new_pool workers)\<lparr>pl_jobs := map Route ?is\<rparr>"
  have arrive: "pool_steps (new_pool workers) ?p"
    using requests_arrive [of "new_pool workers" ?is] by (simp add: new_pool_def)
  have "pl_jobs ?p = map Route ?is @ []" "length ?is \<le> pl_idle ?p" by (simp_all add: new_pool_def)
  from downloads_take_workers [OF this] obtain p where p: "pool_steps ?p p" "pl_idle p = 0"
    "pl_waiting p = ?is" "pl_fulfilled p = []" "pl_answered p = []"
    by (auto simp: new_pool_def)
  then have "deadlocked p" by (simp add: deadlocked_def)
  with p pool_steps_trans [OF p(1) arrive] show ?thesis
    using deadlocked_forever [of p] by (auto simp: deadlocked_def)
qed

theorem workers_deadlock_witness:
  "\<exists>p. pool_steps (new_pool 3) p \<and> length (pl_waiting p) = 3 \<and> pl_answered p = []"
  using workers_deadlock [of 3] pool_steps_refl by blast

text \<open>
  A download whose network operation fails costs a worker for good. The error path of the
  coroutine never sets the promise, so the worker that routes the request waits for ever: with
  \<open>n\<close> failed downloads at most \<open>workers - n\<close> workers can ever be idle again.
\<close>
theorem failed_downloads_cost_workers:
  assumes "pool_steps (new_pool workers) p" and "distinct is" and "\<forall>i \<in> set is. lost_download i p"
    and "pool_steps p q"
  shows "pl_idle q + length is \<le> workers \<and> set is \<subseteq> set (pl_waiting q)"
proof -
  have "pl_idle q + length (pl_waiting q) = workers"
    using workers_constant [OF pool_steps_trans [OF assms(4) assms(1)]] by (simp add: new_pool_def)
  moreover have sub: "set is \<subseteq> set (pl_waiting q)"
    using assms(3) lost_download_forever [OF assms(4)] by (auto simp: lost_download_def)
  moreover have "length is \<le> length (pl_waiting q)"
    using distinct_card [OF assms(2)] card_mono [OF _ sub] card_length [of "pl_waiting q"] by simp
  ultimately show ?thesis by simp
qed

definition failed_pool :: pool where
  "failed_pool = (new_pool 2)\<lparr>pl_idle := 1, pl_waiting := [5]\<rparr>"

lemma failed_pool_reachable: "pool_steps (new_pool 2) failed_pool"
proof -
  let ?p1 = "pool_post (Route 5) (new_pool 2)"
  let ?p2 = "route_download 5 (?p1\<lparr>pl_jobs := []\<rparr>)"
  have "pool_steps (new_pool 2) ?p1"
    by (intro pool_steps_next [OF pool_steps_refl] request_arrives) (simp add: new_pool_def)
  moreover have "pool_step ?p1 ?p2" by (rule run_download) (simp_all add: new_pool_def)
  moreover have "pool_step ?p2 (?p2\<lparr>pl_jobs := []\<rparr>)"
    by (rule coroutine_fails [of _ 5 network_operations]) (simp_all add: new_pool_def route_download_def)
  ultimately have "pool_steps (new_pool 2) (?p2\<lparr>pl_jobs := []\<rparr>)" by (blast intro: pool_steps_next)
  then show ?thesis by (simp add: failed_pool_def new_pool_def route_download_def pool_post_def)
qed

theorem failed_downloads_cost_workers_witness:
  "pl_idle failed_pool + length [5 :: nat] \<le> 2"
proof -
  have "\<forall>i \<in> set [5]. lost_download i failed_pool"
    by (simp add: lost_download_def failed_pool_def new_pool_def)
  from failed_downloads_cost_workers [OF failed_pool_reachable _ this pool_steps_refl] show ?thesis by simp
qed

end
