(* ===== verification/World_Change.thy ===== *)
theory World_Change
  imports Prelude
begin

text \<open>
  What a computation of the \<open>io\<close> monad may do to the world of the services: a relation between the
  worlds before and after it, however it ends. The locale \<open>world_change\<close> is the contract of such a
  relation; with it, the relation holds for a composition when it holds for the parts.
\<close>

definition keeps :: "('w \<Rightarrow> 'w \<Rightarrow> bool) \<Rightarrow> ('w, 'a) io \<Rightarrow> bool" where
  "keeps rel m \<longleftrightarrow> (\<forall>w. rel w (snd (m w)))"

lemma keepsI: "(\<And>w. rel w (snd (m w))) \<Longrightarrow> keeps rel m"
  by (simp add: keeps_def)

lemma keepsD: "keeps rel m \<Longrightarrow> m w = (r, w') \<Longrightarrow> rel w w'"
  unfolding keeps_def by (metis snd_conv)

lemma keeps_mono: "keeps rel m \<Longrightarrow> (\<And>w w'. rel w w' \<Longrightarrow> rel' w w') \<Longrightarrow> keeps rel' m"
  by (simp add: keeps_def)

locale world_change =
  fixes rel :: "'w \<Rightarrow> 'w \<Rightarrow> bool"
  assumes rel_refl: "rel w w"
    and rel_trans: "rel w w' \<Longrightarrow> rel w' w'' \<Longrightarrow> rel w w''"
begin

lemma keeps_pure: "keeps rel (io_return x)" "keeps rel (io_lift y)" "keeps rel (io_throw e)"
  by (simp_all add: keeps_def io_return_def io_lift_def io_throw_def rel_refl)

lemma keeps_bind: "keeps rel m \<Longrightarrow> (\<And>x. keeps rel (f x)) \<Longrightarrow> keeps rel (io_bind m f)"
proof (rule keepsI)
  fix w
  assume m: "keeps rel m" and f: "\<And>x. keeps rel (f x)"
  obtain r w1 where call: "m w = (r, w1)" by (cases "m w")
  from keepsD [OF m call] f show "rel w (snd (io_bind m f w))"
    by (cases r) (auto simp: io_bind_def call keeps_def intro: rel_trans)
qed

lemma keeps_catch: "keeps rel m \<Longrightarrow> (\<And>e. keeps rel (h e)) \<Longrightarrow> keeps rel (io_catch m h)"
proof (rule keepsI)
  fix w
  assume m: "keeps rel m" and h: "\<And>e. keeps rel (h e)"
  obtain r w1 where call: "m w = (r, w1)" by (cases "m w")
  from keepsD [OF m call] h show "rel w (snd (io_catch m h w))"
    by (cases r) (auto simp: io_catch_def call keeps_def intro: rel_trans)
qed

lemma keeps_if: "keeps rel m \<Longrightarrow> keeps rel n \<Longrightarrow> keeps rel (if b then m else n)"
  by simp

lemma keeps_option: "keeps rel m \<Longrightarrow> (\<And>x. keeps rel (f x)) \<Longrightarrow> keeps rel (case r of None \<Rightarrow> m | Some x \<Rightarrow> f x)"
  by (cases r) auto

lemma keeps_sum: "(\<And>x. keeps rel (f x)) \<Longrightarrow> (\<And>x. keeps rel (g x)) \<Longrightarrow> keeps rel (case r of Inl x \<Rightarrow> f x | Inr x \<Rightarrow> g x)"
  by (cases r) auto

lemma keeps_prod: "(\<And>x y. keeps rel (f x y)) \<Longrightarrow> keeps rel (case r of (x, y) \<Rightarrow> f x y)"
  by (cases r) auto

lemma keeps_list: "keeps rel m \<Longrightarrow> (\<And>x xs. keeps rel (f x xs)) \<Longrightarrow> keeps rel (case r of [] \<Rightarrow> m | x # xs \<Rightarrow> f x xs)"
  by (cases r) auto

lemmas keeps_intros = keeps_pure keeps_bind keeps_catch keeps_if keeps_option keeps_sum keeps_prod keeps_list

end

end
