(* ===== verification/Interleaved_Calls.thy ===== *)
theory Interleaved_Calls
  imports World_Change
begin

text \<open>
  Background workers that use the same services at once. What a worker does for one request is a
  program whose states say which call of a service comes next; between two calls the calls of other
  requests may run. A locale states what such a program has to satisfy, and its lemmas hold for
  every controller that is cut in this way.
\<close>

section \<open>Programs and their interleaving\<close>

record ('w, 'p) program =
  pg_start :: "'p \<Rightarrow> bool"
  pg_next :: "'p \<Rightarrow> ('w, 'p) io" \<comment> \<open>one call\<close>
  pg_final :: "'p \<Rightarrow> bool"
  pg_failed :: "exn \<Rightarrow> 'p"
  pg_stuck :: 'p

fun calls_run :: "('w, 'p) program \<Rightarrow> nat \<Rightarrow> 'p \<Rightarrow> ('w, 'p) io" where
  "calls_run G 0 p = io_return p"
| "calls_run G (Suc n) p = io_bind (pg_next G p) (calls_run G n)"

record ('w, 'p) call_system =
  cs_world :: 'w
  cs_requests :: "nat \<Rightarrow> 'p option"
  cs_seen :: "'p set" \<comment> \<open>the states that requests have been in, for the specifications\<close>

definition new_call_system :: "'w \<Rightarrow> ('w, 'p) call_system" where
  "new_call_system w = \<lparr>cs_world = w, cs_requests = Map.empty, cs_seen = {}\<rparr>"

definition moved :: "nat \<Rightarrow> 'p \<Rightarrow> 'w \<Rightarrow> ('w, 'p) call_system \<Rightarrow> ('w, 'p) call_system" where
  "moved i p w s = \<lparr>cs_world = w, cs_requests = (cs_requests s)(i \<mapsto> p), cs_seen = insert p (cs_seen s)\<rparr>"

text \<open>
  A call of request \<open>i\<close>, or its arrival (\<open>None\<close>). An exception ends the request, a call that never
  returns leaves it stuck, and one that brings the process down is no step.
\<close>

inductive call_step :: "('w, 'p) program \<Rightarrow> ('w, 'p) call_system \<Rightarrow> nat option \<Rightarrow> ('w, 'p) call_system \<Rightarrow> bool"
  for G where
  request_posted:
    "cs_requests s i = None \<Longrightarrow> pg_start G p \<Longrightarrow> call_step G s None (moved i p (cs_world s) s)"
| call_returns:
    "cs_requests s i = Some p \<Longrightarrow> \<not> pg_final G p \<Longrightarrow> pg_next G p (cs_world s) = (Ret p', w') \<Longrightarrow>
     call_step G s (Some i) (moved i p' w' s)"
| call_throws:
    "cs_requests s i = Some p \<Longrightarrow> \<not> pg_final G p \<Longrightarrow> pg_next G p (cs_world s) = (Throw e, w') \<Longrightarrow>
     call_step G s (Some i) (moved i (pg_failed G e) w' s)"
| call_blocks:
    "cs_requests s i = Some p \<Longrightarrow> \<not> pg_final G p \<Longrightarrow> pg_next G p (cs_world s) = (Blocked, w') \<Longrightarrow>
     call_step G s (Some i) (moved i (pg_stuck G) w' s)"

inductive call_steps :: "('w, 'p) program \<Rightarrow> ('w, 'p) call_system \<Rightarrow> nat list \<Rightarrow> ('w, 'p) call_system \<Rightarrow> bool"
  for G where
  call_steps_none: "call_steps G s [] s"
| call_steps_more: "call_steps G s is t \<Longrightarrow> call_step G t lab u \<Longrightarrow>
    call_steps G s (is @ (case lab of None \<Rightarrow> [] | Some i \<Rightarrow> [i])) u"

lemma moved_fields [simp]:
  "cs_world (moved i p w s) = w" "cs_requests (moved i p w s) = (cs_requests s)(i \<mapsto> p)"
  "cs_seen (moved i p w s) = insert p (cs_seen s)"
  by (simp_all add: moved_def)

lemma new_call_system_fields [simp]:
  "cs_world (new_call_system w) = w" "cs_requests (new_call_system w) = Map.empty" "cs_seen (new_call_system w) = {}"
  by (simp_all add: new_call_system_def)

lemma call_steps_Cons:
  "call_steps G t is u \<Longrightarrow> call_step G s (Some i) t \<Longrightarrow> call_steps G s (i # is) u"
proof (induction rule: call_steps.induct)
  case (call_steps_none t)
  from call_steps_more [OF call_steps.call_steps_none this] show ?case by simp
next
  case (call_steps_more t "is" u lab v)
  from call_steps.call_steps_more [OF call_steps_more.IH [OF call_steps_more.prems] call_steps_more.hyps(2)] show ?case by simp
qed

lemma call_steps_trans: "call_steps G t js u \<Longrightarrow> call_steps G s is t \<Longrightarrow> call_steps G s (is @ js) u"
proof (induction rule: call_steps.induct)
  case (call_steps_more t js u lab v)
  from call_steps.call_steps_more [OF call_steps_more.IH [OF call_steps_more.prems] call_steps_more.hyps(2)] show ?case by simp
qed simp

lemma call_steps_one: "call_step G s (Some i) t \<Longrightarrow> call_steps G s [i] t"
  by (rule call_steps_Cons [OF call_steps_none])

text \<open>Where a request ends up with the outcome of a run.\<close>

fun run_end :: "('w, 'p) program \<Rightarrow> 'p outcome \<Rightarrow> 'p option" where
  "run_end G (Ret p) = Some p"
| "run_end G (Throw e) = Some (pg_failed G e)"
| "run_end G Blocked = Some (pg_stuck G)"
| "run_end G Abort = None"

section \<open>Programs that end\<close>

text \<open>A program of at most \<open>limit\<close> calls: \<open>calls_left\<close> falls with every call.\<close>

locale bounded_program =
  fixes G :: "('w, 'p) program"
    and calls_left :: "'p \<Rightarrow> nat"
    and limit :: nat
  assumes final_next: "pg_final G p \<Longrightarrow> pg_next G p = io_return p"
    and final_failed: "pg_final G (pg_failed G e)"
    and final_stuck: "pg_final G (pg_stuck G)"
    and calls_final: "calls_left p = 0 \<longleftrightarrow> pg_final G p"
    and calls_start: "pg_start G p \<Longrightarrow> calls_left p \<le> limit"
    and calls_decrease: "pg_next G p w = (Ret p', w') \<Longrightarrow> \<not> pg_final G p \<Longrightarrow> calls_left p' < calls_left p"
    and start_not_final: "pg_start G p \<Longrightarrow> \<not> pg_final G p"
    and next_not_start: "pg_next G p w = (Ret p', w') \<Longrightarrow> \<not> pg_final G p \<Longrightarrow> \<not> pg_start G p'"
begin

lemma final_run: "pg_final G p \<Longrightarrow> calls_run G n p = io_return p"
  by (induction n) (simp_all add: final_next)

text \<open>A request that nobody disturbs goes where its program goes, and no other one starts.\<close>

lemma undisturbed_run:
  "cs_requests s i = Some p \<Longrightarrow> calls_run G n p (cs_world s) = (r, w') \<Longrightarrow> run_end G r = Some q \<Longrightarrow> pg_final G q \<Longrightarrow>
   \<exists>is u. call_steps G s is u \<and> set is \<subseteq> {i} \<and> cs_world u = w' \<and> cs_requests u = (cs_requests s)(i \<mapsto> q) \<and>
     (\<forall>p \<in> cs_seen u. pg_start G p \<longrightarrow> p \<in> cs_seen s)"
proof (induction n arbitrary: s p)
  case 0
  then show ?case
    by (intro exI [of _ "[]"] exI [of _ s]) (auto simp: io_return_apply call_steps_none fun_upd_idem)
next
  case (Suc n)
  show ?case
  proof (cases "pg_final G p")
    case True
    with Suc.prems show ?thesis
      by (intro exI [of _ "[]"] exI [of _ s]) (auto simp: final_run io_return_apply call_steps_none fun_upd_idem simp del: calls_run.simps)
  next
    case False
    obtain x w1 where call: "pg_next G p (cs_world s) = (x, w1)" by fastforce
    show ?thesis
    proof (cases x)
      case (Ret p1)
      let ?t = "moved i p1 w1 s"
      from Suc.prems(2) call Ret have run: "calls_run G n p1 (cs_world ?t) = (r, w')" by (simp add: io_bind_def)
      have "cs_requests ?t i = Some p1" by simp
      from Suc.IH [OF this run Suc.prems(3,4)] obtain "is" u where
        u: "call_steps G ?t is u" "set is \<subseteq> {i}" "cs_world u = w'" "cs_requests u = (cs_requests ?t)(i \<mapsto> q)"
        "\<forall>p \<in> cs_seen u. pg_start G p \<longrightarrow> p \<in> cs_seen ?t" by blast
      from u(5) next_not_start [OF call [unfolded Ret] False] have starts: "\<forall>p \<in> cs_seen u. pg_start G p \<longrightarrow> p \<in> cs_seen s" by auto
      have same: "cs_requests u = (cs_requests s)(i \<mapsto> q)" by (simp only: u(4) moved_fields fun_upd_upd)
      from call_returns [OF Suc.prems(1) False call [unfolded Ret]] u(1-3)
      show ?thesis unfolding same using starts
        by (intro exI [of _ "i # is"] exI [of _ u]) (auto simp: same intro: call_steps_Cons)
    next
      case (Throw e)
      with Suc.prems call have end_: "q = pg_failed G e" "w' = w1" by (auto simp: io_bind_def)
      from call_steps_one [OF call_throws [OF Suc.prems(1) False call [unfolded Throw]]] end_ show ?thesis
        using start_not_final [of "pg_failed G e"] final_failed [of e]
        by (intro exI [of _ "[i]"] exI [of _ "moved i (pg_failed G e) w1 s"]) auto
    next
      case Blocked
      with Suc.prems call have end_: "q = pg_stuck G" "w' = w1" by (auto simp: io_bind_def)
      from call_steps_one [OF call_blocks [OF Suc.prems(1) False call [unfolded Blocked]]] end_ show ?thesis
        using start_not_final [of "pg_stuck G"] final_stuck
        by (intro exI [of _ "[i]"] exI [of _ "moved i (pg_stuck G) w1 s"]) auto
    next
      case Abort
      with Suc.prems call show ?thesis by (auto simp: io_bind_def)
    qed
  qed
qed

text \<open>However requests interleave, a request makes at most \<open>limit\<close> calls.\<close>

definition calls_of :: "('w, 'p) call_system \<Rightarrow> nat \<Rightarrow> nat" where
  "calls_of s i = (case cs_requests s i of None \<Rightarrow> limit | Some p \<Rightarrow> calls_left p)"

lemma ended [simp]: "calls_left (pg_failed G e) = 0" "calls_left (pg_stuck G) = 0"
  by (simp_all add: calls_final final_failed final_stuck)

lemma call_step_calls:
  "call_step G s lab t \<Longrightarrow> calls_of t i + (if lab = Some i then 1 else 0) \<le> calls_of s i"
proof (induction rule: call_step.induct)
  case (request_posted s j p)
  then show ?case by (auto simp: calls_of_def calls_start)
next
  case (call_returns s j p p' w')
  then show ?case using calls_decrease [of p "cs_world s" p' w'] by (auto simp: calls_of_def)
next
  case (call_throws s j p e w')
  then show ?case using calls_final [of p] by (auto simp: calls_of_def)
next
  case (call_blocks s j p w')
  then show ?case using calls_final [of p] by (auto simp: calls_of_def)
qed

lemma call_steps_calls:
  "call_steps G s is t \<Longrightarrow> calls_of t i + count_list is i \<le> calls_of s i"
proof (induction rule: call_steps.induct)
  case (call_steps_more s "is" t lab u)
  from call_step_calls [OF call_steps_more.hyps(2), of i] call_steps_more.IH show ?case by (cases lab) auto
qed simp

lemma calls_bounded:
  assumes "call_steps G (new_call_system w) is s"
  shows "count_list is i \<le> limit"
    and "0 < limit \<Longrightarrow> count_list is i = limit \<Longrightarrow> \<exists>p. cs_requests s i = Some p \<and> pg_final G p"
proof -
  from call_steps_calls [OF assms, of i] have calls: "calls_of s i + count_list is i \<le> limit"
    by (simp add: calls_of_def)
  then show "count_list is i \<le> limit" by simp
  show "\<exists>p. cs_requests s i = Some p \<and> pg_final G p" if "0 < limit" "count_list is i = limit"
    using that calls by (auto simp: calls_of_def calls_final split: option.splits)
qed

end

section \<open>Programs inside another\<close>

text \<open>
  A program whose states \<open>emb\<close> puts into those of another program \<open>W\<close>, which makes the same calls and
  handles their exceptions.
\<close>

lemma catch_bindE:
  assumes "io_catch (io_bind m (\<lambda>x. io_return (f x))) (\<lambda>e. io_return (h e)) w = (r, w')"
  obtains x where "m w = (Ret x, w')" and "r = Ret (f x)"
    | e where "m w = (Throw e, w')" and "r = Ret (h e)"
    | "m w = (Abort, w')" and "r = Abort"
    | "m w = (Blocked, w')" and "r = Blocked"
  using assms by (cases "m w"; cases "fst (m w)") (auto simp: io_catch_def io_bind_def io_return_def)

locale embedded_program = bounded_program G calls_left limit
  for G :: "('w, 'q) program" and calls_left :: "'q \<Rightarrow> nat" and limit :: nat +
  fixes W :: "('w, 'p) program"
    and emb :: "'q \<Rightarrow> 'p"
    and handle :: "exn \<Rightarrow> 'p"
  assumes emb_next: "\<not> pg_final G q \<Longrightarrow> pg_next W (emb q) =
      io_catch (io_bind (pg_next G q) (\<lambda>q'. io_return (emb q'))) (\<lambda>e. io_return (handle e))"
    and emb_final: "pg_final G q \<Longrightarrow> pg_final W (emb q)"
    and handle_final: "pg_final W (handle e)"
    and outer_final: "pg_final W p \<Longrightarrow> pg_next W p = io_return p"
begin

lemma outer_final_run: "pg_final W p \<Longrightarrow> calls_run W n p = io_return p"
  by (induction n) (simp_all add: outer_final)

lemma emb_run:
  "calls_run W n (emb q) = io_catch (io_bind (calls_run G n q) (\<lambda>q'. io_return (emb q'))) (\<lambda>e. io_return (handle e))"
proof (induction n arbitrary: q)
  case (Suc n)
  show ?case
  proof (cases "pg_final G q")
    case True
    then show ?thesis
      by (simp add: final_run outer_final_run emb_final del: calls_run.simps)
  next
    case False
    show ?thesis
    proof
      fix w
      obtain r w1 where "pg_next G q w = (r, w1)" by (cases "pg_next G q w")
      then show "calls_run W (Suc n) (emb q) w =
          io_catch (io_bind (calls_run G (Suc n) q) (\<lambda>q'. io_return (emb q'))) (\<lambda>e. io_return (handle e)) w"
        by (cases r) (simp_all add: emb_next [OF False] Suc.IH outer_final_run handle_final io_bind_def io_catch_def io_return_def)
    qed
  qed
qed simp

lemma emb_catch_left:
  assumes "io_catch (io_bind (pg_next G q) (\<lambda>q'. io_return (emb q'))) (\<lambda>e. io_return (handle e)) w = (Ret p', w')"
  shows "(\<exists>q'. p' = emb q' \<and> calls_left q' \<le> calls_left q - 1) \<or> (\<exists>e. p' = handle e)"
  using assms
proof (cases rule: catch_bindE)
  case (1 q')
  have "calls_left q' \<le> calls_left q - 1"
  proof (cases "pg_final G q")
    case True
    with 1 have "q' = q" "calls_left q = 0" by (simp_all add: final_next io_return_apply calls_final)
    then show ?thesis by simp
  next
    case False
    from calls_decrease [OF 1(1) False] show ?thesis by simp
  qed
  with 1 show ?thesis by auto
qed auto

end

text \<open>A request that has not ended can go on.\<close>

lemma call_step_possible:
  assumes "cs_requests s i = Some p" and "\<not> pg_final G p" and "fst (pg_next G p (cs_world s)) \<noteq> Abort"
  shows "\<exists>t. call_step G s (Some i) t"
  using assms call_returns [OF assms(1,2)] call_throws [OF assms(1,2)] call_blocks [OF assms(1,2)]
  by (cases "pg_next G p (cs_world s)"; cases "fst (pg_next G p (cs_world s))") fastforce+

section \<open>Programs with an invariant\<close>

text \<open>
  A condition on the world and one on the states of the requests, which other requests cannot
  break: both survive growth of the world (\<open>grows\<close>) and of the set of states seen. The lemmas are about runs all
  of whose requests start in \<open>admitted\<close> states; the program itself starts requests in any.
\<close>

locale guarded_program =
  fixes G :: "('w, 'p) program"
    and admitted :: "'p \<Rightarrow> bool"
    and grows :: "'w \<Rightarrow> 'w \<Rightarrow> bool"
    and world_ok :: "'w \<Rightarrow> 'p set \<Rightarrow> bool"
    and state_ok :: "'w \<Rightarrow> 'p set \<Rightarrow> 'p \<Rightarrow> bool"
  assumes grows_refl: "grows w w"
    and grows_trans: "grows w w' \<Longrightarrow> grows w' w'' \<Longrightarrow> grows w w''"
    and state_mono: "state_ok w S p \<Longrightarrow> grows w w' \<Longrightarrow> S \<subseteq> S' \<Longrightarrow> state_ok w' S' p"
    and world_mono: "world_ok w S \<Longrightarrow> S \<subseteq> S' \<Longrightarrow> world_ok w S'"
    and start_ok: "pg_start G p \<Longrightarrow> admitted p \<Longrightarrow> state_ok w S p"
    and failed_ok: "state_ok w S (pg_failed G e)"
    and stuck_ok: "state_ok w S (pg_stuck G)"
    and next_world: "pg_next G p w = (r, w') \<Longrightarrow> world_ok w S \<Longrightarrow> state_ok w S p \<Longrightarrow> grows w w' \<and> world_ok w' S"
    and next_state: "pg_next G p w = (Ret p', w') \<Longrightarrow> world_ok w S \<Longrightarrow> state_ok w S p \<Longrightarrow> state_ok w' (insert p' S) p'"
begin

definition system_ok :: "('w, 'p) call_system \<Rightarrow> bool" where
  "system_ok s \<longleftrightarrow>
     world_ok (cs_world s) (cs_seen s) \<and> (\<forall>i p. cs_requests s i = Some p \<longrightarrow> state_ok (cs_world s) (cs_seen s) p)"

lemma system_ok_moved:
  assumes "system_ok s" and "grows (cs_world s) w'" and "world_ok w' (cs_seen s)"
    and "state_ok w' (insert p' (cs_seen s)) p'"
  shows "system_ok (moved i p' w' s)"
proof -
  have "state_ok w' (insert p' (cs_seen s)) q" if "cs_requests s j = Some q" for j q
    using assms(1) that by (intro state_mono [OF _ assms(2)]) (auto simp: system_ok_def)
  moreover have "world_ok w' (insert p' (cs_seen s))" using assms(3) by (rule world_mono) auto
  ultimately show ?thesis using assms(4) by (auto simp: system_ok_def)
qed

definition all_admitted :: "('w, 'p) call_system \<Rightarrow> bool" where
  "all_admitted s \<longleftrightarrow> (\<forall>p \<in> cs_seen s. pg_start G p \<longrightarrow> admitted p)"

lemma call_step_admitted: "call_step G s lab t \<Longrightarrow> all_admitted t \<Longrightarrow> all_admitted s"
  by (induction rule: call_step.induct) (simp_all add: all_admitted_def)

lemma call_step_ok: "call_step G s lab t \<Longrightarrow> all_admitted t \<Longrightarrow> system_ok s \<Longrightarrow> system_ok t \<and> grows (cs_world s) (cs_world t)"
proof (induction rule: call_step.induct)
  case (request_posted s i p)
  then have "system_ok (moved i p (cs_world s) s)"
    by (intro system_ok_moved) (auto simp: system_ok_def grows_refl start_ok all_admitted_def)
  then show ?case by (simp add: grows_refl)
next
  case (call_returns s i p p' w')
  then have "world_ok (cs_world s) (cs_seen s)" "state_ok (cs_world s) (cs_seen s) p" by (simp_all add: system_ok_def)
  with next_world [OF call_returns(3) this] next_state [OF call_returns(3) this] call_returns(5) show ?case
    by (simp add: system_ok_moved)
next
  case (call_throws s i p e w')
  then have "world_ok (cs_world s) (cs_seen s)" "state_ok (cs_world s) (cs_seen s) p" by (simp_all add: system_ok_def)
  with next_world [OF call_throws(3) this] call_throws(5) show ?case
    by (simp add: system_ok_moved failed_ok)
next
  case (call_blocks s i p w')
  then have "world_ok (cs_world s) (cs_seen s)" "state_ok (cs_world s) (cs_seen s) p" by (simp_all add: system_ok_def)
  with next_world [OF call_blocks(3) this] call_blocks(5) show ?case
    by (simp add: system_ok_moved stuck_ok)
qed

lemma call_steps_ok: "call_steps G s is t \<Longrightarrow> all_admitted t \<Longrightarrow> system_ok s \<Longrightarrow> system_ok t \<and> grows (cs_world s) (cs_world t)"
proof (induction rule: call_steps.induct)
  case (call_steps_more s "is" t lab u)
  with call_step_admitted [OF call_steps_more.hyps(2)] call_step_ok [OF call_steps_more.hyps(2)] show ?case
    by (blast intro: grows_trans)
qed (simp add: grows_refl)

lemma reachable_ok:
  assumes "call_steps G (new_call_system w) is s" and "all_admitted s" and "world_ok w {}"
  shows "world_ok (cs_world s) (cs_seen s)" and "cs_requests s i = Some p \<Longrightarrow> state_ok (cs_world s) (cs_seen s) p"
  using call_steps_ok [OF assms(1,2)] assms(3) by (simp_all add: system_ok_def)

lemma reachable_grows:
  assumes "call_steps G (new_call_system w) is s" and "call_steps G s js t" and "all_admitted s" and "all_admitted t" and "world_ok w {}"
  shows "grows (cs_world s) (cs_world t)"
proof -
  have "system_ok s" using call_steps_ok [OF assms(1,3)] assms(5) by (simp add: system_ok_def)
  with call_steps_ok [OF assms(2,4)] show ?thesis by simp
qed

end

end
