(* ===== verification/Fundamentals_System.thy ===== *)
theory Fundamentals_System
  imports Controllers Interleaved_Calls
begin

text \<open>
  Requests for fundamentals on several background workers at once. Every worker runs
  \<open>FundamentalsController::get\<close> (\<open>src/controllers/fundamentals_controller.cpp\<close>), and between two
  calls of a service the others may run theirs. The function is cut at its calls here: \<open>fund_next\<close>
  runs one of them, and a run of one request alone is shown to be the function as
  \<open>Controllers\<close> has it.
\<close>

section \<open>One request, call by call\<close>

text \<open>
  The coroutine of a download, cut at its network operations: \<open>None\<close> when it returns without calling
  its callback, \<open>Inr\<close> the argument of the callback, which fulfils the promise.
\<close>

datatype net_pc = Net_sni | Net_resolve | Net_connect | Net_handshake | Net_write | Net_read | Net_shutdown string

definition net_continue :: "net_pc \<Rightarrow> string option \<Rightarrow> (net_pc + string) option" where
  "net_continue k ec = (case ec of Some _ \<Rightarrow> None | None \<Rightarrow> Some (Inl k))"

fun net_next :: "'w net_ops \<Rightarrow> string \<Rightarrow> string \<Rightarrow> net_pc \<Rightarrow> ('w, (net_pc + string) option) io" where
  "net_next N user_agent target Net_sni =
     io_bind (nt_set_sni N HOSTNAME) (\<lambda>sni_ok. if \<not> sni_ok then io_return None else io_return (Some (Inl Net_resolve)))"
| "net_next N user_agent target Net_resolve =
     io_bind (nt_resolve N HOSTNAME PORT) (\<lambda>ec. io_return (net_continue Net_connect ec))"
| "net_next N user_agent target Net_connect = io_bind (nt_connect N) (\<lambda>ec. io_return (net_continue Net_handshake ec))"
| "net_next N user_agent target Net_handshake = io_bind (nt_handshake N) (\<lambda>ec. io_return (net_continue Net_write ec))"
| "net_next N user_agent target Net_write =
     io_bind (nt_write N \<lparr>rq_target = target, rq_version = 11, rq_host = HOSTNAME, rq_user_agent = user_agent\<rparr>)
       (\<lambda>ec. io_return (net_continue Net_read ec))"
| "net_next N user_agent target Net_read =
     io_bind (nt_read N) (\<lambda>(ec, body). io_return (net_continue (Net_shutdown body) ec))"
| "net_next N user_agent target (Net_shutdown body) = io_bind (nt_shutdown N) (\<lambda>_. io_return (Some (Inr body)))"

text \<open>
  Where a request is. At \<open>At_net\<close> its worker waits in \<open>future.get()\<close> and the coroutine has the operation to
  do; the wait never ends when the coroutine returns without a value. The result of \<open>putObject\<close> is
  ignored by the code; the flag of \<open>At_presign\<close> remembers it, or that the object was there, for the
  specifications.
\<close>

datatype fund_pc =
    At_get presigned_url_model
  | At_check presigned_url_model
  | At_fetch presigned_url_model
  | At_net presigned_url_model string net_pc
  | At_put presigned_url_model string
  | At_presign presigned_url_model bool
  | At_cache presigned_url_model string
  | Fund_answered presigned_url_model
  | Fund_failed exn
  | Fund_stuck

fun fund_next :: "'w fundamentals_deps \<Rightarrow> fund_pc \<Rightarrow> ('w, fund_pc) io" where
  "fund_next F (At_get m) =
     io_bind (RedisClient_get (fd_redis F) (fundamentals_location (pm_sravzid m))) (\<lambda>redisPresignedURL.
       case redisPresignedURL of
         Some url \<Rightarrow> io_return (Fund_answered (m\<lparr>pm_url := url\<rparr>))
       | None \<Rightarrow> io_return (At_check m))"
| "fund_next F (At_check m) =
     io_bind (objectExists (fd_s3 F) (fd_s3_config F) FUNDAMENTALS_BUCKET_NAME (fundamentals_location (pm_sravzid m)))
       (\<lambda>exists. if \<not> exists then io_return (At_fetch m) else io_return (At_presign m True))"
| "fund_next F (At_fetch m) =
     io_bind (io_lift (ConvertMutualFundSravzIDToCode (pm_sravzid m))) (\<lambda>code.
       let target = ''/api/eod/'' @ code @ ''?api_token='' @
                    EODHISTORICALDATA_API_KEY2 (fd_provider F) @ ''&order=d&fmt=json''
       in io_return (At_net m target Net_sni))"
| "fund_next F (At_net m target k) =
     io_bind (net_next (fd_net F) (fd_user_agent F) target k) (\<lambda>r.
       case r of
         None \<Rightarrow> io_lift Blocked
       | Some x \<Rightarrow> (case x of Inl k' \<Rightarrow> io_return (At_net m target k') | Inr response \<Rightarrow> io_return (At_put m response)))"
| "fund_next F (At_put m response) =
     io_bind (putObject (fd_s3 F) (fd_s3_config F) FUNDAMENTALS_BUCKET_NAME
                (fundamentals_location (pm_sravzid m)) response) (\<lambda>success. io_return (At_presign m success))"
| "fund_next F (At_presign m there) =
     io_bind (generatePresignedUrl (fd_s3 F) (fd_s3_config F) FUNDAMENTALS_BUCKET_NAME
                (fundamentals_location (pm_sravzid m))) (\<lambda>preSignedURL. io_return (At_cache m preSignedURL))"
| "fund_next F (At_cache m preSignedURL) =
     io_bind (RedisClient_set_with_expiry (fd_redis F) (fundamentals_location (pm_sravzid m)) preSignedURL
                KEY_EXPIRY_IN_SECONDS) (\<lambda>_. io_return (Fund_answered (m\<lparr>pm_url := preSignedURL\<rparr>)))"
| "fund_next F p = io_return p"

definition fund_final :: "fund_pc \<Rightarrow> bool" where
  "fund_final p \<longleftrightarrow> (case p of Fund_answered m \<Rightarrow> True | Fund_failed e \<Rightarrow> True | Fund_stuck \<Rightarrow> True | _ \<Rightarrow> False)"

text \<open>A request starts with the model that the router has validated.\<close>

definition fund_program :: "'w fundamentals_deps \<Rightarrow> ('w, fund_pc) program" where
  "fund_program F =
     \<lparr>pg_start = (\<lambda>p. \<exists>params. p = At_get (FundamentalsController_validate_request (PreSignedUrlModel params))),
      pg_next = fund_next F, pg_final = fund_final, pg_failed = Fund_failed, pg_stuck = Fund_stuck\<rparr>"

text \<open>The locations of the objects whose put has failed.\<close>

fun refused_at :: "fund_pc \<Rightarrow> string set" where
  "refused_at (At_presign m there) = (if there then {} else {fundamentals_location (pm_sravzid m)})"
| "refused_at _ = {}"

definition refused_puts :: "fund_pc set \<Rightarrow> string set" where
  "refused_puts ps = (\<Union>p \<in> ps. refused_at p)"

lemma refused_puts_mono: "S \<subseteq> S' \<Longrightarrow> refused_puts S \<subseteq> refused_puts S'"
  by (auto simp: refused_puts_def)

lemma refused_puts_insert [simp]: "refused_puts (insert p S) = refused_at p \<union> refused_puts S"
  by (auto simp: refused_puts_def)

lemma refused_puts_empty [simp]: "refused_puts {} = {}"
  by (simp add: refused_puts_def)

section \<open>What the services promise\<close>

text \<open>
  \<open>cache\<close> is what Redis holds, \<open>stored\<close> the objects of the store, \<open>signs b k\<close> the URLs that are presigned for
  an object. A call of a service may let keys of Redis expire, and no call removes an object.
\<close>

definition services_grow :: "('w \<Rightarrow> string \<Rightarrow> string option) \<Rightarrow> ('w \<Rightarrow> (string \<times> string) set) \<Rightarrow> 'w \<Rightarrow> 'w \<Rightarrow> bool" where
  "services_grow cache stored w w' \<longleftrightarrow> cache w' \<subseteq>\<^sub>m cache w \<and> stored w \<subseteq> stored w'"

interpretation services_grow: world_change "services_grow cache stored" for cache and stored
  by unfold_locales (auto simp: services_grow_def intro: map_le_trans)

abbreviation keeps_all :: "('w \<Rightarrow> string \<Rightarrow> string option) \<Rightarrow> ('w \<Rightarrow> (string \<times> string) set) \<Rightarrow> ('w, 'a) io \<Rightarrow> bool" where
  "keeps_all cache stored \<equiv> keeps (services_grow cache stored)"

definition net_ops_keep :: "('w \<Rightarrow> 'w \<Rightarrow> bool) \<Rightarrow> 'w net_ops \<Rightarrow> bool" where
  "net_ops_keep rel N \<longleftrightarrow>
     (\<forall>h. keeps rel (nt_set_sni N h)) \<and> (\<forall>h p. keeps rel (nt_resolve N h p)) \<and>
     keeps rel (nt_connect N) \<and> keeps rel (nt_handshake N) \<and>
     (\<forall>r. keeps rel (nt_write N r)) \<and> keeps rel (nt_read N) \<and> keeps rel (nt_shutdown N)"

definition services_laws ::
    "'w fundamentals_deps \<Rightarrow> ('w \<Rightarrow> string \<Rightarrow> string option) \<Rightarrow> ('w \<Rightarrow> (string \<times> string) set) \<Rightarrow>
     (string \<Rightarrow> string \<Rightarrow> string \<Rightarrow> bool) \<Rightarrow> bool" where
  "services_laws F cache stored signs \<longleftrightarrow>
     net_ops_keep (services_grow cache stored) (fd_net F) \<and>
     (\<forall>k. keeps_all cache stored (rd_get (fd_redis F) k)) \<and>
     (\<forall>k w r w'. rd_get (fd_redis F) k w = (Ret r, w') \<longrightarrow> r = cache w' k) \<and>
     (\<forall>k v n w. cache (snd (rd_set_ex (fd_redis F) k v n w)) \<subseteq>\<^sub>m (cache w)(k \<mapsto> v) \<and>
        stored w \<subseteq> stored (snd (rd_set_ex (fd_redis F) k v n w))) \<and>
     (\<forall>b k. keeps_all cache stored (s3_HeadObject (fd_s3 F) (fd_s3_config F) b k)) \<and>
     (\<forall>b k w w'. s3_HeadObject (fd_s3 F) (fd_s3_config F) b k w = (Ret True, w') \<longrightarrow> (b, k) \<in> stored w') \<and>
     (\<forall>r. keeps_all cache stored (s3_PutObject (fd_s3 F) (fd_s3_config F) r)) \<and>
     (\<forall>r w w'. s3_PutObject (fd_s3 F) (fd_s3_config F) r w = (Ret True, w') \<longrightarrow> (put_bucket r, put_key r) \<in> stored w') \<and>
     (\<forall>b k. keeps_all cache stored (s3_GeneratePresignedUrl (fd_s3 F) (fd_s3_config F) b k)) \<and>
     (\<forall>b k w url w'. s3_GeneratePresignedUrl (fd_s3 F) (fd_s3_config F) b k w = (Ret url, w') \<longrightarrow> signs b k url)"

section \<open>One request alone\<close>

lemma io_bind_case [simp]:
  "io_bind (if b then m else n) f = (if b then io_bind m f else io_bind n f)"
  "io_bind (case x of None \<Rightarrow> m | Some y \<Rightarrow> n' y) f = (case x of None \<Rightarrow> io_bind m f | Some y \<Rightarrow> io_bind (n' y) f)"
  by (simp_all split: option.split)

lemma fund_program_fields [simp]:
  "pg_next (fund_program F) = fund_next F" "pg_final (fund_program F) = fund_final"
  "pg_failed (fund_program F) = Fund_failed" "pg_stuck (fund_program F) = Fund_stuck"
  "pg_start (fund_program F) p \<longleftrightarrow> (\<exists>params. p = At_get (FundamentalsController_validate_request (PreSignedUrlModel params)))"
  by (simp_all add: fund_program_def)

lemma fund_final_simps [simp]:
  "fund_final (Fund_answered m)" "fund_final (Fund_failed e)" "fund_final Fund_stuck"
  "\<not> fund_final (At_get m)" "\<not> fund_final (At_check m)" "\<not> fund_final (At_fetch m)" "\<not> fund_final (At_net m target k)"
  "\<not> fund_final (At_put m response)"
  "\<not> fund_final (At_presign m there)" "\<not> fund_final (At_cache m url)"
  by (simp_all add: fund_final_def)

fun net_calls_left :: "net_pc \<Rightarrow> nat" where
  "net_calls_left Net_sni = 7"
| "net_calls_left Net_resolve = 6"
| "net_calls_left Net_connect = 5"
| "net_calls_left Net_handshake = 4"
| "net_calls_left Net_write = 3"
| "net_calls_left Net_read = 2"
| "net_calls_left (Net_shutdown body) = 1"

lemma net_next_calls: "net_next N ua target k w = (Ret (Some (Inl k')), w') \<Longrightarrow> net_calls_left k' < net_calls_left k"
  by (cases k) (auto simp: io_bind_Ret_iff io_return_apply net_continue_def split: option.splits if_splits)

lemma net_calls_left_pos: "0 < net_calls_left k"
  by (cases k) simp_all

lemma At_net_nextE [consumes 1, case_names goes_on answers]:
  assumes "fund_next F (At_net m target k) w = (Ret p', w')"
  obtains k' where "net_next (fd_net F) (fd_user_agent F) target k w = (Ret (Some (Inl k')), w')" and "p' = At_net m target k'"
    | response where "net_next (fd_net F) (fd_user_agent F) target k w = (Ret (Some (Inr response)), w')" and "p' = At_put m response"
proof -
  from assms obtain r w1 where r: "net_next (fd_net F) (fd_user_agent F) target k w = (Ret r, w1)"
    and rest: "(case r of None \<Rightarrow> io_lift Blocked
       | Some x \<Rightarrow> (case x of Inl k' \<Rightarrow> io_return (At_net m target k') | Inr response \<Rightarrow> io_return (At_put m response))) w1 = (Ret p', w')"
    unfolding fund_next.simps io_bind_Ret_iff by blast
  show ?thesis
  proof (cases r)
    case None
    with rest show ?thesis by (simp add: io_lift_apply)
  next
    case (Some x)
    with rest r that show ?thesis by (cases x) (auto simp: io_return_apply)
  qed
qed

fun fund_calls_left :: "fund_pc \<Rightarrow> nat" where
  "fund_calls_left (At_get m) = 13"
| "fund_calls_left (At_check m) = 12"
| "fund_calls_left (At_fetch m) = 11"
| "fund_calls_left (At_net m target k) = net_calls_left k + 3"
| "fund_calls_left (At_put m response) = 3"
| "fund_calls_left (At_presign m there) = 2"
| "fund_calls_left (At_cache m url) = 1"
| "fund_calls_left _ = 0"

lemma fund_next_not_start: "fund_next F p w = (Ret p', w') \<Longrightarrow> p' = At_get m \<Longrightarrow> fund_final p"
proof (cases p)
  case (At_net m' target k)
  moreover assume "fund_next F p w = (Ret p', w')" "p' = At_get m"
  ultimately have "fund_next F (At_net m' target k) w = (Ret (At_get m), w')" by simp
  then show ?thesis by (cases rule: At_net_nextE) simp_all
qed (auto simp: Let_def io_bind_Ret_iff io_return_apply split: option.splits if_splits)

interpretation fund_calls: bounded_program "fund_program F" fund_calls_left 13 for F :: "'w fundamentals_deps"
proof unfold_locales
  fix p p' :: fund_pc and w w' :: 'w
  show "pg_next (fund_program F) p w = (Ret p', w') \<Longrightarrow> \<not> pg_final (fund_program F) p \<Longrightarrow> \<not> pg_start (fund_program F) p'"
    using fund_next_not_start [of F p w p' w'] by auto
  show "pg_final (fund_program F) p \<Longrightarrow> pg_next (fund_program F) p = io_return p"
    and "fund_calls_left p = 0 \<longleftrightarrow> pg_final (fund_program F) p" by (cases p; simp)+
  show "pg_next (fund_program F) p w = (Ret p', w') \<Longrightarrow> \<not> pg_final (fund_program F) p \<Longrightarrow> fund_calls_left p' < fund_calls_left p"
  proof (cases p)
    case (At_net m target k)
    moreover assume "pg_next (fund_program F) p w = (Ret p', w')"
    ultimately have "fund_next F (At_net m target k) w = (Ret p', w')" by simp
    from At_net_nextE [OF this] net_calls_left_pos [of k] At_net show ?thesis
      by cases (auto dest: net_next_calls)
  qed (auto simp: Let_def io_bind_Ret_iff io_return_apply split: option.splits if_splits)
qed auto

text \<open>What \<open>get\<close> does after \<open>CheckAndFetchData\<close>.\<close>

definition presign_and_cache :: "'w fundamentals_deps \<Rightarrow> presigned_url_model \<Rightarrow> ('w, presigned_url_model) io" where
  "presign_and_cache F m =
     io_bind (generatePresignedUrl (fd_s3 F) (fd_s3_config F) FUNDAMENTALS_BUCKET_NAME (fundamentals_location (pm_sravzid m)))
       (\<lambda>url. io_bind (RedisClient_set_with_expiry (fd_redis F) (fundamentals_location (pm_sravzid m)) url KEY_EXPIRY_IN_SECONDS)
         (\<lambda>_. io_return (m\<lparr>pm_url := url\<rparr>)))"

lemma answered_run: "calls_run (fund_program F) n (Fund_answered m) = io_return (Fund_answered m)"
  by (rule fund_calls.final_run) simp

lemma fund_run_Suc: "calls_run (fund_program F) (Suc n) p = io_bind (fund_next F p) (calls_run (fund_program F) n)"
  by simp

lemmas fund_cut = fund_run_Suc fund_next.simps io_bind_assoc io_bind_return_left io_bind_case Let_def

lemma presign_run:
  "calls_run (fund_program F) (Suc (Suc n)) (At_presign m there) = io_bind (presign_and_cache F m) (\<lambda>m'. io_return (Fund_answered m'))"
  unfolding fund_cut presign_and_cache_def answered_run ..

lemma put_run:
  "calls_run (fund_program F) (Suc (Suc (Suc n))) (At_put m response) =
     io_bind (putObject (fd_s3 F) (fd_s3_config F) FUNDAMENTALS_BUCKET_NAME (fundamentals_location (pm_sravzid m)) response)
       (\<lambda>_. io_bind (presign_and_cache F m) (\<lambda>m'. io_return (Fund_answered m')))"
  unfolding fund_run_Suc [of F "Suc (Suc n)"] fund_next.simps io_bind_assoc io_bind_return_left presign_run ..

text \<open>The operations of a download in a row, with the wait for the promise, are the coroutine and \<open>future.get()\<close>.\<close>

lemma io_bind_blocked: "io_bind (io_lift Blocked) f = io_lift Blocked"
  by (rule ext) (simp add: io_bind_def io_lift_def)

lemma io_bind_prod: "io_bind (case x of (a, b) \<Rightarrow> f a b) g = (case x of (a, b) \<Rightarrow> io_bind (f a b) g)"
  by (simp split: prod.split)

lemma net_continue_bind:
  "(case net_continue k ec of None \<Rightarrow> io_bind (io_lift Blocked) g
     | Some x \<Rightarrow> io_bind (case x of Inl k' \<Rightarrow> io_return (At_net m target k') | Inr response \<Rightarrow> io_return (At_put m response)) g) =
   (case ec of None \<Rightarrow> g (At_net m target k) | Some _ \<Rightarrow> io_lift Blocked)"
  by (simp add: net_continue_def io_bind_blocked split: option.split)

abbreviation at_net_run :: "'w fundamentals_deps \<Rightarrow> nat \<Rightarrow> presigned_url_model \<Rightarrow> string \<Rightarrow> net_pc \<Rightarrow> ('w, fund_pc) io" where
  "at_net_run F n m target k \<equiv> calls_run (fund_program F) n (At_net m target k)"

lemma shutdown_run:
  "at_net_run F (Suc n) m target (Net_shutdown body) = io_bind (nt_shutdown (fd_net F)) (\<lambda>_. calls_run (fund_program F) n (At_put m body))"
  unfolding fund_cut net_next.simps by simp

lemma read_run:
  "at_net_run F (Suc n) m target Net_read =
     io_bind (nt_read (fd_net F)) (\<lambda>(ec, body).
       case ec of None \<Rightarrow> at_net_run F n m target (Net_shutdown body) | Some _ \<Rightarrow> io_lift Blocked)"
  unfolding fund_cut net_next.simps io_bind_prod net_continue_bind ..

lemma write_run:
  "at_net_run F (Suc n) m target Net_write =
     io_bind (nt_write (fd_net F) \<lparr>rq_target = target, rq_version = 11, rq_host = HOSTNAME, rq_user_agent = fd_user_agent F\<rparr>)
       (\<lambda>ec. case ec of None \<Rightarrow> at_net_run F n m target Net_read | Some _ \<Rightarrow> io_lift Blocked)"
  "at_net_run F (Suc n) m target Net_handshake =
     io_bind (nt_handshake (fd_net F)) (\<lambda>ec. case ec of None \<Rightarrow> at_net_run F n m target Net_write | Some _ \<Rightarrow> io_lift Blocked)"
  "at_net_run F (Suc n) m target Net_connect =
     io_bind (nt_connect (fd_net F)) (\<lambda>ec. case ec of None \<Rightarrow> at_net_run F n m target Net_handshake | Some _ \<Rightarrow> io_lift Blocked)"
  "at_net_run F (Suc n) m target Net_resolve =
     io_bind (nt_resolve (fd_net F) HOSTNAME PORT) (\<lambda>ec. case ec of None \<Rightarrow> at_net_run F n m target Net_connect | Some _ \<Rightarrow> io_lift Blocked)"
  unfolding fund_cut net_next.simps net_continue_bind by (rule refl)+

lemma sni_run:
  "at_net_run F (Suc n) m target Net_sni =
     io_bind (nt_set_sni (fd_net F) HOSTNAME)
       (\<lambda>sni_ok. if \<not> sni_ok then io_lift Blocked else at_net_run F n m target Net_resolve)"
  unfolding fund_cut net_next.simps option.case sum.case io_bind_blocked ..

lemma future_get_bind:
  "io_bind (future_get p) f = (case p of None \<Rightarrow> io_lift Blocked | Some v \<Rightarrow> f v)"
  by (simp add: future_get_def io_bind_blocked split: option.split)

lemma download_run:
  "at_net_run F (Suc (Suc (Suc (Suc (Suc (Suc (Suc n))))))) m target Net_sni =
     io_bind (httpGet_promise (fd_net F) (fd_user_agent F) target)
       (\<lambda>promise. io_bind (future_get promise) (\<lambda>response. calls_run (fund_program F) n (At_put m response)))"
proof -
  have net: "io_bind (net_step c k) f = io_bind c (\<lambda>ec. case ec of None \<Rightarrow> io_bind k f | Some _ \<Rightarrow> f None)"
    for c and k :: "('a, string option) io" and f :: "string option \<Rightarrow> ('a, fund_pc) io"
    unfolding net_step_def io_bind_assoc io_bind_case io_bind_return_left by (simp add: option.case_eq_if)
  show ?thesis
    unfolding httpGet_promise_def httpGet_coroutine_def io_bind_assoc io_bind_case net io_bind_return_left future_get_bind
      io_bind_prod option.case sni_run write_run read_run shutdown_run
    by (simp add: io_bind_prod case_prod_unfold option.case_eq_if cong: if_cong)
qed

lemma fetch_run:
  "calls_run (fund_program F) (Suc (Suc (Suc (Suc (Suc (Suc (Suc (Suc (Suc (Suc (Suc n))))))))))) (At_fetch m) =
     io_bind (FetchDataAndSaveToS3 F (pm_sravzid m) (fundamentals_location (pm_sravzid m)))
       (\<lambda>_. io_bind (presign_and_cache F m) (\<lambda>m'. io_return (Fund_answered m')))"
  unfolding fund_run_Suc [of F "Suc (Suc (Suc (Suc (Suc (Suc (Suc (Suc (Suc (Suc n)))))))))"] fund_next.simps Let_def
    io_bind_assoc io_bind_return_left download_run put_run FetchDataAndSaveToS3_def ..

lemma presign_run': "calls_run (fund_program F) 11 (At_presign m there) = io_bind (presign_and_cache F m) (\<lambda>m'. io_return (Fund_answered m'))"
  using presign_run [of F 9 m there] by (simp add: eval_nat_numeral del: calls_run.simps)

lemma fetch_run': "calls_run (fund_program F) 11 (At_fetch m) =
     io_bind (FetchDataAndSaveToS3 F (pm_sravzid m) (fundamentals_location (pm_sravzid m)))
       (\<lambda>_. io_bind (presign_and_cache F m) (\<lambda>m'. io_return (Fund_answered m')))"
  using fetch_run [of F 0 m] by (simp add: eval_nat_numeral del: calls_run.simps)

lemma check_run:
  "calls_run (fund_program F) (Suc 11) (At_check m) =
     io_bind (CheckAndFetchData F (pm_sravzid m) (fundamentals_location (pm_sravzid m)))
       (\<lambda>_. io_bind (presign_and_cache F m) (\<lambda>m'. io_return (Fund_answered m')))"
  unfolding fund_run_Suc fund_next.simps CheckAndFetchData_def io_bind_assoc io_bind_return_left io_bind_case
    fetch_run' presign_run' ..

lemma get_run:
  "calls_run (fund_program F) 13 (At_get m) = io_bind (FundamentalsController_get F m) (\<lambda>m'. io_return (Fund_answered m'))"
proof -
  have "calls_run (fund_program F) (Suc (Suc 11)) (At_get m) = io_bind (FundamentalsController_get F m) (\<lambda>m'. io_return (Fund_answered m'))"
    unfolding fund_run_Suc [of F "Suc 11"] fund_next.simps FundamentalsController_get_def Let_def
      io_bind_assoc io_bind_return_left io_bind_case answered_run check_run presign_and_cache_def ..
  then show ?thesis by (simp add: eval_nat_numeral del: calls_run.simps)
qed

section \<open>What calls keep\<close>

lemma services_lawsD:
  assumes "services_laws F cache stored signs"
  shows "rd_get (fd_redis F) k w = (Ret r, w') \<Longrightarrow> cache w' k = r"
    and "s3_HeadObject (fd_s3 F) (fd_s3_config F) b k w = (Ret True, w') \<Longrightarrow> (b, k) \<in> stored w'"
    and "s3_PutObject (fd_s3 F) (fd_s3_config F) req w = (Ret True, w') \<Longrightarrow> (put_bucket req, put_key req) \<in> stored w'"
    and "s3_GeneratePresignedUrl (fd_s3 F) (fd_s3_config F) b k w = (Ret url, w') \<Longrightarrow> signs b k url"
  using assms unfolding services_laws_def by simp_all blast+

context world_change
begin

lemma keeps_net_next: "net_ops_keep rel N \<Longrightarrow> keeps rel (net_next N ua target k)"
  by (cases k) (auto simp: net_ops_keep_def intro!: keeps_intros)

end

text \<open>Only the last call adds to the cache.\<close>

lemma fund_next_keeps:
  assumes "services_laws F cache stored signs" and "\<forall>m url. p \<noteq> At_cache m url"
  shows "keeps_all cache stored (fund_next F p)"
proof (cases p)
  case (At_get m)
  with assms(1) show ?thesis
    by (auto simp: services_laws_def RedisClient_get_def intro!: services_grow.keeps_intros)
next
  case (At_check m)
  with assms(1) show ?thesis
    by (auto simp: services_laws_def objectExists_def Let_def intro!: services_grow.keeps_intros)
next
  case (At_fetch m)
  with assms(1) show ?thesis
    by (auto simp: Let_def intro!: services_grow.keeps_intros)
next
  case (At_net m target k)
  with assms(1) show ?thesis
    by (auto simp: services_laws_def intro!: services_grow.keeps_intros services_grow.keeps_net_next)
next
  case (At_put m response)
  with assms(1) show ?thesis
    by (auto simp: services_laws_def putObject_def intro!: services_grow.keeps_intros)
next
  case (At_presign m there)
  with assms(1) show ?thesis
    by (auto simp: services_laws_def generatePresignedUrl_def intro!: services_grow.keeps_intros)
qed (use assms(2) in \<open>auto intro: services_grow.keeps_intros\<close>)

lemma fund_next_cache:
  assumes "services_laws F cache stored signs" and "fund_next F p w = (r, w')"
  shows "stored w \<subseteq> stored w' \<and>
    (\<forall>k url. cache w' k = Some url \<longrightarrow>
       cache w k = Some url \<or> (\<exists>m. p = At_cache m url \<and> k = fundamentals_location (pm_sravzid m)))"
proof (cases "\<exists>m url. p = At_cache m url")
  case True
  then obtain m url where p: "p = At_cache m url" by blast
  let ?loc = "fundamentals_location (pm_sravzid m)"
  let ?set = "rd_set_ex (fd_redis F) ?loc url KEY_EXPIRY_IN_SECONDS w"
  have "w' = snd ?set"
    using assms(2) by (auto simp: p RedisClient_set_with_expiry_def io_bind_def io_return_def split: prod.splits outcome.splits)
  with assms(1) have w': "cache w' \<subseteq>\<^sub>m (cache w)(?loc \<mapsto> url)" "stored w \<subseteq> stored w'"
    by (simp_all add: services_laws_def)
  have "cache w k = Some v \<or> v = url \<and> k = ?loc" if "cache w' k = Some v" for k v
  proof -
    have "((cache w)(?loc \<mapsto> url)) k = Some v" using w'(1) that by (auto simp: map_le_def dom_def)
    then show ?thesis by (auto split: if_splits)
  qed
  with w'(2) p show ?thesis by blast
next
  case False
  with fund_next_keeps [OF assms(1), of p] have "keeps_all cache stored (fund_next F p)" by blast
  from keepsD [OF this assms(2)] have "cache w' \<subseteq>\<^sub>m cache w" "stored w \<subseteq> stored w'" by (simp_all add: services_grow_def)
  then show ?thesis by (auto simp: map_le_def dom_def)
qed

section \<open>Invariant\<close>

text \<open>A URL that may be handed out for a location: presigned for it, and the object is there unless its put failed.\<close>

definition url_ok ::
    "(string \<times> string) set \<Rightarrow> (string \<Rightarrow> string \<Rightarrow> string \<Rightarrow> bool) \<Rightarrow> string set \<Rightarrow> string \<Rightarrow> string \<Rightarrow> bool" where
  "url_ok objs signs refused loc url \<longleftrightarrow>
     signs FUNDAMENTALS_BUCKET_NAME loc url \<and> ((FUNDAMENTALS_BUCKET_NAME, loc) \<in> objs \<or> loc \<in> refused)"

fun pc_ok :: "(string \<times> string) set \<Rightarrow> (string \<Rightarrow> string \<Rightarrow> string \<Rightarrow> bool) \<Rightarrow> string set \<Rightarrow> fund_pc \<Rightarrow> bool" where
  "pc_ok objs signs refused (At_presign m there) =
     (if there then (FUNDAMENTALS_BUCKET_NAME, fundamentals_location (pm_sravzid m)) \<in> objs
      else fundamentals_location (pm_sravzid m) \<in> refused)"
| "pc_ok objs signs refused (At_cache m url) = url_ok objs signs refused (fundamentals_location (pm_sravzid m)) url"
| "pc_ok objs signs refused (Fund_answered m) = url_ok objs signs refused (fundamentals_location (pm_sravzid m)) (pm_url m)"
| "pc_ok objs signs refused _ = True"

definition cache_ok ::
    "(string \<Rightarrow> string option) \<Rightarrow> (string \<times> string) set \<Rightarrow> (string \<Rightarrow> string \<Rightarrow> string \<Rightarrow> bool) \<Rightarrow> string set \<Rightarrow> bool" where
  "cache_ok c objs signs refused \<longleftrightarrow>
     (\<forall>f url. c (fundamentals_location f) = Some url \<longrightarrow> url_ok objs signs refused (fundamentals_location f) url)"

lemma url_ok_mono: "url_ok objs signs refused loc url \<Longrightarrow> objs \<subseteq> objs' \<Longrightarrow> refused \<subseteq> refused' \<Longrightarrow> url_ok objs' signs refused' loc url"
  by (auto simp: url_ok_def)

lemma pc_ok_mono: "pc_ok objs signs refused p \<Longrightarrow> objs \<subseteq> objs' \<Longrightarrow> refused \<subseteq> refused' \<Longrightarrow> pc_ok objs' signs refused' p"
  by (cases p) (auto simp: url_ok_mono split: if_splits)

lemma cache_ok_step:
  assumes "cache_ok c objs signs refused" and "objs \<subseteq> objs'" and "refused \<subseteq> refused'" and "pc_ok objs signs refused p"
    and "\<forall>k url. c' k = Some url \<longrightarrow> c k = Some url \<or> (\<exists>m. p = At_cache m url \<and> k = fundamentals_location (pm_sravzid m))"
  shows "cache_ok c' objs' signs refused'"
  unfolding cache_ok_def
proof (intro allI impI)
  fix f url
  assume "c' (fundamentals_location f) = Some url"
  with assms(1,4,5) have "url_ok objs signs refused (fundamentals_location f) url"
    by (fastforce simp: cache_ok_def)
  then show "url_ok objs' signs refused' (fundamentals_location f) url" using assms(2,3) by (rule url_ok_mono)
qed

text \<open>The state a call leads to.\<close>

lemma fund_next_ok:
  assumes laws: "services_laws F cache stored signs" and "fund_next F p w = (Ret p', w')"
    and ok: "pc_ok (stored w) signs (refused_puts S) p" and cached: "cache_ok (cache w) (stored w) signs (refused_puts S)"
  shows "pc_ok (stored w') signs (refused_puts (insert p' S)) p'"
proof (cases p)
  case (At_get m)
  with assms(2) obtain r where r: "rd_get (fd_redis F) (fundamentals_location (pm_sravzid m)) w = (Ret r, w')"
    "p' = (case r of Some url \<Rightarrow> Fund_answered (m\<lparr>pm_url := url\<rparr>) | None \<Rightarrow> At_check m)"
    by (auto simp: RedisClient_get_def io_bind_Ret_iff io_return_apply split: option.splits)
  show ?thesis
  proof (cases r)
    case (Some url)
    from services_lawsD(1) [OF laws r(1)] have "cache w' (fundamentals_location (pm_sravzid m)) = Some url"
      by (simp add: Some)
    with fund_next_cache [OF laws assms(2)] At_get have stored: "stored w \<subseteq> stored w'"
      and "cache w (fundamentals_location (pm_sravzid m)) = Some url" by auto
    with cached have "url_ok (stored w) signs (refused_puts S) (fundamentals_location (pm_sravzid m)) url"
      by (simp add: cache_ok_def)
    from url_ok_mono [OF this stored] show ?thesis by (simp add: r(2) Some)
  qed (simp add: r(2))
next
  case (At_check m)
  with services_lawsD(2) [OF laws] assms(2) show ?thesis
    by (auto simp: objectExists_def Let_def io_bind_Ret_iff io_return_apply split: if_splits)
next
  case (At_fetch m)
  with assms(2) show ?thesis by (auto simp: io_bind_Ret_iff io_return_apply Let_def)
next
  case (At_net m target k)
  with assms(2) have "fund_next F (At_net m target k) w = (Ret p', w')" by simp
  then show ?thesis by (cases rule: At_net_nextE) simp_all
next
  case (At_put m response)
  with assms(2) obtain success where put: "s3_PutObject (fd_s3 F) (fd_s3_config F)
      \<lparr>put_bucket = FUNDAMENTALS_BUCKET_NAME, put_key = fundamentals_location (pm_sravzid m), put_body = response,
       put_content_encoding = None, put_content_type = None\<rparr> w = (Ret success, w')" "p' = At_presign m success"
    by (auto simp: putObject_def io_bind_Ret_iff io_return_apply split: if_splits)
  show ?thesis
  proof (cases success)
    case True
    with put(1) have "(FUNDAMENTALS_BUCKET_NAME, fundamentals_location (pm_sravzid m)) \<in> stored w'"
      using services_lawsD(3) [OF laws, of _ w w'] by fastforce
    with True show ?thesis by (simp add: put(2))
  qed (simp add: put(2) refused_puts_def)
next
  case (At_presign m there)
  with assms(2) obtain url where url:
    "s3_GeneratePresignedUrl (fd_s3 F) (fd_s3_config F) FUNDAMENTALS_BUCKET_NAME (fundamentals_location (pm_sravzid m)) w = (Ret url, w')"
    "p' = At_cache m url" by (auto simp: generatePresignedUrl_def io_bind_Ret_iff io_return_apply)
  from services_lawsD(4) [OF laws url(1)] have "signs FUNDAMENTALS_BUCKET_NAME (fundamentals_location (pm_sravzid m)) url" .
  with ok At_presign fund_next_cache [OF laws assms(2)] show ?thesis
    by (auto simp: url(2) url_ok_def split: if_splits)
next
  case (At_cache m url)
  with assms(2) have p': "p' = Fund_answered (m\<lparr>pm_url := url\<rparr>)" by (auto simp: io_bind_Ret_iff io_return_apply)
  from ok At_cache have "url_ok (stored w) signs (refused_puts S) (fundamentals_location (pm_sravzid m)) url" by simp
  with fund_next_cache [OF laws assms(2)] show ?thesis by (auto simp: p' elim: url_ok_mono)
next
  case (Fund_answered m)
  with ok assms(2) show ?thesis by (auto simp: io_return_apply elim: url_ok_mono)
qed (use assms(2) in \<open>auto simp: io_return_apply\<close>)

interpretation fund_guard: guarded_program "fund_program F" "\<lambda>p. True" "\<lambda>w w'. stored w \<subseteq> stored w'"
    "\<lambda>w S. services_laws F cache stored signs \<and> cache_ok (cache w) (stored w) signs (refused_puts S)"
    "\<lambda>w S. pc_ok (stored w) signs (refused_puts S)"
  for F :: "'w fundamentals_deps" and cache stored signs
proof unfold_locales
  fix w w' :: 'w and p p' r S S'
  show "pc_ok (stored w) signs (refused_puts S) p \<Longrightarrow> stored w \<subseteq> stored w' \<Longrightarrow> S \<subseteq> S' \<Longrightarrow> pc_ok (stored w') signs (refused_puts S') p"
    by (erule pc_ok_mono, assumption, erule refused_puts_mono)
  show "services_laws F cache stored signs \<and> cache_ok (cache w) (stored w) signs (refused_puts S) \<Longrightarrow> S \<subseteq> S' \<Longrightarrow>
      services_laws F cache stored signs \<and> cache_ok (cache w) (stored w) signs (refused_puts S')"
    using url_ok_mono [OF _ subset_refl refused_puts_mono] by (fastforce simp: cache_ok_def)
  assume prems: "services_laws F cache stored signs \<and> cache_ok (cache w) (stored w) signs (refused_puts S)" "pc_ok (stored w) signs (refused_puts S) p"
  show "stored w \<subseteq> stored w' \<and> services_laws F cache stored signs \<and> cache_ok (cache w') (stored w') signs (refused_puts S)"
    if "pg_next (fund_program F) p w = (r, w')"
    using prems fund_next_cache [of F cache stored signs p w r w'] that
    by (auto intro: cache_ok_step [OF _ _ subset_refl])
  show "pc_ok (stored w') signs (refused_puts (insert p' S)) p'" if "pg_next (fund_program F) p w = (Ret p', w')"
    using prems that by (intro fund_next_ok [of F cache stored signs p w p' w']) simp_all
qed auto

section \<open>Properties\<close>

text \<open>
  Cut at its service calls, the function is the same. Thirteen steps of a request in a row are
  \<open>FundamentalsController::get\<close>, and in the system of all requests a request that nobody disturbs
  leaves the services as \<open>get\<close> does and ends as it does: answered with its model, failed with its
  exception, or waiting for ever.
\<close>
theorem calls_are_the_controller:
  assumes "cs_requests s i = Some (At_get m)" and "FundamentalsController_get F m (cs_world s) = (r, w')" and "r \<noteq> Abort"
  shows "calls_run (fund_program F) 13 (At_get m) = io_bind (FundamentalsController_get F m) (\<lambda>m'. io_return (Fund_answered m')) \<and>
    (\<exists>is u. call_steps (fund_program F) s is u \<and> set is \<subseteq> {i} \<and> cs_world u = w' \<and>
      cs_requests u = (cs_requests s)(i \<mapsto>
        (case r of Ret m' \<Rightarrow> Fund_answered m' | Throw e \<Rightarrow> Fund_failed e | _ \<Rightarrow> Fund_stuck)))"
proof -
  have six: "calls_run (fund_program F) 13 (At_get m) = io_bind (FundamentalsController_get F m) (\<lambda>m'. io_return (Fund_answered m'))"
    by (rule get_run)
  let ?q = "case r of Ret m' \<Rightarrow> Fund_answered m' | Throw e \<Rightarrow> Fund_failed e | _ \<Rightarrow> Fund_stuck"
  let ?r = "case r of Ret m' \<Rightarrow> Ret (Fund_answered m') | Throw e \<Rightarrow> Throw e | Blocked \<Rightarrow> Blocked | Abort \<Rightarrow> Abort"
  have "calls_run (fund_program F) 13 (At_get m) (cs_world s) = (?r, w')"
    unfolding six using assms(2) by (cases r) (simp_all add: io_bind_def io_return_def)
  from fund_calls.undisturbed_run [OF assms(1) this, of ?q] assms(3) six show ?thesis by (cases r) auto
qed

text \<open>
  C13: handed-out URLs, however the workers interleave. At any time, every URL in the cache under
  the location of a fund and every URL a request was answered with is presigned for the object of
  that fund and of no other, and the object is in the store, unless a put of this very object was
  refused before, which the code ignores.
\<close>
theorem handed_out_urls_have_objects:
  assumes "services_laws F cache stored signs" and "cache_ok (cache w) (stored w) signs {}"
    and "call_steps (fund_program F) (new_call_system w) is s"
  shows "(cache (cs_world s) (fundamentals_location f) = Some url \<longrightarrow>
      signs FUNDAMENTALS_BUCKET_NAME (fundamentals_location f) url \<and>
      ((FUNDAMENTALS_BUCKET_NAME, fundamentals_location f) \<in> stored (cs_world s) \<or> fundamentals_location f \<in> refused_puts (cs_seen s))) \<and>
    (cs_requests s i = Some (Fund_answered m) \<longrightarrow>
      signs FUNDAMENTALS_BUCKET_NAME (fundamentals_location (pm_sravzid m)) (pm_url m) \<and>
      ((FUNDAMENTALS_BUCKET_NAME, fundamentals_location (pm_sravzid m)) \<in> stored (cs_world s) \<or>
       fundamentals_location (pm_sravzid m) \<in> refused_puts (cs_seen s)))"
  using fund_guard.reachable_ok [of F w "is" s cache stored signs] assms
  by (fastforce simp: fund_guard.all_admitted_def refused_puts_def cache_ok_def url_ok_def)

text \<open>
  The cost of a request. However requests interleave, one makes at most thirteen steps
  (seven of them are those of its download); after thirteen it has ended, and before it has ended it can always go on,
  unless the next call brings the process down.
\<close>
theorem request_calls_bounded:
  assumes "call_steps (fund_program F) (new_call_system w) is s"
  shows "count_list is i \<le> 13 \<and> (count_list is i = 13 \<longrightarrow> (\<exists>p. cs_requests s i = Some p \<and> fund_final p)) \<and>
    (\<forall>p. cs_requests s i = Some p \<and> \<not> fund_final p \<and> fst (fund_next F p (cs_world s)) \<noteq> Abort \<longrightarrow>
      (\<exists>t. call_step (fund_program F) s (Some i) t))"
  using fund_calls.calls_bounded [OF assms, of i] call_step_possible [of s i _ "fund_program F"] by auto

text \<open>Services that keep a map and a set, with a download that always works.\<close>

type_synonym shelf = "(string \<Rightarrow> string option) \<times> (string \<times> string) set"

definition shelf_services :: "shelf fundamentals_deps" where
  "shelf_services =
     \<lparr>fd_s3 = \<lparr>s3_PutObject = (\<lambda>cfg r (c, d). (Ret True, (c, insert (put_bucket r, put_key r) d))),
               s3_GetObject = (\<lambda>cfg b k. io_return None), s3_ListObjects = (\<lambda>cfg b. io_return None),
               s3_DeleteObject = (\<lambda>cfg b k. io_return False),
               s3_HeadObject = (\<lambda>cfg b k (c, d). (Ret ((b, k) \<in> d), (c, d))),
               s3_SelectObjectContent = (\<lambda>cfg r. io_return ([], True)),
               s3_GeneratePresignedUrl = (\<lambda>cfg b k. io_return k)\<rparr>,
      fd_s3_config = default_s3_config,
      fd_redis = \<lparr>rd_get = (\<lambda>k (c, d). (Ret (c k), (c, d))), rd_set = (\<lambda>k v (c, d). (Ret True, (c(k \<mapsto> v), d))),
                  rd_set_ex = (\<lambda>k v n (c, d). (Ret True, (c(k \<mapsto> v), d)))\<rparr>,
      fd_net = \<lparr>nt_set_sni = (\<lambda>h. io_return True), nt_resolve = (\<lambda>h p. io_return None), nt_connect = io_return None,
                nt_handshake = io_return None, nt_write = (\<lambda>r. io_return None), nt_read = io_return (None, ''{}''),
                nt_shutdown = io_return None\<rparr>,
      fd_provider = \<lparr>EODHISTORICALDATA_API_KEY2 = ''k'', EODHISTORICALDATA_API_KEY = ''k''\<rparr>, fd_user_agent = ''B''\<rparr>"

lemma shelf_laws: "services_laws shelf_services fst snd (\<lambda>b k url. url = k)"
  by (auto simp: services_laws_def net_ops_keep_def shelf_services_def keeps_def services_grow_def io_return_def)

definition shelf_fund :: presigned_url_model where
  "shelf_fund = FundamentalsController_validate_request (PreSignedUrlModel [''sravzid'' \<mapsto> ''fund_us_abc''])"

definition shelf_start :: "(shelf, fund_pc) call_system" where
  "shelf_start = moved 0 (At_get shelf_fund) (Map.empty, {}) (new_call_system (Map.empty, {}))"

lemma shelf_arrival: "call_steps (fund_program shelf_services) (new_call_system (Map.empty, {})) [] shelf_start"
proof -
  have "call_step (fund_program shelf_services) (new_call_system (Map.empty, {})) None shelf_start"
    using request_posted [of "new_call_system (Map.empty, {})" 0 "fund_program shelf_services" "At_get shelf_fund"]
    by (auto simp: shelf_start_def shelf_fund_def)
  from call_steps_more [OF call_steps_none this] show ?thesis by simp
qed

lemma shelf_sravzid: "pm_sravzid shelf_fund = ''fund_us_abc''"
  by (simp add: shelf_fund_def FundamentalsController_validate_request_def set_param_def PreSignedUrlModel_def BaseModel_def base_model.defs)

lemma shelf_get:
  "\<exists>w'. FundamentalsController_get shelf_services shelf_fund (Map.empty, {}) =
     (Ret (shelf_fund\<lparr>pm_url := fundamentals_location ''fund_us_abc''\<rparr>), w')"
proof -
  have "ConvertMutualFundSravzIDToCode ''fund_us_abc'' = Ret (ToUpper ''abc'' @ ''.'' @ ToUpper ''us'')"
    using ConvertMutualFundSravzIDToCode_join3 [of "''fund''" "''us''" "''abc''"] by (simp del: ToUpper.simps)
  then show ?thesis
    unfolding FundamentalsController_get_def Let_def shelf_sravzid
    by (simp add: shelf_services_def RedisClient_get_def CheckAndFetchData_def objectExists_def FetchDataAndSaveToS3_def
        Let_def httpGet_promise_def httpGet_coroutine_def net_step_def future_get_def putObject_def generatePresignedUrl_def
        RedisClient_set_with_expiry_def io_bind_def io_return_def io_lift_def)
qed

theorem calls_are_the_controller_witness:
  "\<exists>is u. call_steps (fund_program shelf_services) shelf_start is u \<and>
     cs_requests u 0 = Some (Fund_answered (shelf_fund\<lparr>pm_url := fundamentals_location ''fund_us_abc''\<rparr>))"
proof -
  obtain w' where get: "FundamentalsController_get shelf_services shelf_fund (cs_world shelf_start) =
     (Ret (shelf_fund\<lparr>pm_url := fundamentals_location ''fund_us_abc''\<rparr>), w')"
    using shelf_get by (auto simp: shelf_start_def)
  have "cs_requests shelf_start 0 = Some (At_get shelf_fund)" by (simp add: shelf_start_def)
  from calls_are_the_controller [OF this get] show ?thesis by fastforce
qed

lemma shelf_answered:
  "\<exists>is u. call_steps (fund_program shelf_services) (new_call_system (Map.empty, {})) is u \<and>
     cs_requests u 0 = Some (Fund_answered (shelf_fund\<lparr>pm_url := fundamentals_location ''fund_us_abc''\<rparr>))"
proof -
  let ?q = "Fund_answered (shelf_fund\<lparr>pm_url := fundamentals_location ''fund_us_abc''\<rparr>)"
  obtain w' where "calls_run (fund_program shelf_services) 13 (At_get shelf_fund) (cs_world shelf_start) = (Ret ?q, w')"
    using shelf_get unfolding get_run by (auto simp: shelf_start_def io_bind_def io_return_def)
  from fund_calls.undisturbed_run [OF _ this, of 0 ?q] obtain "is" u where
    u: "call_steps (fund_program shelf_services) shelf_start is u" "cs_requests u 0 = Some ?q" by (auto simp: shelf_start_def)
  from call_steps_trans [OF u(1) shelf_arrival] u(2) show ?thesis by blast
qed

theorem handed_out_urls_have_objects_witness:
  "\<exists>is s. call_steps (fund_program shelf_services) (new_call_system (Map.empty, {})) is s \<and>
     cs_requests s 0 = Some (Fund_answered (shelf_fund\<lparr>pm_url := fundamentals_location ''fund_us_abc''\<rparr>)) \<and>
     ((FUNDAMENTALS_BUCKET_NAME, fundamentals_location ''fund_us_abc'') \<in> snd (cs_world s) \<or>
      fundamentals_location ''fund_us_abc'' \<in> refused_puts (cs_seen s)) \<and>
     (\<forall>f url. fst (cs_world s) (fundamentals_location f) = Some url \<longrightarrow> url = fundamentals_location f)"
proof -
  from shelf_answered obtain "is" u where u: "call_steps (fund_program shelf_services) (new_call_system (Map.empty, {})) is u"
    "cs_requests u 0 = Some (Fund_answered (shelf_fund\<lparr>pm_url := fundamentals_location ''fund_us_abc''\<rparr>))" by blast
  have "cache_ok (fst (Map.empty, {})) (snd (Map.empty, {})) (\<lambda>b k url. url = k) {}" by (simp add: cache_ok_def)
  from handed_out_urls_have_objects [OF shelf_laws this u(1), of _ _ 0] u show ?thesis
    by (intro exI [of _ "is"] exI [of _ u]) (fastforce simp: shelf_sravzid)
qed

theorem request_calls_bounded_witness:
  "\<exists>t. call_step (fund_program shelf_services) shelf_start (Some 0) t"
proof -
  have "cs_requests shelf_start 0 = Some (At_get shelf_fund)" "\<not> fund_final (At_get shelf_fund)"
    "fst (fund_next shelf_services (At_get shelf_fund) (cs_world shelf_start)) \<noteq> Abort"
    by (simp_all add: shelf_start_def fund_final_def shelf_services_def RedisClient_get_def io_bind_def io_return_def)
  with request_calls_bounded [OF shelf_arrival, of 0] show ?thesis by blast
qed

end
