(* ===== verification/Duckdb_System.thy ===== *)
theory Duckdb_System
  imports Controllers Interleaved_Calls
begin

text \<open>
  Queries of parquet files on several background workers at once (\<open>src/controllers/duckdb_controller.cpp\<close>,
  \<open>src/services/duckdb_service.cpp\<close>). All workers share one in-memory database, and a worker looks for
  the table of its file, creates it when it is missing and selects from it: in between, other
  workers may do the same for the same table.
\<close>

section \<open>One request, call by call\<close>

datatype 'j duck_pc =
    Dk_check "'j duckdb_model"
  | Dk_presign "'j duckdb_model"
  | Dk_autoinstall "'j duckdb_model" string
  | Dk_autoload "'j duckdb_model" string
  | Dk_create "'j duckdb_model" string
  | Dk_recheck "'j duckdb_model"
  | Dk_select "'j duckdb_model"
  | Dk_answered "'j duckdb_model"
  | Dk_failed exn
  | Dk_stuck

definition model_table :: "('w, 'j) duckdb_deps \<Rightarrow> 'j duckdb_model \<Rightarrow> string" where
  "model_table D m = duck_table_name (dd_hash_value D) (dm_bucket m) (dm_key m)"

definition select_text :: "string \<Rightarrow> string \<Rightarrow> string" where
  "select_text t where_clause = ''SELECT to_json('' @ t @ '') FROM '' @ t @ '' WHERE '' @ where_clause"

fun duck_next :: "('w, 'j) duckdb_deps \<Rightarrow> 'j duck_pc \<Rightarrow> ('w, 'j duck_pc) io" where
  "duck_next D (Dk_check m) =
     io_bind (table_exists (dd_duckdb D) (model_table D m))
       (\<lambda>exists. if \<not> exists then io_return (Dk_presign m) else io_return (Dk_select m))"
| "duck_next D (Dk_presign m) =
     io_bind (generatePresignedUrl (dd_s3 D) (dd_s3_config D) (dm_bucket m) (dm_key m))
       (\<lambda>url. io_return (Dk_autoinstall m url))"
| "duck_next D (Dk_autoinstall m url) =
     io_bind (dk_query (dd_duckdb D) ''SET autoinstall_known_extensions=1;'') (\<lambda>_. io_return (Dk_autoload m url))"
| "duck_next D (Dk_autoload m url) =
     io_bind (dk_query (dd_duckdb D) ''SET autoload_known_extensions=1;'') (\<lambda>_. io_return (Dk_create m url))"
| "duck_next D (Dk_create m url) =
     io_bind (dk_query (dd_duckdb D) (replace_placeholder (create_statement (model_table D m)) url))
       (\<lambda>query_error. io_return (Dk_recheck m))"
| "duck_next D (Dk_recheck m) =
     io_bind (table_exists (dd_duckdb D) (model_table D m)) (\<lambda>_. io_return (Dk_select m))"
| "duck_next D (Dk_select m) =
     io_bind (dk_query_rows (dd_duckdb D) (select_text (model_table D m) (dm_where_clause m))) (\<lambda>rows.
       io_bind (io_lift (of_sum (parse_rows (dd_json D) rows))) (\<lambda>json_array.
         io_return (Dk_answered (m\<lparr>dm_db_query_result := json_array\<rparr>))))"
| "duck_next D p = io_return p"

fun duck_final :: "'j duck_pc \<Rightarrow> bool" where
  "duck_final (Dk_answered m) = True"
| "duck_final (Dk_failed e) = True"
| "duck_final Dk_stuck = True"
| "duck_final _ = False"

text \<open>A request starts with the model that the router has validated, with any where clause.\<close>

definition duck_program :: "('w, 'j) duckdb_deps \<Rightarrow> ('w, 'j duck_pc) program" where
  "duck_program D =
     \<lparr>pg_start = (\<lambda>p. \<exists>params. p = Dk_check (DuckDBController_validate_request (DuckDBModel params))),
      pg_next = duck_next D, pg_final = duck_final, pg_failed = Dk_failed, pg_stuck = Dk_stuck\<rparr>"

lemma duck_program_fields [simp]:
  "pg_next (duck_program D) = duck_next D" "pg_final (duck_program D) = duck_final"
  "pg_failed (duck_program D) = Dk_failed" "pg_stuck (duck_program D) = Dk_stuck"
  by (simp_all add: duck_program_def)

lemma duck_startE:
  assumes "pg_start (duck_program D) p"
  obtains m where "p = Dk_check m"
  using assms by (auto simp: duck_program_def)

fun duck_calls_left :: "'j duck_pc \<Rightarrow> nat" where
  "duck_calls_left (Dk_check m) = 7"
| "duck_calls_left (Dk_presign m) = 6"
| "duck_calls_left (Dk_autoinstall m url) = 5"
| "duck_calls_left (Dk_autoload m url) = 4"
| "duck_calls_left (Dk_create m url) = 3"
| "duck_calls_left (Dk_recheck m) = 2"
| "duck_calls_left (Dk_select m) = 1"
| "duck_calls_left _ = 0"

interpretation duck_calls: bounded_program "duck_program D" duck_calls_left 7
  for D :: "('w, 'j) duckdb_deps"
proof unfold_locales
  fix p p' :: "'j duck_pc" and w w' :: 'w
  show "pg_final (duck_program D) p \<Longrightarrow> pg_next (duck_program D) p = io_return p"
    and "duck_calls_left p = 0 \<longleftrightarrow> pg_final (duck_program D) p" by (cases p; simp)+
  show "pg_start (duck_program D) p \<Longrightarrow> duck_calls_left p \<le> 7" by (auto elim: duck_startE)
  show "pg_start (duck_program D) p \<Longrightarrow> \<not> pg_final (duck_program D) p" by (auto elim: duck_startE)
  show "pg_next (duck_program D) p w = (Ret p', w') \<Longrightarrow> \<not> pg_final (duck_program D) p \<Longrightarrow> \<not> pg_start (duck_program D) p'"
    by (cases p) (auto simp: io_bind_Ret_iff io_return_apply split: if_splits elim: duck_startE)
  show "pg_next (duck_program D) p w = (Ret p', w') \<Longrightarrow> \<not> pg_final (duck_program D) p \<Longrightarrow>
      duck_calls_left p' < duck_calls_left p"
    by (cases p) (auto simp: io_bind_Ret_iff io_return_apply split: if_splits)
qed auto

section \<open>One request alone\<close>

lemma duck_answered_run: "calls_run (duck_program D) n (Dk_answered m) = io_return (Dk_answered m)"
  by (rule duck_calls.final_run) simp

lemmas duck_cut = calls_run.simps(2) [of "duck_program D" for D] duck_program_fields(1) duck_next.simps
  io_bind_assoc io_bind_return_left duck_answered_run

lemma io_bind_branch: "io_bind (if b then m else n) f = (if b then io_bind m f else io_bind n f)"
  by simp

definition query_table :: "('w, 'j) duckdb_deps \<Rightarrow> 'j duckdb_model \<Rightarrow> ('w, 'j duckdb_model) io" where
  "query_table D m =
     io_bind (dk_query_rows (dd_duckdb D) (select_text (model_table D m) (dm_where_clause m))) (\<lambda>rows.
       io_bind (io_lift (of_sum (parse_rows (dd_json D) rows))) (\<lambda>json_array.
         io_return (m\<lparr>dm_db_query_result := json_array\<rparr>)))"

lemma select_run:
  "calls_run (duck_program D) (Suc n) (Dk_select m) = io_bind (query_table D m) (\<lambda>m'. io_return (Dk_answered m'))"
  unfolding duck_cut query_table_def ..

lemma check_run_duck:
  "calls_run (duck_program D) (Suc (Suc (Suc (Suc (Suc (Suc (Suc n))))))) (Dk_check m) =
     io_bind (CreateTableIfDoesNotExists (dd_duckdb D) (dd_s3 D) (dd_s3_config D) (dm_bucket m) (dm_key m)
                (model_table D m) (create_statement (model_table D m)))
       (\<lambda>_. io_bind (query_table D m) (\<lambda>m'. io_return (Dk_answered m')))"
proof -
  have presign: "calls_run (duck_program D) (Suc (Suc (Suc (Suc (Suc (Suc n)))))) (Dk_presign m) =
      io_bind (generatePresignedUrl (dd_s3 D) (dd_s3_config D) (dm_bucket m) (dm_key m)) (\<lambda>url.
        io_bind (dk_query (dd_duckdb D) ''SET autoinstall_known_extensions=1;'') (\<lambda>_.
        io_bind (dk_query (dd_duckdb D) ''SET autoload_known_extensions=1;'') (\<lambda>_.
        io_bind (dk_query (dd_duckdb D) (replace_placeholder (create_statement (model_table D m)) url)) (\<lambda>query_error.
        io_bind (table_exists (dd_duckdb D) (model_table D m)) (\<lambda>_.
        io_bind (query_table D m) (\<lambda>m'. io_return (Dk_answered m')))))))"
    unfolding duck_cut query_table_def ..
  show ?thesis
    unfolding calls_run.simps(2) [of "duck_program D" "Suc (Suc (Suc (Suc (Suc (Suc n)))))"] duck_program_fields(1)
      duck_next.simps(1) io_bind_assoc io_bind_branch io_bind_return_left presign select_run
      CreateTableIfDoesNotExists_def Let_def ..
qed

lemma query_table_get:
  "DuckDBController_get D m =
     io_bind (CreateTableIfDoesNotExists (dd_duckdb D) (dd_s3 D) (dd_s3_config D) (dm_bucket m) (dm_key m)
                (model_table D m) (create_statement (model_table D m))) (\<lambda>_. query_table D m)"
  by (simp add: DuckDBController_get_def DuckDBController_select_def duck_select_from_s3_parquet_file_def Let_def
      io_bind_assoc query_table_def model_table_def select_text_def)

lemma duck_get_run:
  "calls_run (duck_program D) 7 (Dk_check m) = io_bind (DuckDBController_get D m) (\<lambda>m'. io_return (Dk_answered m'))"
  using check_run_duck [of D 0 m] unfolding query_table_get io_bind_assoc
  by (simp add: numeral_eq_Suc del: calls_run.simps)

section \<open>What DuckDB and the object store promise\<close>

text \<open>
  \<open>tables\<close> maps a table of the database to the URL it was created from. Looking and setting options
  change no table, a CREATE can only add the table it names, and only when there is none; a SELECT
  with a plain where clause changes no table and fails without its table. The clause is part of the
  statement as the client sent it and the code does not look at it, so another clause may do anything: what is proved
  with these laws is about runs whose queries so far all came with a plain clause (\<open>plain_queries\<close>).
\<close>

definition create_text :: "string \<Rightarrow> string \<Rightarrow> string" where
  "create_text t url =
     ''CREATE TABLE '' @ t @ '' AS SELECT * FROM parquet_scan('' @ [CHR 0x27] @ url @ [CHR 0x27] @ '')''"

definition tables_stay :: "('w \<Rightarrow> string \<Rightarrow> string option) \<Rightarrow> 'w \<Rightarrow> 'w \<Rightarrow> bool" where
  "tables_stay tables w w' \<longleftrightarrow> tables w' = tables w"

interpretation tables_stay: world_change "tables_stay tables" for tables
  by unfold_locales (simp_all add: tables_stay_def)

abbreviation same_tables :: "('w \<Rightarrow> string \<Rightarrow> string option) \<Rightarrow> ('w, 'a) io \<Rightarrow> bool" where
  "same_tables tables \<equiv> keeps (tables_stay tables)"

definition duck_laws ::
    "('w, 'j) duckdb_deps \<Rightarrow> ('w \<Rightarrow> string \<Rightarrow> string option) \<Rightarrow> (string \<Rightarrow> string \<Rightarrow> string \<Rightarrow> bool) \<Rightarrow> (string \<Rightarrow> bool) \<Rightarrow> bool" where
  "duck_laws D tables signs plain \<longleftrightarrow>
     (\<forall>q t. same_tables tables (dk_query_exists (dd_duckdb D) q t)) \<and>
     (\<forall>t w b w'. table_exists (dd_duckdb D) t w = (Ret b, w') \<longrightarrow> b = (tables w t \<noteq> None)) \<and>
     same_tables tables (dk_query (dd_duckdb D) ''SET autoinstall_known_extensions=1;'') \<and>
     same_tables tables (dk_query (dd_duckdb D) ''SET autoload_known_extensions=1;'') \<and>
     (\<forall>t b k url w. signs b k url \<longrightarrow>
        tables (snd (dk_query (dd_duckdb D) (create_text t url) w)) = tables w \<or>
        tables w t = None \<and> tables (snd (dk_query (dd_duckdb D) (create_text t url) w)) = (tables w)(t \<mapsto> url)) \<and>
     (\<forall>t c. plain c \<longrightarrow> same_tables tables (dk_query_rows (dd_duckdb D) (select_text t c))) \<and>
     (\<forall>t c w rows w'. plain c \<and> dk_query_rows (dd_duckdb D) (select_text t c) w = (Ret rows, w') \<longrightarrow> tables w t \<noteq> None) \<and>
     (\<forall>b k. same_tables tables (s3_GeneratePresignedUrl (dd_s3 D) (dd_s3_config D) b k)) \<and>
     (\<forall>b k w url w'. s3_GeneratePresignedUrl (dd_s3 D) (dd_s3_config D) b k w = (Ret url, w') \<longrightarrow> signs b k url)"

lemma duck_lawsD:
  assumes "duck_laws D tables signs plain"
  shows "same_tables tables (table_exists (dd_duckdb D) t)"
    and "same_tables tables (dk_query (dd_duckdb D) ''SET autoinstall_known_extensions=1;'')"
    and "same_tables tables (dk_query (dd_duckdb D) ''SET autoload_known_extensions=1;'')"
    and "plain c \<Longrightarrow> same_tables tables (dk_query_rows (dd_duckdb D) (select_text t c))"
    and "plain c \<Longrightarrow> dk_query_rows (dd_duckdb D) (select_text t c) w = (Ret rows, w') \<Longrightarrow> tables w t \<noteq> None"
    and "same_tables tables (s3_GeneratePresignedUrl (dd_s3 D) (dd_s3_config D) b k)"
    and "s3_GeneratePresignedUrl (dd_s3 D) (dd_s3_config D) b k w = (Ret url, w') \<Longrightarrow> signs b k url"
    and "signs b k url \<Longrightarrow>
        tables (snd (dk_query (dd_duckdb D) (create_text t url) w)) = tables w \<or>
        tables w t = None \<and> tables (snd (dk_query (dd_duckdb D) (create_text t url) w)) = (tables w)(t \<mapsto> url)"
proof -
  have "\<forall>q. same_tables tables (dk_query_exists (dd_duckdb D) q t)" using assms by (simp add: duck_laws_def)
  then show "same_tables tables (table_exists (dd_duckdb D) t)"
    unfolding table_exists_def by (intro tables_stay.keeps_intros) auto
qed (use assms in \<open>unfold duck_laws_def, blast+\<close>)

lemma statement_text: "replace_placeholder (create_statement (model_table D m)) url = create_text (model_table D m) url"
  unfolding create_text_def by (rule placeholder_position) (simp add: model_table_def table_name_no_p)

section \<open>Invariant\<close>

text \<open>Every table was made from a presigned URL of a file whose table it is.\<close>

definition tables_ok :: "('w, 'j) duckdb_deps \<Rightarrow> (string \<Rightarrow> string option) \<Rightarrow> (string \<Rightarrow> string \<Rightarrow> string \<Rightarrow> bool) \<Rightarrow> bool" where
  "tables_ok D T signs \<longleftrightarrow>
     (\<forall>t url. T t = Some url \<longrightarrow> (\<exists>b k. t = duck_table_name (dd_hash_value D) b k \<and> signs b k url))"

fun duck_ok :: "('w, 'j) duckdb_deps \<Rightarrow> (string \<Rightarrow> string option) \<Rightarrow> (string \<Rightarrow> string \<Rightarrow> string \<Rightarrow> bool) \<Rightarrow>
    (string \<Rightarrow> bool) \<Rightarrow> 'j duck_pc \<Rightarrow> bool" where
  "duck_ok D T signs plain (Dk_check m) = plain (dm_where_clause m)"
| "duck_ok D T signs plain (Dk_presign m) = plain (dm_where_clause m)"
| "duck_ok D T signs plain (Dk_autoinstall m url) = (plain (dm_where_clause m) \<and> signs (dm_bucket m) (dm_key m) url)"
| "duck_ok D T signs plain (Dk_autoload m url) = (plain (dm_where_clause m) \<and> signs (dm_bucket m) (dm_key m) url)"
| "duck_ok D T signs plain (Dk_create m url) = (plain (dm_where_clause m) \<and> signs (dm_bucket m) (dm_key m) url)"
| "duck_ok D T signs plain (Dk_recheck m) = plain (dm_where_clause m)"
| "duck_ok D T signs plain (Dk_select m) = plain (dm_where_clause m)"
| "duck_ok D T signs plain (Dk_answered m) = (T (model_table D m) \<noteq> None)"
| "duck_ok D T signs plain p = True"

lemma duck_ok_mono: "duck_ok D T signs plain p \<Longrightarrow> T \<subseteq>\<^sub>m T' \<Longrightarrow> duck_ok D T' signs plain p"
  by (cases p) (auto simp: map_le_def dom_def)

text \<open>Only a CREATE changes the tables.\<close>

lemma duck_next_same:
  assumes "duck_laws D tables signs plain" and "duck_ok D (tables w) signs plain p" and "\<forall>m url. p \<noteq> Dk_create m url"
  shows "same_tables tables (duck_next D p)"
proof (cases p)
  case (Dk_create m url)
  with assms(3) show ?thesis by blast
qed (use assms(2) duck_lawsD [OF assms(1)] in \<open>auto simp: generatePresignedUrl_def intro!: tables_stay.keeps_intros\<close>)

lemma duck_next_tables:
  assumes laws: "duck_laws D tables signs plain" and ok: "duck_ok D (tables w) signs plain p" and "duck_next D p w = (r, w')"
  shows "tables w' = tables w \<or>
    (\<exists>m url. p = Dk_create m url \<and> tables w (model_table D m) = None \<and> tables w' = (tables w)(model_table D m \<mapsto> url))"
proof (cases "\<exists>m url. p = Dk_create m url")
  case True
  then obtain m url where p: "p = Dk_create m url" by blast
  have "w' = snd (dk_query (dd_duckdb D) (create_text (model_table D m) url) w)"
    using assms(3) unfolding p duck_next.simps statement_text
    by (auto simp: io_bind_def io_return_def split: prod.splits outcome.splits)
  moreover have "signs (dm_bucket m) (dm_key m) url" using ok by (simp add: p)
  ultimately show ?thesis using duck_lawsD(8) [OF laws, of "dm_bucket m" "dm_key m" url "model_table D m" w] p by auto
next
  case False
  with duck_next_same [OF laws ok] have "same_tables tables (duck_next D p)" by blast
  from keepsD [OF this assms(3)] show ?thesis by (simp add: tables_stay_def)
qed

lemma duck_next_grows:
  "duck_laws D tables signs plain \<Longrightarrow> duck_ok D (tables w) signs plain p \<Longrightarrow> duck_next D p w = (r, w') \<Longrightarrow> tables w \<subseteq>\<^sub>m tables w'"
  using duck_next_tables [of D tables signs plain w p r w'] by (auto simp: map_le_def)

lemma duck_next_tables_ok:
  assumes "duck_laws D tables signs plain" and "duck_ok D (tables w) signs plain p" and "duck_next D p w = (r, w')"
    and "tables_ok D (tables w) signs"
  shows "tables_ok D (tables w') signs"
  using duck_next_tables [OF assms(1-3)]
proof (elim disjE exE conjE)
  fix m url
  assume create: "p = Dk_create m url" "tables w' = (tables w)(model_table D m \<mapsto> url)"
  with assms(2) have "signs (dm_bucket m) (dm_key m) url" by simp
  then have "\<exists>b k. model_table D m = duck_table_name (dd_hash_value D) b k \<and> signs b k url" by (auto simp: model_table_def)
  with assms(4) show ?thesis by (simp add: tables_ok_def create(2))
qed (use assms(4) in simp)

lemma duck_next_ok:
  assumes laws: "duck_laws D tables signs plain" and ok: "duck_ok D (tables w) signs plain p" and "duck_next D p w = (Ret p', w')"
  shows "duck_ok D (tables w') signs plain p'"
proof (cases p)
  case (Dk_presign m)
  with assms(3) obtain url where
    "s3_GeneratePresignedUrl (dd_s3 D) (dd_s3_config D) (dm_bucket m) (dm_key m) w = (Ret url, w')" "p' = Dk_autoinstall m url"
    by (auto simp: generatePresignedUrl_def io_bind_Ret_iff io_return_apply)
  with duck_lawsD(7) [OF laws this(1)] ok Dk_presign show ?thesis by simp
next
  case (Dk_select m)
  with assms(3) obtain rows json_array w1 where rows: "dk_query_rows (dd_duckdb D) (select_text (model_table D m) (dm_where_clause m)) w = (Ret rows, w1)"
    and p': "p' = Dk_answered (m\<lparr>dm_db_query_result := json_array\<rparr>)"
    by (auto simp: io_bind_Ret_iff io_return_apply)
  have "tables w (model_table D m) \<noteq> None" using ok duck_lawsD(5) [OF laws _ rows] Dk_select by simp
  with duck_next_grows [OF laws ok assms(3)] show ?thesis
    by (auto simp: p' model_table_def map_le_def dom_def)
next
  case (Dk_answered m)
  with ok assms(3) show ?thesis by (auto simp: io_return_apply)
qed (use ok assms(3) in \<open>auto simp: io_bind_Ret_iff io_return_apply split: if_splits\<close>)

text \<open>The where clauses of all requests so far are plain.\<close>

definition plain_queries :: "('w, 'j) duckdb_deps \<Rightarrow> (string \<Rightarrow> bool) \<Rightarrow> 'j duck_pc set \<Rightarrow> bool" where
  "plain_queries D plain S \<longleftrightarrow> (\<forall>m. Dk_check m \<in> S \<and> pg_start (duck_program D) (Dk_check m) \<longrightarrow> plain (dm_where_clause m))"

interpretation duck_guard: guarded_program "duck_program D" "\<lambda>p. \<forall>m. p = Dk_check m \<longrightarrow> plain (dm_where_clause m)" "\<lambda>w w'. tables w \<subseteq>\<^sub>m tables w'"
    "\<lambda>w S. duck_laws D tables signs plain \<and> tables_ok D (tables w) signs"
    "\<lambda>w S. duck_ok D (tables w) signs plain"
  for plain and D :: "('w, 'j) duckdb_deps" and tables signs
proof unfold_locales
  fix w w' w'' :: 'w and p p' :: "'j duck_pc" and r and S S' :: "'j duck_pc set"
  show "tables w \<subseteq>\<^sub>m tables w' \<Longrightarrow> tables w' \<subseteq>\<^sub>m tables w'' \<Longrightarrow> tables w \<subseteq>\<^sub>m tables w''" by (rule map_le_trans)
  show "duck_ok D (tables w) signs plain p \<Longrightarrow> tables w \<subseteq>\<^sub>m tables w' \<Longrightarrow> S \<subseteq> S' \<Longrightarrow> duck_ok D (tables w') signs plain p"
    by (erule duck_ok_mono)
  show "pg_start (duck_program D) p \<Longrightarrow> \<forall>m. p = Dk_check m \<longrightarrow> plain (dm_where_clause m) \<Longrightarrow> duck_ok D (tables w) signs plain p"
    by (auto elim: duck_startE)
  assume prems: "duck_laws D tables signs plain \<and> tables_ok D (tables w) signs" "duck_ok D (tables w) signs plain p"
  show "tables w \<subseteq>\<^sub>m tables w' \<and> duck_laws D tables signs plain \<and> tables_ok D (tables w') signs"
    if "pg_next (duck_program D) p w = (r, w')"
    using prems that duck_next_grows [of D tables signs plain w p r w'] duck_next_tables_ok [of D tables signs plain w p r w'] by simp
  show "duck_ok D (tables w') signs plain p'" if "pg_next (duck_program D) p w = (Ret p', w')"
    using prems that duck_next_ok [of D tables signs plain w p p' w'] by simp
qed (simp_all add: map_le_refl)

section \<open>Properties\<close>

text \<open>
  Cut at its calls, the DuckDB controller is the same. Seven calls in a row are
  \<open>DuckDBController::get\<close>, and a request that nobody disturbs leaves database and object store as
  \<open>get\<close> does and ends as it does; however requests interleave, none makes more than seven calls.
\<close>
theorem duckdb_calls_are_the_controller:
  assumes "call_steps (duck_program D) (new_call_system w) js s" and "cs_requests s i = Some (Dk_check m)"
    and "DuckDBController_get D m (cs_world s) = (r, w')" and "r \<noteq> Abort"
  shows "calls_run (duck_program D) 7 (Dk_check m) = io_bind (DuckDBController_get D m) (\<lambda>m'. io_return (Dk_answered m')) \<and>
    (\<exists>is u. call_steps (duck_program D) s is u \<and> set is \<subseteq> {i} \<and> cs_world u = w' \<and>
      cs_requests u = (cs_requests s)(i \<mapsto>
        (case r of Ret m' \<Rightarrow> Dk_answered m' | Throw e \<Rightarrow> Dk_failed e | _ \<Rightarrow> Dk_stuck))) \<and>
    count_list js i \<le> 7"
proof -
  let ?q = "case r of Ret m' \<Rightarrow> Dk_answered m' | Throw e \<Rightarrow> Dk_failed e | _ \<Rightarrow> Dk_stuck"
  let ?r = "case r of Ret m' \<Rightarrow> Ret (Dk_answered m') | Throw e \<Rightarrow> Throw e | Blocked \<Rightarrow> Blocked | Abort \<Rightarrow> Abort"
  have "calls_run (duck_program D) 7 (Dk_check m) (cs_world s) = (?r, w')"
    unfolding duck_get_run using assms(3) by (cases r) (simp_all add: io_bind_def io_return_def)
  from duck_calls.undisturbed_run [OF assms(2) this, of ?q] assms(4) duck_get_run [of D m]
    duck_calls.calls_bounded(1) [OF assms(1), of i] show ?thesis
    by (cases r) auto
qed

lemma plain_queries_admitted: "plain_queries D plain (cs_seen s) \<Longrightarrow> duck_guard.all_admitted D plain s"
  by (auto simp: duck_guard.all_admitted_def plain_queries_def)

text \<open>
  Queries see the file they ask for, however the workers interleave, as long as the where clauses of all
  requests so far are plain. Several requests may find
  the table of a file missing and create it; only one of them makes it, the errors of the others
  are ignored, and the table then stays as it is: it is never made again from a newer file. A request
  that is answered has read a table that was made from a presigned URL of a file with the same
  table name; only a file whose name has the same two hashes could be another one.
\<close>
theorem queries_read_their_file:
  assumes "duck_laws D tables signs plain" and "tables w = Map.empty"
    and "call_steps (duck_program D) (new_call_system w) is s" and "plain_queries D plain (cs_seen s)"
  shows "(cs_requests s i = Some (Dk_answered m) \<longrightarrow>
      (\<exists>url b k. tables (cs_world s) (model_table D m) = Some url \<and> signs b k url \<and>
         duck_table_name (dd_hash_value D) b k = model_table D m)) \<and>
    (\<forall>js u. call_steps (duck_program D) s js u \<and> plain_queries D plain (cs_seen u) \<longrightarrow> tables (cs_world s) \<subseteq>\<^sub>m tables (cs_world u))"
proof -
  have start: "duck_laws D tables signs plain \<and> tables_ok D (tables w) signs"
    using assms(1,2) by (simp add: tables_ok_def)
  note plain = plain_queries_admitted [OF assms(4)]
  note reached = duck_guard.reachable_ok [OF assms(3) plain, of tables signs, OF start]
  have "\<exists>url b k. tables (cs_world s) (model_table D m) = Some url \<and> signs b k url \<and>
      duck_table_name (dd_hash_value D) b k = model_table D m" if "cs_requests s i = Some (Dk_answered m)"
    using reached(2) [OF that] reached(1) unfolding tables_ok_def duck_ok.simps by (metis not_None_eq)
  moreover have "tables (cs_world s) \<subseteq>\<^sub>m tables (cs_world u)"
    if "call_steps (duck_program D) s js u" "plain_queries D plain (cs_seen u)" for js u
    using duck_guard.reachable_grows [OF assms(3) that(1) plain plain_queries_admitted [OF that(2)] start] .
  ultimately show ?thesis by blast
qed

text \<open>A database for one file, which is a map of tables and answers with no rows.\<close>

definition sample_table :: string where
  "sample_table = duck_table_name length ''b'' ''k''"

definition map_duckdb :: "(string \<Rightarrow> string option) duckdb_ops" where
  "map_duckdb =
     \<lparr>dk_query = (\<lambda>q w. (Ret None, if q = create_text sample_table ''u'' \<and> w sample_table = None
                                   then w(sample_table \<mapsto> ''u'') else w)),
      dk_query_exists = (\<lambda>q t w. (Ret [[[if w t = None then 0 else 1]]], w)),
      dk_query_rows = (\<lambda>q w. if q = select_text sample_table ''true'' \<and> w sample_table \<noteq> None then (Ret [], w)
                            else (Throw (Runtime_error ''no table''), w))\<rparr>"

definition map_deps :: "(string \<Rightarrow> string option, jval) duckdb_deps" where
  "map_deps =
     \<lparr>dd_duckdb = map_duckdb,
      dd_s3 = \<lparr>s3_PutObject = (\<lambda>cfg r. io_return True), s3_GetObject = (\<lambda>cfg b k. io_return None),
               s3_ListObjects = (\<lambda>cfg b. io_return None), s3_DeleteObject = (\<lambda>cfg b k. io_return False),
               s3_HeadObject = (\<lambda>cfg b k. io_return True), s3_SelectObjectContent = (\<lambda>cfg r. io_return ([], True)),
               s3_GeneratePresignedUrl = (\<lambda>cfg b k. io_return ''u'')\<rparr>,
      dd_s3_config = default_s3_config, dd_json = sample_json (\<lambda>s. None), dd_hash_value = length\<rparr>"

lemma create_text_inj: "create_text t url = create_text t' url \<Longrightarrow> t = t'"
  by (simp add: create_text_def)

lemma select_text_inj: "select_text t c = select_text t' c \<Longrightarrow> t = t'"
proof -
  assume eq: "select_text t c = select_text t' c"
  then have "length t = length t'" using arg_cong [OF eq, of length] by (simp add: select_text_def)
  with eq show "t = t'" by (simp add: select_text_def)
qed

lemma map_laws: "duck_laws map_deps (\<lambda>w. w) (\<lambda>b k url. url = ''u'') (\<lambda>c. c = ''true'')"
  unfolding duck_laws_def
  by (auto simp: map_deps_def map_duckdb_def keeps_def tables_stay_def table_exists_def io_bind_def io_return_def create_text_def
      dest: create_text_inj select_text_inj split: if_splits)

definition map_model :: "jval duckdb_model" where
  "map_model = DuckDBController_validate_request
     (DuckDBModel [''bucket'' \<mapsto> ''b'', ''key'' \<mapsto> ''k'', ''where_clause'' \<mapsto> ''true''])"

abbreviation map_program :: "(string \<Rightarrow> string option, jval duck_pc) program" where
  "map_program \<equiv> duck_program map_deps"

lemma map_model_fields: "dm_bucket map_model = ''b''" "dm_key map_model = ''k''" "dm_where_clause map_model = ''true''"
  by (simp_all add: map_model_def DuckDBController_validate_request_def set_param_def DuckDBModel_def BaseModel_def base_model.defs)

lemma map_model_table: "model_table map_deps map_model = sample_table"
  by (simp add: model_table_def map_model_fields sample_table_def map_deps_def)

lemma map_arrival:
  "call_steps map_program (new_call_system Map.empty) [] (moved 0 (Dk_check map_model) Map.empty (new_call_system Map.empty))"
proof -
  have "pg_start map_program (Dk_check map_model)"
    using map_model_fields(3) by (auto simp: duck_program_def map_model_def)
  from request_posted [of "new_call_system Map.empty" 0, OF _ this] call_steps_more [OF call_steps_none, of map_program]
  show ?thesis by fastforce
qed

lemma map_get: "DuckDBController_get map_deps map_model Map.empty = (Ret (map_model\<lparr>dm_db_query_result := []\<rparr>), [sample_table \<mapsto> ''u''])"
  unfolding query_table_get CreateTableIfDoesNotExists_def Let_def statement_text query_table_def
  unfolding map_model_table map_model_fields
  by (simp add: map_deps_def map_duckdb_def table_exists_def generatePresignedUrl_def io_bind_def io_return_def io_lift_def create_text_def)

theorem duckdb_calls_are_the_controller_witness:
  "\<exists>is u. call_steps map_program (new_call_system Map.empty) is u \<and> cs_world u = [sample_table \<mapsto> ''u''] \<and>
     cs_requests u 0 = Some (Dk_answered (map_model\<lparr>dm_db_query_result := []\<rparr>))"
proof -
  let ?s = "moved 0 (Dk_check map_model) Map.empty (new_call_system Map.empty)"
  have "cs_requests ?s 0 = Some (Dk_check map_model)" "DuckDBController_get map_deps map_model (cs_world ?s) =
      (Ret (map_model\<lparr>dm_db_query_result := []\<rparr>), [sample_table \<mapsto> ''u''])" by (simp_all add: map_get)
  from duckdb_calls_are_the_controller [OF map_arrival this] obtain "is" u where
    u: "call_steps map_program ?s is u" "cs_world u = [sample_table \<mapsto> ''u'']"
      "cs_requests u 0 = Some (Dk_answered (map_model\<lparr>dm_db_query_result := []\<rparr>))" by auto
  from call_steps_trans [OF u(1) map_arrival] u(2,3) show ?thesis by blast
qed

lemma map_answered:
  "\<exists>is u. call_steps map_program (new_call_system Map.empty) is u \<and> plain_queries map_deps (\<lambda>c. c = ''true'') (cs_seen u) \<and>
     cs_requests u 0 = Some (Dk_answered (map_model\<lparr>dm_db_query_result := []\<rparr>))"
proof -
  let ?s = "moved 0 (Dk_check map_model) Map.empty (new_call_system Map.empty)"
  have "calls_run map_program 7 (Dk_check map_model) (cs_world ?s) =
      (Ret (Dk_answered (map_model\<lparr>dm_db_query_result := []\<rparr>)), [sample_table \<mapsto> ''u''])"
    unfolding duck_get_run by (simp add: map_get io_bind_def io_return_def)
  from duck_calls.undisturbed_run [OF _ this, of 0 "Dk_answered (map_model\<lparr>dm_db_query_result := []\<rparr>)"] obtain "is" u where
    u: "call_steps map_program ?s is u" "cs_requests u 0 = Some (Dk_answered (map_model\<lparr>dm_db_query_result := []\<rparr>))"
      "\<forall>p \<in> cs_seen u. pg_start map_program p \<longrightarrow> p \<in> cs_seen ?s" by auto
  from call_steps_trans [OF u(1) map_arrival] have run: "call_steps map_program (new_call_system Map.empty) is u" by simp
  have "plain_queries map_deps (\<lambda>c. c = ''true'') (cs_seen u)"
    unfolding plain_queries_def
  proof (intro allI impI)
    fix m assume "Dk_check m \<in> cs_seen u \<and> pg_start map_program (Dk_check m)"
    with u(3) have "Dk_check m = Dk_check map_model" by auto
    then show "dm_where_clause m = ''true''" by (simp add: map_model_fields)
  qed
  with run u(2) show ?thesis by blast
qed

theorem queries_read_their_file_witness:
  "\<exists>is u. call_steps map_program (new_call_system Map.empty) is u \<and> cs_world u sample_table = Some ''u''"
proof -
  obtain "is" u where u: "call_steps map_program (new_call_system Map.empty) is u" "plain_queries map_deps (\<lambda>c. c = ''true'') (cs_seen u)"
    "cs_requests u 0 = Some (Dk_answered (map_model\<lparr>dm_db_query_result := []\<rparr>))" using map_answered by blast
  have "model_table map_deps (map_model\<lparr>dm_db_query_result := []\<rparr>) = sample_table"
    using map_model_table by (simp add: model_table_def)
  with queries_read_their_file [OF map_laws refl u(1,2), of 0 "map_model\<lparr>dm_db_query_result := []\<rparr>"] u show ?thesis by auto
qed

end
