(* ===== verification/Background_System.thy ===== *)
theory Background_System
  imports Http_Session Fundamentals_System Duckdb_System
begin

text \<open>
  The background workers as a whole (\<open>src/web/http_session.cpp\<close>, \<open>src/router/router.cpp\<close>): the lambda that a
  session posts, \<open>background_work\<close>, cut at its calls of the services. Requests for fundamentals and
  for parquet files run the programs of \<open>Fundamentals_System\<close> and \<open>Duckdb_System\<close>; the other routes make one
  call. Any number of requests interleave.
\<close>

section \<open>One request, call by call\<close>

text \<open>The controller that the router calls, with the model it has validated.\<close>

datatype 'j controller_call =
    Call_fundamentals presigned_url_model
  | Call_duckdb "'j duckdb_model"
  | Call_other

definition controller_call :: "('w, 'j, 'b) router \<Rightarrow> http_request \<Rightarrow> 'j controller_call" where
  "controller_call R req =
     (case rt_parse_url R (req_target req) of
        Inl e \<Rightarrow> Call_other
      | Inr (segments, params) \<Rightarrow>
          (if segments = [] \<or> req_method req \<noteq> Verb_get then Call_other
           else if hd segments = ''fundamentals''
           then Call_fundamentals (FundamentalsController_validate_request (PreSignedUrlModel (params_to_map params Map.empty)))
           else if hd segments = ''duckdb''
           then Call_duckdb (DuckDBController_validate_request (DuckDBModel (params_to_map params Map.empty)))
           else Call_other))"

datatype 'j work_pc =
    Work_start http_request
  | Work_fund http_request fund_pc
  | Work_duck http_request "'j duck_pc"
  | Work_done http_request "http_response option"
  | Work_stuck

definition work_answer :: "http_params \<Rightarrow> string list \<Rightarrow> http_request \<Rightarrow> http_status \<times> string \<Rightarrow> 'j work_pc" where
  "work_answer P ao req result = Work_done req (Some (background_response P ao req result))"

text \<open>The handler of exceptions in \<open>route\<close>.\<close>

definition work_error :: "http_params \<Rightarrow> string list \<Rightarrow> http_request \<Rightarrow> exn \<Rightarrow> 'j work_pc" where
  "work_error P ao req ex = work_answer P ao req (Status_internal_server_error, ''Error: '' @ what ex)"

text \<open>What the worker does with the state that a call of a controller leads to.\<close>

fun fund_work :: "http_params \<Rightarrow> 'j json_lib \<Rightarrow> string list \<Rightarrow> http_request \<Rightarrow> fund_pc \<Rightarrow> 'j work_pc" where
  "fund_work P J ao req (Fund_answered m) = work_answer P ao req (status m, PreSignedUrlModel_to_json J m)"
| "fund_work P J ao req (Fund_failed e) = work_error P ao req e"
| "fund_work P J ao req Fund_stuck = Work_stuck"
| "fund_work P J ao req p = Work_fund req p"

fun duck_work :: "http_params \<Rightarrow> 'j json_lib \<Rightarrow> string list \<Rightarrow> http_request \<Rightarrow> 'j duck_pc \<Rightarrow> 'j work_pc" where
  "duck_work P J ao req (Dk_answered m) = work_answer P ao req (status m, DuckDBModel_to_json J m)"
| "duck_work P J ao req (Dk_failed e) = work_error P ao req e"
| "duck_work P J ao req Dk_stuck = Work_stuck"
| "duck_work P J ao req p = Work_duck req p"

fun work_next :: "http_params \<Rightarrow> ('w, 'j, 'b) router \<Rightarrow> string list \<Rightarrow> 'j work_pc \<Rightarrow> ('w, 'j work_pc) io" where
  "work_next P R ao (Work_start req) =
     (case controller_call R req of
        Call_fundamentals m \<Rightarrow> io_return (Work_fund req (At_get m))
      | Call_duckdb m \<Rightarrow> io_return (Work_duck req (Dk_check m))
      | Call_other \<Rightarrow> io_bind (route R (req_method req) (req_target req) (req_body req))
                       (\<lambda>result. io_return (work_answer P ao req result)))"
| "work_next P R ao (Work_fund req p) =
     io_catch (io_bind (fund_next (rt_fundamentals R) p) (\<lambda>p'. io_return (fund_work P (rt_json R) ao req p')))
       (\<lambda>ex. io_return (work_error P ao req ex))"
| "work_next P R ao (Work_duck req p) =
     io_catch (io_bind (duck_next (rt_duckdb R) p) (\<lambda>p'. io_return (duck_work P (rt_json R) ao req p')))
       (\<lambda>ex. io_return (work_error P ao req ex))"
| "work_next P R ao p = io_return p"

fun work_final :: "'j work_pc \<Rightarrow> bool" where
  "work_final (Work_done req answer) = True"
| "work_final Work_stuck = True"
| "work_final _ = False"

text \<open>
  Any request may come, with any target and any where clause. \<open>work_next\<close> handles every exception of a call, so
  \<open>pg_failed\<close> is never used.
\<close>

definition work_program :: "http_params \<Rightarrow> ('w, 'j, 'b) router \<Rightarrow> string list \<Rightarrow> ('w, 'j work_pc) program" where
  "work_program P R ao =
     \<lparr>pg_start = (\<lambda>p. \<exists>req. p = Work_start req),
      pg_next = work_next P R ao, pg_final = work_final, pg_failed = (\<lambda>e. Work_stuck), pg_stuck = Work_stuck\<rparr>"

lemma work_program_fields [simp]:
  "pg_next (work_program P R ao) = work_next P R ao" "pg_final (work_program P R ao) = work_final"
  "pg_failed (work_program P R ao) = (\<lambda>e. Work_stuck)" "pg_stuck (work_program P R ao) = Work_stuck"
  "pg_start (work_program P R ao) p \<longleftrightarrow> (\<exists>req. p = Work_start req)"
  by (simp_all add: work_program_def)

lemma work_final_simps [simp]:
  "work_final (work_answer P ao req result)" "work_final (work_error P ao req e)"
  by (simp_all add: work_answer_def work_error_def)

lemma fund_work_going: "\<not> fund_final p \<Longrightarrow> fund_work P J ao req p = Work_fund req p"
  by (cases p) simp_all

lemma duck_work_going: "\<not> duck_final p \<Longrightarrow> duck_work P J ao req p = Work_duck req p"
  by (cases p) simp_all

lemma work_final_work [simp]:
  "work_final (fund_work P J ao req p) \<longleftrightarrow> fund_final p" "work_final (duck_work P J ao req q) \<longleftrightarrow> duck_final q"
  by (cases p; simp) (cases q; simp)

interpretation fund_inside: embedded_program "fund_program (rt_fundamentals R)" fund_calls_left 13
    "work_program P R ao" "fund_work P (rt_json R) ao req" "work_error P ao req"
  for P and R :: "('w, 'j, 'b) router" and ao req
proof unfold_locales
  show "pg_final (work_program P R ao) p \<Longrightarrow> pg_next (work_program P R ao) p = io_return p" for p :: "'j work_pc"
    by (cases p) simp_all
qed (simp_all add: fund_work_going)

interpretation duck_inside: embedded_program "duck_program (rt_duckdb R)" duck_calls_left 7
    "work_program P R ao" "duck_work P (rt_json R) ao req" "work_error P ao req"
  for P and R :: "('w, 'j, 'b) router" and ao req
  by unfold_locales (use fund_inside.outer_final in \<open>simp_all add: duck_work_going\<close>)

lemma work_never_starts:
  "fund_work P J ao req p \<noteq> Work_start req'" "duck_work P J ao req q \<noteq> Work_start req'"
  "work_error P ao req e \<noteq> Work_start req'" "work_answer P ao req result \<noteq> Work_start req'"
proof -
  show "fund_work P J ao req p \<noteq> Work_start req'" by (cases p) (simp_all add: work_answer_def work_error_def)
  show "duck_work P J ao req q \<noteq> Work_start req'" by (cases q) (simp_all add: work_answer_def work_error_def)
qed (simp_all add: work_answer_def work_error_def)

lemma work_next_not_start: "work_next P R ao p w = (Ret (Work_start req), w') \<Longrightarrow> work_final p"
proof (cases p)
  case (Work_start req')
  moreover assume "work_next P R ao p w = (Ret (Work_start req), w')"
  ultimately show ?thesis
    by (cases "controller_call R req'") (auto simp: io_return_apply io_bind_Ret_iff work_never_starts)
qed (auto simp: work_never_starts elim!: catch_bindE dest: sym)

text \<open>Every request makes at most fourteen steps.\<close>

fun work_calls_left :: "'j work_pc \<Rightarrow> nat" where
  "work_calls_left (Work_start req) = 14"
| "work_calls_left (Work_fund req p) = max 1 (fund_calls_left p)"
| "work_calls_left (Work_duck req p) = max 1 (duck_calls_left p)"
| "work_calls_left _ = 0"

lemma work_calls_work:
  "work_calls_left (fund_work P J ao req p) = fund_calls_left p" "work_calls_left (duck_work P J ao req q) = duck_calls_left q"
  by (cases p; simp add: work_answer_def work_error_def) (cases q; simp add: work_answer_def work_error_def)

interpretation work_calls: bounded_program "work_program P R ao" work_calls_left 14
  for P and R :: "('w, 'j, 'b) router" and ao
proof unfold_locales
  fix p p' :: "'j work_pc" and w w' :: 'w
  show "pg_final (work_program P R ao) p \<Longrightarrow> pg_next (work_program P R ao) p = io_return p"
    by (rule fund_inside.outer_final)
  show "work_calls_left p = 0 \<longleftrightarrow> pg_final (work_program P R ao) p" by (cases p) simp_all
  show "pg_next (work_program P R ao) p w = (Ret p', w') \<Longrightarrow> \<not> pg_final (work_program P R ao) p \<Longrightarrow> \<not> pg_start (work_program P R ao) p'"
    using work_next_not_start [of P R ao p w] by auto
  show "work_calls_left p' < work_calls_left p"
    if "pg_next (work_program P R ao) p w = (Ret p', w')" "\<not> pg_final (work_program P R ao) p"
  proof (cases p)
    case (Work_start req)
    with that show ?thesis
      by (cases "controller_call R req") (auto simp: io_return_apply io_bind_Ret_iff work_answer_def)
  next
    case (Work_fund req q)
    with that(1) fund_inside.emb_catch_left [of R q P ao req w p' w'] show ?thesis
      by (auto simp: work_calls_work work_error_def work_answer_def less_Suc_eq_le less_max_iff_disj)
  next
    case (Work_duck req q)
    with that(1) duck_inside.emb_catch_left [of R q P ao req w p' w'] show ?thesis
      by (auto simp: work_calls_work work_error_def work_answer_def less_max_iff_disj)
  qed (use that in simp_all)
qed (auto simp: work_program_def)

section \<open>One request alone\<close>

lemma controller_call_routes:
  shows "controller_call R req = Call_fundamentals m \<Longrightarrow>
      route_dispatch R (req_method req) (req_target req) (req_body req) =
        io_bind (FundamentalsController_get (rt_fundamentals R) m) (\<lambda>m. io_return (status m, PreSignedUrlModel_to_json (rt_json R) m))"
    and "controller_call R req = Call_duckdb d \<Longrightarrow>
      route_dispatch R (req_method req) (req_target req) (req_body req) =
        io_bind (DuckDBController_get (rt_duckdb R) d) (\<lambda>m. io_return (status m, DuckDBModel_to_json (rt_json R) m))"
  by (auto simp: controller_call_def route_dispatch_parsed route_get_def Let_def fundamentals.routed_to_get duckdb.routed_to_get
      split: sum.splits if_splits)

text \<open>The posted lambda with the state of the request that it ends in.\<close>

lemma background_work_catch:
  "io_bind (background_work P R ao req) (\<lambda>answer. io_return (Work_done req answer)) =
     io_catch (io_bind (route_dispatch R (req_method req) (req_target req) (req_body req)) (\<lambda>r. io_return (work_answer P ao req r)))
       (\<lambda>e. io_return (work_error P ao req e))"
proof
  fix w
  obtain r w1 where "route_dispatch R (req_method req) (req_target req) (req_body req) w = (r, w1)" by fastforce
  then show "io_bind (background_work P R ao req) (\<lambda>answer. io_return (Work_done req answer)) w =
     io_catch (io_bind (route_dispatch R (req_method req) (req_target req) (req_body req)) (\<lambda>r. io_return (work_answer P ao req r)))
       (\<lambda>e. io_return (work_error P ao req e)) w"
    by (cases r) (simp_all add: background_work_def route_def work_answer_def work_error_def io_bind_def io_catch_def io_return_def)
qed

lemma other_run:
  assumes "controller_call R req = Call_other"
  shows "calls_run (work_program P R ao) (Suc n) (Work_start req) =
    io_bind (background_work P R ao req) (\<lambda>answer. io_return (Work_done req answer))"
proof
  fix w
  have done_run: "calls_run (work_program P R ao) n (work_answer P ao req result) = io_return (work_answer P ao req result)" for result
    by (rule work_calls.final_run) simp
  obtain r w1 where "route R (req_method req) (req_target req) (req_body req) w = (r, w1)" by fastforce
  then show "calls_run (work_program P R ao) (Suc n) (Work_start req) w =
    io_bind (background_work P R ao req) (\<lambda>answer. io_return (Work_done req answer)) w"
    using done_run route_never_throws [of R "req_method req" "req_target req" "req_body req" w]
    by (cases r) (auto simp: assms background_work_def work_answer_def io_bind_def io_catch_def io_return_def)
qed

lemma work_run_Suc: "calls_run (work_program P R ao) (Suc n) p = io_bind (work_next P R ao p) (calls_run (work_program P R ao) n)"
  by simp

lemma work_run:
  "calls_run (work_program P R ao) 14 (Work_start req) =
     io_bind (background_work P R ao req) (\<lambda>answer. io_return (Work_done req answer))"
proof (cases "controller_call R req")
  case Call_other
  from other_run [OF this, of P ao 13] show ?thesis by (simp add: eval_nat_numeral del: calls_run.simps)
next
  case (Call_fundamentals m)
  have "calls_run (work_program P R ao) (Suc 13) (Work_start req) =
      calls_run (work_program P R ao) 13 (fund_work P (rt_json R) ao req (At_get m))"
    unfolding work_run_Suc using Call_fundamentals by simp
  also have "\<dots> = io_bind (background_work P R ao req) (\<lambda>answer. io_return (Work_done req answer))"
    unfolding fund_inside.emb_run get_run background_work_catch controller_call_routes(1) [OF Call_fundamentals]
    by (simp add: io_bind_assoc)
  finally show ?thesis by (simp add: eval_nat_numeral del: calls_run.simps)
next
  case (Call_duckdb m)
  have more: "calls_run (duck_program (rt_duckdb R)) 13 (Dk_check m) =
      io_bind (DuckDBController_get (rt_duckdb R) m) (\<lambda>m'. io_return (Dk_answered m'))"
    using check_run_duck [of "rt_duckdb R" 6 m] unfolding query_table_get io_bind_assoc
    by (simp add: numeral_eq_Suc del: calls_run.simps)
  have "calls_run (work_program P R ao) (Suc 13) (Work_start req) =
      calls_run (work_program P R ao) 13 (duck_work P (rt_json R) ao req (Dk_check m))"
    unfolding work_run_Suc using Call_duckdb by simp
  also have "\<dots> = io_bind (background_work P R ao req) (\<lambda>answer. io_return (Work_done req answer))"
    unfolding duck_inside.emb_run more background_work_catch controller_call_routes(2) [OF Call_duckdb]
    by (simp add: io_bind_assoc)
  finally show ?thesis by (simp add: eval_nat_numeral del: calls_run.simps)
qed

section \<open>What the services keep apart\<close>

text \<open>
  The calls of each controller, and of the routes with one call, as changes of the world. Redis, the
  object store and the downloads do not touch the tables of the database, no statement of the database changes a
  key of Redis or removes an object, and the routes of MongoDB and S3 Select do neither.
\<close>

definition fund_ops_keep :: "('w \<Rightarrow> 'w \<Rightarrow> bool) \<Rightarrow> 'w fundamentals_deps \<Rightarrow> bool" where
  "fund_ops_keep rel F \<longleftrightarrow>
     net_ops_keep rel (fd_net F) \<and> (\<forall>k. keeps rel (rd_get (fd_redis F) k)) \<and> (\<forall>k v n. keeps rel (rd_set_ex (fd_redis F) k v n)) \<and>
     (\<forall>b k. keeps rel (s3_HeadObject (fd_s3 F) (fd_s3_config F) b k)) \<and>
     (\<forall>r. keeps rel (s3_PutObject (fd_s3 F) (fd_s3_config F) r)) \<and>
     (\<forall>b k. keeps rel (s3_GeneratePresignedUrl (fd_s3 F) (fd_s3_config F) b k))"

definition duck_ops_keep :: "('w \<Rightarrow> 'w \<Rightarrow> bool) \<Rightarrow> ('w, 'j) duckdb_deps \<Rightarrow> bool" where
  "duck_ops_keep rel D \<longleftrightarrow>
     (\<forall>q t. keeps rel (dk_query_exists (dd_duckdb D) q t)) \<and>
     keeps rel (dk_query (dd_duckdb D) ''SET autoinstall_known_extensions=1;'') \<and>
     keeps rel (dk_query (dd_duckdb D) ''SET autoload_known_extensions=1;'') \<and>
     (\<forall>t url. keeps rel (dk_query (dd_duckdb D) (create_text t url))) \<and>
     (\<forall>t c. keeps rel (dk_query_rows (dd_duckdb D) (select_text t c))) \<and>
     (\<forall>b k. keeps rel (s3_GeneratePresignedUrl (dd_s3 D) (dd_s3_config D) b k))"

definition other_ops_keep :: "('w \<Rightarrow> 'w \<Rightarrow> bool) \<Rightarrow> ('w, 'j, 'b) router \<Rightarrow> bool" where
  "other_ops_keep rel R \<longleftrightarrow>
     (let M = rt_mongo R in
     keeps rel (mg_acquire M) \<and> (\<forall>w. rel w (mg_release M w)) \<and>
     (\<forall>d c x. keeps rel (mg_find_one M d c x)) \<and> (\<forall>d c xs. keeps rel (mg_insert_many M d c xs)) \<and>
     (\<forall>d c ops. keeps rel (mg_bulk_write M d c ops)) \<and> (\<forall>d c x. keeps rel (mg_delete_one M d c x)) \<and>
     (\<forall>d c x. keeps rel (mg_delete_many M d c x))) \<and>
     (\<forall>r. keeps rel (s3_SelectObjectContent (rt_s3 R) (rt_s3_config R) r))"

context world_change
begin

lemma keeps_fund_next: "fund_ops_keep rel F \<Longrightarrow> keeps rel (fund_next F p)"
  by (cases p)
    (auto simp: fund_ops_keep_def RedisClient_get_def RedisClient_set_with_expiry_def objectExists_def putObject_def
      generatePresignedUrl_def Let_def intro!: keeps_intros keeps_net_next)

lemma keeps_duck_next: "duck_ops_keep rel D \<Longrightarrow> keeps rel (duck_next D p)"
  by (cases p)
    (auto simp: duck_ops_keep_def table_exists_def generatePresignedUrl_def statement_text intro!: keeps_intros)

lemma keeps_with_connection:
  assumes "other_ops_keep rel R" and "keeps rel body"
  shows "keeps rel (with_connection (rt_mongo R) body)"
  unfolding with_connection_def
proof (rule keeps_bind)
  show "keeps rel (mg_acquire (rt_mongo R))" using assms(1) by (simp add: other_ops_keep_def Let_def)
  have "rel w (mg_release (rt_mongo R) w)" for w using assms(1) by (simp add: other_ops_keep_def Let_def)
  with assms(2) show "keeps rel (\<lambda>w. case body w of (r, w') \<Rightarrow> (r, mg_release (rt_mongo R) w'))"
    unfolding keeps_def by (auto simp: case_prod_unfold intro: rel_trans)
qed

lemma keeps_mongo:
  assumes "other_ops_keep rel R"
  shows "keeps rel (MongoController_get (rt_mongo R) c d)" "keeps rel (MongoController_post J (rt_mongo R) c d)"
    "keeps rel (MongoController_put (rt_mongo R) c d u b)" "keeps rel (MongoController_delete (rt_mongo R) c d b)"
    "keeps rel (AWSS3Controller_get (rt_s3 R) (rt_s3_config R) b' k col cl)"
  unfolding MongoController_get_def MongoController_post_def MongoController_put_def MongoController_delete_def AWSS3Controller_get_def
    MongoClient_find_one_def MongoClient_insert_many_def MongoClient_upsert_def MongoClient_delete_def s3select_def Let_def
  using assms
  by (auto intro!: keeps_with_connection keeps_intros split: option.split simp: other_ops_keep_def Let_def)

lemma keeps_get_other:
  assumes "other_ops_keep rel R" and "hd segments \<noteq> ''fundamentals''" and "hd segments \<noteq> ''duckdb''"
  shows "keeps rel (route_get R segments params)"
  unfolding route_get_def unsupported_service_def Let_def
  using assms(2,3) by (auto intro!: keeps_intros keeps_mongo [OF assms(1)])

lemma keeps_changing_routes:
  assumes "other_ops_keep rel R"
  shows "keeps rel (route_post R segments body)" "keeps rel (route_put R segments body)" "keeps rel (route_delete R segments body)"
  unfolding route_post_def route_put_def route_delete_def unsupported_service_def Let_def
  by (intro keeps_intros keeps_mongo [OF assms])+

lemma keeps_other_route:
  assumes "other_ops_keep rel R" and "controller_call R req = Call_other"
  shows "keeps rel (route R (req_method req) (req_target req) (req_body req))"
  unfolding route_def
proof (intro keeps_catch keeps_pure(1))
  show "keeps rel (route_dispatch R (req_method req) (req_target req) (req_body req))"
  proof (cases "rt_parse_url R (req_target req)")
    case (Inl e)
    then have "route_dispatch R (req_method req) (req_target req) (req_body req) = io_throw e"
      by (intro ext) (simp add: route_dispatch_def io_bind_def io_lift_def io_throw_def)
    then show ?thesis by (simp add: keeps_pure)
  next
    case (Inr parsed)
    obtain segments params where parsed: "parsed = (segments, params)" by fastforce
    with Inr assms(2) have "segments = [] \<or> req_method req \<noteq> Verb_get \<or> hd segments \<noteq> ''fundamentals'' \<and> hd segments \<noteq> ''duckdb''"
      by (auto simp: controller_call_def split: if_splits)
    with route_dispatch_parsed [OF Inr [unfolded parsed]] show ?thesis
      by (auto simp: keeps_pure keeps_get_other keeps_changing_routes assms(1) split: verb.split)
  qed
qed

end

section \<open>Invariant\<close>

definition fund_states :: "'j work_pc set \<Rightarrow> fund_pc set" where
  "fund_states S = {p. \<exists>req. Work_fund req p \<in> S}"

text \<open>The model a controller works on stays what the request says, but for its result.\<close>

fun fund_about :: "presigned_url_model \<Rightarrow> fund_pc \<Rightarrow> bool" where
  "fund_about m (At_get m') = (m' = m)"
| "fund_about m (At_check m') = (m' = m)"
| "fund_about m (At_fetch m') = (m' = m)"
| "fund_about m (At_net m' target k) = (m' = m)"
| "fund_about m (At_put m' response) = (m' = m)"
| "fund_about m (At_presign m' there) = (m' = m)"
| "fund_about m (At_cache m' url) = (m' = m)"
| "fund_about m (Fund_answered m') = (m' = m\<lparr>pm_url := pm_url m'\<rparr>)"
| "fund_about m p = True"

fun duck_about :: "'j duckdb_model \<Rightarrow> 'j duck_pc \<Rightarrow> bool" where
  "duck_about m (Dk_check m') = (m' = m)"
| "duck_about m (Dk_presign m') = (m' = m)"
| "duck_about m (Dk_autoinstall m' url) = (m' = m)"
| "duck_about m (Dk_autoload m' url) = (m' = m)"
| "duck_about m (Dk_create m' url) = (m' = m)"
| "duck_about m (Dk_recheck m') = (m' = m)"
| "duck_about m (Dk_select m') = (m' = m)"
| "duck_about m (Dk_answered m') = (m' = m\<lparr>dm_db_query_result := dm_db_query_result m'\<rparr>)"
| "duck_about m p = True"

lemma fund_next_about: "fund_next F p w = (Ret p', w') \<Longrightarrow> fund_about m p \<Longrightarrow> fund_about m p'"
proof (cases p)
  case (At_net m' target k)
  moreover assume "fund_next F p w = (Ret p', w')" "fund_about m p"
  ultimately have "fund_next F (At_net m' target k) w = (Ret p', w')" "m' = m" by simp_all
  then show ?thesis by (cases rule: At_net_nextE) simp_all
qed (auto simp: io_bind_Ret_iff io_return_apply Let_def split: option.splits if_splits)

lemma duck_next_about: "duck_next D p w = (Ret p', w') \<Longrightarrow> duck_about m p \<Longrightarrow> duck_about m p'"
  by (cases p) (auto simp: io_bind_Ret_iff io_return_apply split: if_splits)

text \<open>An answer of each controller, or of the handler of exceptions.\<close>

definition fund_answer :: "http_params \<Rightarrow> 'j json_lib \<Rightarrow> string list \<Rightarrow> http_request \<Rightarrow> presigned_url_model \<Rightarrow> string \<Rightarrow> http_response" where
  "fund_answer P J ao req m url = background_response P ao req (Status_ok, PreSignedUrlModel_to_json J (m\<lparr>pm_url := url\<rparr>))"

definition duck_answer :: "http_params \<Rightarrow> 'j json_lib \<Rightarrow> string list \<Rightarrow> http_request \<Rightarrow> 'j duckdb_model \<Rightarrow> 'j list \<Rightarrow> http_response" where
  "duck_answer P J ao req m rows = background_response P ao req (Status_ok, DuckDBModel_to_json J (m\<lparr>dm_db_query_result := rows\<rparr>))"

definition error_answer :: "http_params \<Rightarrow> string list \<Rightarrow> http_request \<Rightarrow> exn \<Rightarrow> http_response" where
  "error_answer P ao req e = background_response P ao req (Status_internal_server_error, ''Error: '' @ what e)"

text \<open>
  What holds of the state of a request, seen from each of the two controllers: the requests of the other
  one, and those with a single call, only have to be what they are.
\<close>

fun fund_side ::
    "http_params \<Rightarrow> ('w, 'j, 'b) router \<Rightarrow> string list \<Rightarrow> (string \<Rightarrow> string \<Rightarrow> string \<Rightarrow> bool) \<Rightarrow>
     (string \<times> string) set \<Rightarrow> string set \<Rightarrow> 'j work_pc \<Rightarrow> bool" where
  "fund_side P R ao signs objs refused (Work_fund req p) \<longleftrightarrow>
     pc_ok objs signs refused p \<and> (\<exists>m. controller_call R req = Call_fundamentals m \<and> fund_about m p)"
| "fund_side P R ao signs objs refused (Work_duck req p) \<longleftrightarrow> (\<exists>m. controller_call R req = Call_duckdb m)"
| "fund_side P R ao signs objs refused (Work_done req answer) \<longleftrightarrow>
     (\<forall>m. controller_call R req = Call_fundamentals m \<longrightarrow>
        (\<exists>url. answer = Some (fund_answer P (rt_json R) ao req m url) \<and>
           url_ok objs signs refused (fundamentals_location (pm_sravzid m)) url) \<or>
        (\<exists>e. answer = Some (error_answer P ao req e)))"
| "fund_side P R ao signs objs refused p \<longleftrightarrow> True"

fun query_side ::
    "http_params \<Rightarrow> ('w, 'j, 'b) router \<Rightarrow> string list \<Rightarrow> (string \<Rightarrow> string \<Rightarrow> string \<Rightarrow> bool) \<Rightarrow> (string \<Rightarrow> bool) \<Rightarrow>
     (string \<Rightarrow> string option) \<Rightarrow> 'j work_pc \<Rightarrow> bool" where
  "query_side P R ao signs plain T (Work_start req) \<longleftrightarrow>
     (\<forall>m. controller_call R req = Call_duckdb m \<longrightarrow> plain (dm_where_clause m))"
| "query_side P R ao signs plain T (Work_fund req p) \<longleftrightarrow> (\<exists>m. controller_call R req = Call_fundamentals m)"
| "query_side P R ao signs plain T (Work_duck req p) \<longleftrightarrow>
     duck_ok (rt_duckdb R) T signs plain p \<and> (\<exists>m. controller_call R req = Call_duckdb m \<and> duck_about m p)"
| "query_side P R ao signs plain T (Work_done req answer) \<longleftrightarrow>
     (\<forall>m. controller_call R req = Call_duckdb m \<longrightarrow>
        (\<exists>rows. answer = Some (duck_answer P (rt_json R) ao req m rows) \<and> T (model_table (rt_duckdb R) m) \<noteq> None) \<or>
        (\<exists>e. answer = Some (error_answer P ao req e)))"
| "query_side P R ao signs plain T Work_stuck \<longleftrightarrow> True"

lemma controller_call_status:
  "controller_call R req = Call_fundamentals m \<Longrightarrow> status m = Status_ok"
  "controller_call R req = Call_duckdb d \<Longrightarrow> status d = Status_ok"
  by (auto simp: controller_call_def fundamentals.validate_status fundamentals.fresh_ok duckdb.validate_status duckdb.fresh_ok
      split: sum.splits if_splits)

lemma fund_states_insert [simp]:
  "fund_states (insert (Work_fund req p) S) = insert p (fund_states S)" "fund_states (insert (Work_duck req q) S) = fund_states S"
  "fund_states (insert (Work_done req answer) S) = fund_states S" "fund_states (insert Work_stuck S) = fund_states S"
  "fund_states (insert (Work_start req) S) = fund_states S" "fund_states {} = {}"
  by (auto simp: fund_states_def)

lemma fund_states_mono: "S \<subseteq> S' \<Longrightarrow> refused_puts (fund_states S) \<subseteq> refused_puts (fund_states S')"
  by (rule refused_puts_mono) (auto simp: fund_states_def)

lemma fund_states_work: "refused_puts (fund_states (insert (fund_work P J ao req p) S)) = refused_puts (insert p (fund_states S))"
  by (cases p) (simp_all add: work_answer_def work_error_def)

lemma fund_side_mono:
  assumes "fund_side P R ao signs objs refused p" and "objs \<subseteq> objs'" and "refused \<subseteq> refused'"
  shows "fund_side P R ao signs objs' refused' p"
  using assms(1) pc_ok_mono [OF _ assms(2,3)] url_ok_mono [OF _ assms(2,3)] by (cases p) (simp_all, blast+)

lemma query_side_mono:
  assumes "query_side P R ao signs plain T p" and "T \<subseteq>\<^sub>m T'"
  shows "query_side P R ao signs plain T' p"
proof -
  have "T' t \<noteq> None" if "T t \<noteq> None" for t using that assms(2) by (auto simp: map_le_def dom_def)
  with assms(1) duck_ok_mono [OF _ assms(2)] show ?thesis by (cases p) (simp_all, blast+)
qed

lemma fund_side_fund:
  assumes "pc_ok objs signs refused p" and "controller_call R req = Call_fundamentals m" and "fund_about m p"
  shows "fund_side P R ao signs objs refused (fund_work P (rt_json R) ao req p)"
proof (cases p)
  case (Fund_answered m')
  from assms(3) obtain url where "m' = m\<lparr>pm_url := url\<rparr>" unfolding Fund_answered fund_about.simps ..
  with assms(1,2) controller_call_status(1) [OF assms(2)] show ?thesis
    by (auto simp: Fund_answered work_answer_def fund_answer_def)
qed (use assms in \<open>auto simp: work_answer_def work_error_def error_answer_def\<close>)

lemma query_side_duck:
  assumes "duck_ok (rt_duckdb R) T signs plain p" and "controller_call R req = Call_duckdb m" and "duck_about m p"
  shows "query_side P R ao signs plain T (duck_work P (rt_json R) ao req p)"
proof (cases p)
  case (Dk_answered m')
  from assms(3) obtain rows where "m' = m\<lparr>dm_db_query_result := rows\<rparr>" unfolding Dk_answered duck_about.simps ..
  with assms(1,2) controller_call_status(2) [OF assms(2)] show ?thesis
    by (auto simp: Dk_answered work_answer_def duck_answer_def model_table_def)
qed (use assms in \<open>auto simp: work_answer_def work_error_def error_answer_def\<close>)

lemma sides_error:
  "fund_side P R ao signs objs refused (work_error P ao req e)" "query_side P R ao signs plain T (work_error P ao req e)"
  by (auto simp: work_answer_def work_error_def error_answer_def)

lemma fund_side_duck:
  "controller_call R req = Call_duckdb m \<Longrightarrow> fund_side P R ao signs objs refused (duck_work P (rt_json R) ao req q)"
  by (cases q) (auto simp: work_answer_def work_error_def)

lemma query_side_fund:
  "controller_call R req = Call_fundamentals m \<Longrightarrow> query_side P R ao signs plain T (fund_work P (rt_json R) ao req q)"
  by (cases q) (auto simp: work_answer_def work_error_def)

text \<open>
  What each controller needs of the services: those of the fundamentals and of the queries, and that the calls of all
  other requests leave them alone. Nothing is assumed on where clauses for the first; \<open>plain\<close> stands for the clauses
  that the second needs, see \<open>Duckdb_System\<close>.
\<close>

definition url_laws ::
    "('w, 'j, 'b) router \<Rightarrow> ('w \<Rightarrow> string \<Rightarrow> string option) \<Rightarrow> ('w \<Rightarrow> (string \<times> string) set) \<Rightarrow>
     (string \<Rightarrow> string \<Rightarrow> string \<Rightarrow> bool) \<Rightarrow> bool" where
  "url_laws R cache stored signs \<longleftrightarrow>
     services_laws (rt_fundamentals R) cache stored signs \<and> duck_ops_keep (services_grow cache stored) (rt_duckdb R) \<and>
     other_ops_keep (services_grow cache stored) R"

definition query_laws ::
    "('w, 'j, 'b) router \<Rightarrow> ('w \<Rightarrow> string \<Rightarrow> string option) \<Rightarrow> (string \<Rightarrow> string \<Rightarrow> string \<Rightarrow> bool) \<Rightarrow> (string \<Rightarrow> bool) \<Rightarrow> bool" where
  "query_laws R tables signs plain \<longleftrightarrow>
     duck_laws (rt_duckdb R) tables signs plain \<and> fund_ops_keep (tables_stay tables) (rt_fundamentals R) \<and>
     other_ops_keep (tables_stay tables) R"

text \<open>The where clauses of all queries so far are plain, which the code does not check.\<close>

definition plain_requests :: "('w, 'j, 'b) router \<Rightarrow> (string \<Rightarrow> bool) \<Rightarrow> 'j work_pc set \<Rightarrow> bool" where
  "plain_requests R plain S \<longleftrightarrow>
     (\<forall>req m. Work_start req \<in> S \<and> controller_call R req = Call_duckdb m \<longrightarrow> plain (dm_where_clause m))"

lemma start_kept:
  assumes "world_change rel" and "other_ops_keep rel R"
  shows "keeps rel (work_next P R ao (Work_start req))"
proof (cases "controller_call R req")
  case Call_other
  with world_change.keeps_other_route [OF assms] show ?thesis
    by (auto intro!: world_change.keeps_bind [OF assms(1)] world_change.keeps_pure [OF assms(1)])
qed (simp_all add: world_change.keeps_pure [OF assms(1)])

lemma start_next:
  assumes "work_next P R ao (Work_start req) w = (Ret p', w')"
  shows "fund_side P R ao signs objs refused p' \<and> (query_side P R ao signs plain T (Work_start req) \<longrightarrow> query_side P R ao signs plain T p')"
  using assms by (cases "controller_call R req") (auto simp: io_bind_Ret_iff io_return_apply work_answer_def)

lemma cache_kept:
  assumes "keeps_all cache stored m" and "m w = (r, w')" and "cache_ok (cache w) (stored w) signs refused"
  shows "stored w \<subseteq> stored w' \<and> cache_ok (cache w') (stored w') signs refused"
proof -
  from keepsD [OF assms(1,2)] have grown: "cache w' \<subseteq>\<^sub>m cache w" "stored w \<subseteq> stored w'" by (simp_all add: services_grow_def)
  with assms(3) url_ok_mono [OF _ grown(2) subset_refl] show ?thesis
    unfolding cache_ok_def map_le_def dom_def by fastforce
qed

text \<open>A call of a request, seen from the fundamentals.\<close>

lemma fund_side_step:
  assumes "url_laws R cache stored signs" and cached: "cache_ok (cache w) (stored w) signs (refused_puts (fund_states S))"
    and ok: "fund_side P R ao signs (stored w) (refused_puts (fund_states S)) p" and step: "work_next P R ao p w = (r, w')"
  shows "stored w \<subseteq> stored w' \<and> cache_ok (cache w') (stored w') signs (refused_puts (fund_states S)) \<and>
    (\<forall>p'. r = Ret p' \<longrightarrow> fund_side P R ao signs (stored w') (refused_puts (fund_states (insert p' S))) p')"
proof -
  let ?F = "rt_fundamentals R"
  from assms(1) have laws: "services_laws ?F cache stored signs" and duck: "duck_ops_keep (services_grow cache stored) (rt_duckdb R)"
    and other: "other_ops_keep (services_grow cache stored) R" by (simp_all add: url_laws_def)
  show ?thesis
  proof (cases p)
    case (Work_start req)
    from cache_kept [OF start_kept [OF services_grow.world_change_axioms other] step [unfolded Work_start] cached]
      start_next [of P R ao req w _ w'] step [unfolded Work_start] show ?thesis by simp
  next
    case (Work_fund req q)
    with ok obtain m where m: "controller_call R req = Call_fundamentals m" "fund_about m q"
      and pc: "pc_ok (stored w) signs (refused_puts (fund_states S)) q" by auto
    from step Work_fund obtain r1 where call: "fund_next ?F q w = (r1, w')"
      and r1: "\<forall>p'. r = Ret p' \<longrightarrow>
        (\<exists>q'. r1 = Ret q' \<and> p' = fund_work P (rt_json R) ao req q') \<or> (\<exists>e. p' = work_error P ao req e)"
      by (auto elim!: catch_bindE)
    from call have "pg_next (fund_program ?F) q w = (r1, w')" by simp
    from fund_guard.next_world [OF this conjI [OF laws cached] pc]
    have grown: "stored w \<subseteq> stored w'" "cache_ok (cache w') (stored w') signs (refused_puts (fund_states S))" by simp_all
    have "fund_side P R ao signs (stored w') (refused_puts (fund_states (insert p' S))) p'" if "r = Ret p'" for p'
      using r1 that
    proof (elim allE impE disjE exE conjE)
      fix q' assume q': "r1 = Ret q'" "p' = fund_work P (rt_json R) ao req q'"
      from call q'(1) have "fund_next ?F q w = (Ret q', w')" by simp
      from fund_next_ok [OF laws this pc cached] fund_next_about [OF this m(2)] fund_side_fund m(1)
      show ?thesis unfolding q'(2) fund_states_work by blast
    qed (simp_all add: sides_error)
    with grown show ?thesis by blast
  next
    case (Work_duck req q)
    with ok obtain m where m: "controller_call R req = Call_duckdb m" by auto
    have "keeps_all cache stored (work_next P R ao p)"
      unfolding Work_duck work_next.simps by (intro services_grow.keeps_intros services_grow.keeps_duck_next [OF duck])
    from cache_kept [OF this step cached] step fund_side_duck [OF m] sides_error(1) show ?thesis
      unfolding Work_duck work_next.simps by (auto elim!: catch_bindE)
  qed (use ok cached step in \<open>auto simp: io_return_apply\<close>)
qed

text \<open>The same call, seen from the queries.\<close>

lemma query_side_step:
  assumes "query_laws R tables signs plain" and made: "tables_ok (rt_duckdb R) (tables w) signs"
    and ok: "query_side P R ao signs plain (tables w) p" and step: "work_next P R ao p w = (r, w')"
  shows "tables w \<subseteq>\<^sub>m tables w' \<and> tables_ok (rt_duckdb R) (tables w') signs \<and>
    (\<forall>p'. r = Ret p' \<longrightarrow> query_side P R ao signs plain (tables w') p')"
proof -
  let ?D = "rt_duckdb R"
  from assms(1) have laws: "duck_laws ?D tables signs plain" and fund: "fund_ops_keep (tables_stay tables) (rt_fundamentals R)"
    and other: "other_ops_keep (tables_stay tables) R" by (simp_all add: query_laws_def)
  show ?thesis
  proof (cases p)
    case (Work_start req)
    from keepsD [OF start_kept [OF tables_stay.world_change_axioms other] step [unfolded Work_start]]
    have "tables w' = tables w" by (simp add: tables_stay_def)
    with start_next step Work_start made ok show ?thesis by (metis map_le_refl)
  next
    case (Work_fund req q)
    with ok obtain m where m: "controller_call R req = Call_fundamentals m" by auto
    have "same_tables tables (work_next P R ao p)"
      unfolding Work_fund work_next.simps by (intro tables_stay.keeps_intros tables_stay.keeps_fund_next [OF fund])
    from keepsD [OF this step] have "tables w' = tables w" by (simp add: tables_stay_def)
    with step query_side_fund [OF m] sides_error(2) made show ?thesis
      unfolding Work_fund work_next.simps by (auto elim!: catch_bindE)
  next
    case (Work_duck req q)
    with ok obtain m where m: "controller_call R req = Call_duckdb m" "duck_about m q" and pc: "duck_ok ?D (tables w) signs plain q" by auto
    from step Work_duck obtain r1 where call: "duck_next ?D q w = (r1, w')"
      and r1: "\<forall>p'. r = Ret p' \<longrightarrow>
        (\<exists>q'. r1 = Ret q' \<and> p' = duck_work P (rt_json R) ao req q') \<or> (\<exists>e. p' = work_error P ao req e)"
      by (auto elim!: catch_bindE)
    have "query_side P R ao signs plain (tables w') p'" if "r = Ret p'" for p'
      using r1 that
    proof (elim allE impE disjE exE conjE)
      fix q' assume q': "r1 = Ret q'" "p' = duck_work P (rt_json R) ao req q'"
      from call q'(1) have "duck_next ?D q w = (Ret q', w')" by simp
      from duck_next_ok [OF laws pc this] duck_next_about [OF this m(2)] query_side_duck m(1)
      show ?thesis unfolding q'(2) by blast
    qed (simp_all add: sides_error)
    with duck_next_grows [OF laws pc call] duck_next_tables_ok [OF laws pc call made] show ?thesis by blast
  qed (use ok made step in \<open>auto simp: io_return_apply map_le_refl\<close>)
qed

interpretation fund_side_guard: guarded_program "work_program P R ao" "\<lambda>p. True" "\<lambda>w w'. stored w \<subseteq> stored w'"
    "\<lambda>w S. url_laws R cache stored signs \<and> cache_ok (cache w) (stored w) signs (refused_puts (fund_states S))"
    "\<lambda>w S. fund_side P R ao signs (stored w) (refused_puts (fund_states S))"
  for P and R :: "('w, 'j, 'b) router" and ao cache stored signs
proof unfold_locales
  fix w w' :: 'w and p p' :: "'j work_pc" and r and S S' :: "'j work_pc set"
  show "fund_side P R ao signs (stored w) (refused_puts (fund_states S)) p \<Longrightarrow> stored w \<subseteq> stored w' \<Longrightarrow> S \<subseteq> S' \<Longrightarrow>
      fund_side P R ao signs (stored w') (refused_puts (fund_states S')) p"
    by (erule fund_side_mono) (simp_all add: fund_states_mono)
  show "url_laws R cache stored signs \<and> cache_ok (cache w) (stored w) signs (refused_puts (fund_states S)) \<Longrightarrow> S \<subseteq> S' \<Longrightarrow>
      url_laws R cache stored signs \<and> cache_ok (cache w) (stored w) signs (refused_puts (fund_states S'))"
    using url_ok_mono [OF _ subset_refl fund_states_mono] by (fastforce simp: cache_ok_def)
  assume prems: "url_laws R cache stored signs \<and> cache_ok (cache w) (stored w) signs (refused_puts (fund_states S))"
    "fund_side P R ao signs (stored w) (refused_puts (fund_states S)) p"
  show "stored w \<subseteq> stored w' \<and> url_laws R cache stored signs \<and> cache_ok (cache w') (stored w') signs (refused_puts (fund_states S))"
    if "pg_next (work_program P R ao) p w = (r, w')"
    using fund_side_step [of R cache stored signs w S P ao p r w'] prems that by simp
  show "fund_side P R ao signs (stored w') (refused_puts (fund_states (insert p' S))) p'"
    if "pg_next (work_program P R ao) p w = (Ret p', w')"
    using fund_side_step [of R cache stored signs w S P ao p "Ret p'" w'] prems that by simp
qed auto

interpretation query_side_guard: guarded_program "work_program P R ao" "\<lambda>p. plain_requests R plain {p}" "\<lambda>w w'. tables w \<subseteq>\<^sub>m tables w'"
    "\<lambda>w S. query_laws R tables signs plain \<and> tables_ok (rt_duckdb R) (tables w) signs"
    "\<lambda>w S. query_side P R ao signs plain (tables w)"
  for P and R :: "('w, 'j, 'b) router" and ao tables signs plain
proof unfold_locales
  fix w w' w'' :: 'w and p p' :: "'j work_pc" and r and S S' :: "'j work_pc set"
  show "tables w \<subseteq>\<^sub>m tables w' \<Longrightarrow> tables w' \<subseteq>\<^sub>m tables w'' \<Longrightarrow> tables w \<subseteq>\<^sub>m tables w''" by (rule map_le_trans)
  show "query_side P R ao signs plain (tables w) p \<Longrightarrow> tables w \<subseteq>\<^sub>m tables w' \<Longrightarrow> S \<subseteq> S' \<Longrightarrow> query_side P R ao signs plain (tables w') p"
    by (erule query_side_mono)
  show "pg_start (work_program P R ao) p \<Longrightarrow> plain_requests R plain {p} \<Longrightarrow> query_side P R ao signs plain (tables w) p"
    by (auto simp: plain_requests_def)
  assume prems: "query_laws R tables signs plain \<and> tables_ok (rt_duckdb R) (tables w) signs" "query_side P R ao signs plain (tables w) p"
  show "tables w \<subseteq>\<^sub>m tables w' \<and> query_laws R tables signs plain \<and> tables_ok (rt_duckdb R) (tables w') signs"
    if "pg_next (work_program P R ao) p w = (r, w')"
    using query_side_step [of R tables signs plain w P ao p r w'] prems that by simp
  show "query_side P R ao signs plain (tables w') p'" if "pg_next (work_program P R ao) p w = (Ret p', w')"
    using query_side_step [of R tables signs plain w P ao p "Ret p'" w'] prems that by simp
qed (simp_all add: map_le_refl)

lemma plain_requests_admitted: "plain_requests R plain (cs_seen s) \<Longrightarrow> guarded_program.all_admitted (work_program P R ao) (\<lambda>p. plain_requests R plain {p}) s"
  unfolding query_side_guard.all_admitted_def unfolding plain_requests_def by auto

section \<open>Properties\<close>

text \<open>
  C21: the work of a request, cut at its calls, is the posted lambda. Fourteen steps of a request in a row
  are \<open>background_work\<close>, exceptions and their status 500 included; and in the system of all requests a
  request that nobody disturbs leaves the services as the lambda does, and ends with the same
  response, or waits for ever as the lambda does.
\<close>
theorem calls_are_the_background_work:
  assumes "cs_requests s i = Some (Work_start req)" and "background_work P R ao req (cs_world s) = (r, w')" and "r \<noteq> Abort"
  shows "calls_run (work_program P R ao) 14 (Work_start req) =
      io_bind (background_work P R ao req) (\<lambda>answer. io_return (Work_done req answer)) \<and>
    (\<exists>is u. call_steps (work_program P R ao) s is u \<and> set is \<subseteq> {i} \<and> cs_world u = w' \<and>
      cs_requests u = (cs_requests s)(i \<mapsto> (case r of Ret answer \<Rightarrow> Work_done req answer | _ \<Rightarrow> Work_stuck)))"
proof -
  let ?q = "case r of Ret answer \<Rightarrow> Work_done req answer | _ \<Rightarrow> Work_stuck"
  let ?r = "case r of Ret answer \<Rightarrow> Ret (Work_done req answer) | Throw e \<Rightarrow> Throw e | Blocked \<Rightarrow> Blocked | Abort \<Rightarrow> Abort"
  have "calls_run (work_program P R ao) 14 (Work_start req) (cs_world s) = (?r, w')"
    unfolding work_run using assms(2) by (cases r) (simp_all add: io_bind_def io_return_def)
  from work_calls.undisturbed_run [OF assms(1) this, of ?q] assms(3) work_run [of P R ao req] show ?thesis
    by (cases r) auto
qed

text \<open>
  What requests for fundamentals are answered, however all requests interleave and whatever the queries among
  them are. A request for the fundamentals of a fund gets status 500 with the text of an exception, or
  status 200 and the JSON of its model with a URL that is presigned for the object of this
  fund, which is in the store unless a put of it was refused.
\<close>
lemma answers_for_fundamentals:
  assumes "url_laws R cache stored signs" and "cache_ok (cache w) (stored w) signs {}"
    and "call_steps (work_program P R ao) (new_call_system w) is s"
    and "cs_requests s i = Some (Work_done req answer)" and "controller_call R req = Call_fundamentals m"
  shows "(\<exists>url. answer = Some (fund_answer P (rt_json R) ao req m url) \<and>
      signs FUNDAMENTALS_BUCKET_NAME (fundamentals_location (pm_sravzid m)) url \<and>
      ((FUNDAMENTALS_BUCKET_NAME, fundamentals_location (pm_sravzid m)) \<in> stored (cs_world s) \<or>
       fundamentals_location (pm_sravzid m) \<in> refused_puts (fund_states (cs_seen s)))) \<or>
    (\<exists>e. answer = Some (error_answer P ao req e))"
proof -
  have "guarded_program.all_admitted (work_program P R ao) (\<lambda>p. True) s" by (simp add: fund_side_guard.all_admitted_def)
  from fund_side_guard.reachable_ok(2) [OF assms(3) this _ assms(4), of cache stored signs] assms(1,2,5) show ?thesis
    by (simp add: url_ok_def)
qed

text \<open>
  What queries are answered, however all requests interleave, as long as the where clauses of all queries so far are
  plain: status 500, or status 200 and rows of a table that was made from a presigned URL of a
  file with the name its table has.
\<close>
theorem answers_for_queries:
  assumes "query_laws R tables signs plain" and "tables w = Map.empty"
    and "call_steps (work_program P R ao) (new_call_system w) is s" and "plain_requests R plain (cs_seen s)"
    and "cs_requests s i = Some (Work_done req answer)" and "controller_call R req = Call_duckdb d"
  shows "(\<exists>rows url b k. answer = Some (duck_answer P (rt_json R) ao req d rows) \<and>
      tables (cs_world s) (model_table (rt_duckdb R) d) = Some url \<and> signs b k url \<and>
      duck_table_name (dd_hash_value (rt_duckdb R)) b k = model_table (rt_duckdb R) d) \<or>
    (\<exists>e. answer = Some (error_answer P ao req e))"
proof -
  have "query_laws R tables signs plain \<and> tables_ok (rt_duckdb R) (tables w) signs"
    using assms(1,2) by (simp add: tables_ok_def)
  note reached = query_side_guard.reachable_ok [OF assms(3) plain_requests_admitted [OF assms(4)], of tables signs, OF this]
  have "\<exists>url b k. tables (cs_world s) t = Some url \<and> signs b k url \<and> duck_table_name (dd_hash_value (rt_duckdb R)) b k = t"
    if "tables (cs_world s) t \<noteq> None" for t
    using reached(1) that unfolding tables_ok_def by (metis not_None_eq)
  with reached(2) [OF assms(5)] assms(6) show ?thesis by simp blast
qed

text \<open>A router with the database of \<open>map_deps\<close>, a full object store, and a Redis that forgets at once.\<close>

definition table_router :: "(string \<Rightarrow> string option, jval, unit) router" where
  "table_router =
     \<lparr>rt_parse_url = (\<lambda>s. if s = ''/fundamentals'' then Inr ([''fundamentals''], [(''sravzid'', ''fund_us_abc'')])
                          else Inr ([''duckdb''], [(''bucket'', ''b''), (''key'', ''k''), (''where_clause'', ''true'')])),
      rt_json = sample_json (\<lambda>s. None), rt_mongo = sample_mongo, rt_s3 = dd_s3 map_deps, rt_s3_config = default_s3_config,
      rt_fundamentals =
        \<lparr>fd_s3 = dd_s3 map_deps, fd_s3_config = default_s3_config,
         fd_redis = \<lparr>rd_get = (\<lambda>k. io_return None), rd_set = (\<lambda>k v. io_return True), rd_set_ex = (\<lambda>k v n. io_return True)\<rparr>,
         fd_net = \<lparr>nt_set_sni = (\<lambda>h. io_return True), nt_resolve = (\<lambda>h p. io_return None), nt_connect = io_return None,
                   nt_handshake = io_return None, nt_write = (\<lambda>r. io_return None), nt_read = io_return (None, []),
                   nt_shutdown = io_return None\<rparr>,
         fd_provider = \<lparr>EODHISTORICALDATA_API_KEY2 = ''k'', EODHISTORICALDATA_API_KEY = ''k''\<rparr>, fd_user_agent = ''B''\<rparr>,
      rt_duckdb = map_deps\<rparr>"

abbreviation table_program :: "(string \<Rightarrow> string option, jval work_pc) program" where
  "table_program \<equiv> work_program sample_params table_router []"

lemma table_url_laws: "url_laws table_router (\<lambda>w. Map.empty) (\<lambda>w. UNIV) (\<lambda>b k url. url = ''u'')"
  by (simp add: url_laws_def services_laws_def duck_ops_keep_def other_ops_keep_def net_ops_keep_def table_router_def
      map_deps_def map_duckdb_def sample_mongo_def keeps_def services_grow_def io_return_def)

lemma table_query_laws: "query_laws table_router (\<lambda>w. w) (\<lambda>b k url. url = ''u'') (\<lambda>c. c = ''true'')"
proof -
  have "fund_ops_keep (tables_stay (\<lambda>w. w)) (rt_fundamentals table_router)" "other_ops_keep (tables_stay (\<lambda>w. w)) table_router"
    by (auto simp: fund_ops_keep_def other_ops_keep_def net_ops_keep_def table_router_def
      map_deps_def sample_mongo_def keeps_def tables_stay_def io_return_def)
  then show ?thesis using map_laws by (simp add: query_laws_def table_router_def)
qed

text \<open>This router gives every query the same where clause.\<close>

lemma table_plain: "plain_requests table_router (\<lambda>c. c = ''true'') S"
  by (auto simp: plain_requests_def controller_call_def table_router_def map_model_fields(3) [unfolded map_model_def, simplified]
      split: if_splits)

definition query_request :: http_request where
  "query_request = sample_request\<lparr>req_target := ''/duckdb''\<rparr>"

lemma query_call: "controller_call table_router query_request = Call_duckdb map_model"
  by (simp add: controller_call_def table_router_def query_request_def sample_request_def map_model_def fun_upd_twist)

lemma query_work:
  "background_work sample_params table_router [] query_request Map.empty =
     (Ret (Some (duck_answer sample_params (rt_json table_router) [] query_request map_model [])), [sample_table \<mapsto> ''u''])"
proof -
  have "rt_duckdb table_router = map_deps" by (simp add: table_router_def)
  with map_get controller_call_routes(2) [OF query_call] controller_call_status(2) [OF query_call] show ?thesis
    by (simp add: background_work_def route_def duck_answer_def io_bind_def io_catch_def io_return_def)
qed

lemma query_arrival:
  "call_steps table_program (new_call_system Map.empty) []
     (moved 0 (Work_start query_request) Map.empty (new_call_system Map.empty))"
proof -
  have "pg_start table_program (Work_start query_request)" by (simp add: query_call map_model_fields)
  from request_posted [of "new_call_system Map.empty" 0, OF _ this] call_steps_more [OF call_steps_none, of table_program]
  show ?thesis by fastforce
qed

theorem calls_are_the_background_work_witness:
  "\<exists>is u. call_steps table_program (new_call_system Map.empty) is u \<and> cs_world u = [sample_table \<mapsto> ''u''] \<and>
     cs_requests u 0 = Some (Work_done query_request
       (Some (duck_answer sample_params (rt_json table_router) [] query_request map_model [])))"
proof -
  let ?s = "moved 0 (Work_start query_request) Map.empty (new_call_system Map.empty)"
  have "cs_requests ?s 0 = Some (Work_start query_request)" and "cs_world ?s = Map.empty" by simp_all
  with calls_are_the_background_work [of ?s 0 query_request sample_params table_router "[]", OF _ _] query_work
  obtain "is" u where
    u: "call_steps table_program ?s is u" "cs_world u = [sample_table \<mapsto> ''u'']"
      "cs_requests u 0 = Some (Work_done query_request
         (Some (duck_answer sample_params (rt_json table_router) [] query_request map_model [])))" by fastforce
  from call_steps_trans [OF u(1) query_arrival] u(2,3) show ?thesis by blast
qed

lemma query_answered:
  "\<exists>is u. call_steps table_program (new_call_system Map.empty) is u \<and>
     cs_requests u 0 = Some (Work_done query_request
       (Some (duck_answer sample_params (rt_json table_router) [] query_request map_model [])))"
proof -
  let ?s = "moved 0 (Work_start query_request) Map.empty (new_call_system Map.empty)"
  let ?q = "Work_done query_request (Some (duck_answer sample_params (rt_json table_router) [] query_request map_model []))"
  have "calls_run table_program 14 (Work_start query_request) (cs_world ?s) = (Ret ?q, [sample_table \<mapsto> ''u''])"
    unfolding work_run by (simp add: query_work io_bind_def io_return_def)
  from work_calls.undisturbed_run [OF _ this, of 0 ?q] obtain "is" u where
    u: "call_steps table_program ?s is u" "cs_requests u 0 = Some ?q" by auto
  from call_steps_trans [OF u(1) query_arrival] u(2) show ?thesis by blast
qed

theorem answers_for_queries_witness:
  "\<exists>is u. call_steps table_program (new_call_system Map.empty) is u \<and>
     cs_requests u 0 = Some (Work_done query_request
       (Some (duck_answer sample_params (rt_json table_router) [] query_request map_model []))) \<and>
     ((\<exists>url b k. cs_world u sample_table = Some url \<and> url = ''u'' \<and> duck_table_name length b k = sample_table) \<or>
      (\<exists>e. duck_answer sample_params (rt_json table_router) [] query_request map_model [] = error_answer sample_params [] query_request e))"
proof -
  from query_answered obtain "is" u where u: "call_steps table_program (new_call_system Map.empty) is u"
    "cs_requests u 0 = Some (Work_done query_request
       (Some (duck_answer sample_params (rt_json table_router) [] query_request map_model [])))" by blast
  have "rt_duckdb table_router = map_deps" "dd_hash_value map_deps = length" by (simp_all add: table_router_def map_deps_def)
  with answers_for_queries [OF table_query_laws refl u(1) table_plain u(2) query_call] u map_model_table show ?thesis
    by simp blast
qed

end
