(* ===== verification/Worker_System.thy ===== *)
theory Worker_System
  imports Background_System
begin

text \<open>
  The threads of \<open>src/web/webserver.cpp\<close> that run \<open>ioc_background_worker\<close>, with the requests they work on. A
  thread takes the first handler of the context's queue: the lambda that a session posted, which it runs to
  its end, or the resumption of the coroutine of a download (\<open>DataProvider::httpGet_\<close>), which it runs to the
  next asynchronous operation. A worker whose request downloads waits in \<open>future.get()\<close>, in its thread.

  One asynchronous operation is one completion here; the library's own intermediate handlers would
  only need more of the threads.
  The strand of the data provider runs one resumption at a time and in order, which the queue gives
  as well, since a resumption is one step.
\<close>

section \<open>State and steps\<close>

datatype handler = Run_route nat | Run_coroutine nat

record ('w, 'j) worker_system =
  wk_calls :: "('w, 'j work_pc) call_system"
  wk_free :: nat \<comment> \<open>threads inside \<open>run()\<close> with no handler\<close>
  wk_queue :: "handler list"
  wk_running :: "nat list" \<comment> \<open>requests whose lambda is running in a thread\<close>
  wk_waiting :: "nat list" \<comment> \<open>requests whose thread waits: in \<open>future.get()\<close> or in a call that never returns\<close>
  wk_network :: "nat list" \<comment> \<open>downloads whose coroutine is suspended in an asynchronous operation\<close>

definition new_worker_system :: "nat \<Rightarrow> 'w \<Rightarrow> ('w, 'j) worker_system" where
  "new_worker_system workers w =
     \<lparr>wk_calls = new_call_system w, wk_free = workers, wk_queue = [], wk_running = [], wk_waiting = [], wk_network = []\<rparr>"

text \<open>The states in which the next call is made by a coroutine.\<close>

fun work_waits :: "'j work_pc \<Rightarrow> bool" where
  "work_waits (Work_fund req (At_net m target k)) = True"
| "work_waits _ = False"

definition wk_request :: "('w, 'j) worker_system \<Rightarrow> nat \<Rightarrow> 'j work_pc option" where
  "wk_request s i = cs_requests (wk_calls s) i"

definition wk_world :: "('w, 'j) worker_system \<Rightarrow> 'w" where
  "wk_world s = cs_world (wk_calls s)"

definition wk_moved :: "nat \<Rightarrow> 'j work_pc \<Rightarrow> 'w \<Rightarrow> ('w, 'j) worker_system \<Rightarrow> ('w, 'j) worker_system" where
  "wk_moved i p w s = s\<lparr>wk_calls := moved i p w (wk_calls s)\<rparr>"

inductive worker_step ::
    "http_params \<Rightarrow> ('w, 'j, 'b) router \<Rightarrow> string list \<Rightarrow> ('w, 'j) worker_system \<Rightarrow> ('w, 'j) worker_system \<Rightarrow> bool"
  for P R ao where
  route_starts:
    "wk_queue s = Run_route i # js \<Longrightarrow> 0 < wk_free s \<Longrightarrow>
     worker_step P R ao s (s\<lparr>wk_queue := js, wk_free := wk_free s - 1, wk_running := wk_running s @ [i]\<rparr>)"
| worker_goes_on:
    "i \<in> set (wk_running s) \<Longrightarrow> wk_request s i = Some p \<Longrightarrow> work_next P R ao p (wk_world s) = (Ret q, w') \<Longrightarrow>
     \<not> work_final q \<Longrightarrow> \<not> work_waits q \<Longrightarrow> worker_step P R ao s (wk_moved i q w' s)"
| worker_answers:
    "i \<in> set (wk_running s) \<Longrightarrow> wk_request s i = Some p \<Longrightarrow>
     work_next P R ao p (wk_world s) = (Ret (Work_done req answer), w') \<Longrightarrow>
     worker_step P R ao s
       ((wk_moved i (Work_done req answer) w' s)\<lparr>wk_running := remove1 i (wk_running s), wk_free := Suc (wk_free s)\<rparr>)"
| worker_waits: \<comment> \<open>\<open>httpGet\<close> spawns the coroutine, and the worker enters \<open>future.get()\<close>\<close>
    "i \<in> set (wk_running s) \<Longrightarrow> wk_request s i = Some p \<Longrightarrow> work_next P R ao p (wk_world s) = (Ret q, w') \<Longrightarrow> work_waits q \<Longrightarrow>
     worker_step P R ao s
       ((wk_moved i q w' s)\<lparr>wk_running := remove1 i (wk_running s), wk_waiting := wk_waiting s @ [i],
                            wk_queue := wk_queue s @ [Run_coroutine i]\<rparr>)"
| worker_hangs:
    "i \<in> set (wk_running s) \<Longrightarrow> wk_request s i = Some p \<Longrightarrow> work_next P R ao p (wk_world s) = (Blocked, w') \<Longrightarrow>
     worker_step P R ao s
       ((wk_moved i Work_stuck w' s)\<lparr>wk_running := remove1 i (wk_running s), wk_waiting := wk_waiting s @ [i]\<rparr>)"
| coroutine_suspends:
    "wk_queue s = Run_coroutine i # js \<Longrightarrow> 0 < wk_free s \<Longrightarrow> wk_request s i = Some p \<Longrightarrow>
     work_next P R ao p (wk_world s) = (Ret q, w') \<Longrightarrow> work_waits q \<Longrightarrow>
     worker_step P R ao s ((wk_moved i q w' s)\<lparr>wk_queue := js, wk_network := wk_network s @ [i]\<rparr>)"
| promise_fulfilled: \<comment> \<open>the callback sets the value, and the waiting worker goes on\<close>
    "wk_queue s = Run_coroutine i # js \<Longrightarrow> 0 < wk_free s \<Longrightarrow> wk_request s i = Some p \<Longrightarrow>
     work_next P R ao p (wk_world s) = (Ret q, w') \<Longrightarrow> \<not> work_waits q \<Longrightarrow> \<not> work_final q \<Longrightarrow>
     worker_step P R ao s
       ((wk_moved i q w' s)\<lparr>wk_queue := js, wk_waiting := remove1 i (wk_waiting s), wk_running := wk_running s @ [i]\<rparr>)"
| coroutine_fails: \<comment> \<open>it returns without a value, and the worker waits for ever\<close>
    "wk_queue s = Run_coroutine i # js \<Longrightarrow> 0 < wk_free s \<Longrightarrow> wk_request s i = Some p \<Longrightarrow>
     work_next P R ao p (wk_world s) = (Blocked, w') \<Longrightarrow>
     worker_step P R ao s ((wk_moved i Work_stuck w' s)\<lparr>wk_queue := js\<rparr>)"
| network_completes:
    "wk_network s = xs @ i # ys \<Longrightarrow>
     worker_step P R ao s (s\<lparr>wk_network := xs @ ys, wk_queue := wk_queue s @ [Run_coroutine i]\<rparr>)"

text \<open>A session posts a request (\<open>http_session::handle_request\<close>).\<close>

definition post_request :: "nat \<Rightarrow> http_request \<Rightarrow> ('w, 'j) worker_system \<Rightarrow> ('w, 'j) worker_system" where
  "post_request i req s = (wk_moved i (Work_start req) (wk_world s) s)\<lparr>wk_queue := wk_queue s @ [Run_route i]\<rparr>"

text \<open>Runs without and with new requests.\<close>

inductive worker_runs ::
    "http_params \<Rightarrow> ('w, 'j, 'b) router \<Rightarrow> string list \<Rightarrow> nat \<Rightarrow> ('w, 'j) worker_system \<Rightarrow> ('w, 'j) worker_system \<Rightarrow> bool"
  for P R ao where
  runs_none: "worker_runs P R ao 0 s s"
| runs_more: "worker_runs P R ao n s t \<Longrightarrow> worker_step P R ao t u \<Longrightarrow> worker_runs P R ao (Suc n) s u"

inductive worker_reaches ::
    "http_params \<Rightarrow> ('w, 'j, 'b) router \<Rightarrow> string list \<Rightarrow> ('w, 'j) worker_system \<Rightarrow> ('w, 'j) worker_system \<Rightarrow> bool"
  for P R ao s where
  reaches_start: "worker_reaches P R ao s s"
| reaches_step: "worker_reaches P R ao s t \<Longrightarrow> worker_step P R ao t u \<Longrightarrow> worker_reaches P R ao s u"
| reaches_post: "worker_reaches P R ao s t \<Longrightarrow> wk_request t i = None \<Longrightarrow> worker_reaches P R ao s (post_request i req t)"

lemma wk_moved_fields [simp]:
  "wk_request (wk_moved i p w s) = (wk_request s)(i \<mapsto> p)" "wk_world (wk_moved i p w s) = w"
  "wk_free (wk_moved i p w s) = wk_free s" "wk_queue (wk_moved i p w s) = wk_queue s" "wk_running (wk_moved i p w s) = wk_running s"
  "wk_waiting (wk_moved i p w s) = wk_waiting s" "wk_network (wk_moved i p w s) = wk_network s"
  "wk_calls (wk_moved i p w s) = moved i p w (wk_calls s)"
  by (simp_all add: wk_moved_def wk_request_def wk_world_def fun_eq_iff)

lemma wk_request_updates [simp]:
  "wk_request (s\<lparr>wk_queue := a\<rparr>) = wk_request s" "wk_request (s\<lparr>wk_free := b\<rparr>) = wk_request s"
  "wk_request (s\<lparr>wk_running := c\<rparr>) = wk_request s" "wk_request (s\<lparr>wk_waiting := d\<rparr>) = wk_request s"
  "wk_request (s\<lparr>wk_network := e\<rparr>) = wk_request s"
  "wk_world (s\<lparr>wk_queue := a\<rparr>) = wk_world s" "wk_world (s\<lparr>wk_free := b\<rparr>) = wk_world s"
  "wk_world (s\<lparr>wk_running := c\<rparr>) = wk_world s" "wk_world (s\<lparr>wk_waiting := d\<rparr>) = wk_world s"
  "wk_world (s\<lparr>wk_network := e\<rparr>) = wk_world s"
  by (simp_all add: wk_request_def wk_world_def fun_eq_iff)

lemma new_worker_system_fields [simp]:
  "wk_request (new_worker_system N w) = Map.empty" "wk_world (new_worker_system N w) = w" "wk_free (new_worker_system N w) = N"
  "wk_queue (new_worker_system N w) = []" "wk_running (new_worker_system N w) = []" "wk_waiting (new_worker_system N w) = []"
  "wk_network (new_worker_system N w) = []" "wk_calls (new_worker_system N w) = new_call_system w"
  by (simp_all add: new_worker_system_def wk_request_def wk_world_def fun_eq_iff)

lemma post_request_fields [simp]:
  "wk_request (post_request i req s) = (wk_request s)(i \<mapsto> Work_start req)" "wk_world (post_request i req s) = wk_world s"
  "wk_free (post_request i req s) = wk_free s" "wk_queue (post_request i req s) = wk_queue s @ [Run_route i]"
  "wk_running (post_request i req s) = wk_running s" "wk_waiting (post_request i req s) = wk_waiting s"
  "wk_network (post_request i req s) = wk_network s"
  "wk_calls (post_request i req s) = moved i (Work_start req) (wk_world s) (wk_calls s)"
  by (simp_all add: post_request_def)

section \<open>Where a request is\<close>

text \<open>
  A state of a request that can occur, and the place of the request for each: an answered one is nowhere,
  one that hangs only keeps its thread, one that downloads keeps its thread and has its coroutine in
  the queue or in the network, and any other is in the queue or in a thread.
\<close>

fun work_wf :: "'j work_pc \<Rightarrow> bool" where
  "work_wf (Work_fund req p) = (\<not> fund_final p)"
| "work_wf (Work_duck req p) = (\<not> duck_final p)"
| "work_wf _ = True"

definition places :: "('w, 'j) worker_system \<Rightarrow> nat \<Rightarrow> nat \<times> nat \<times> nat \<times> nat \<times> nat" where
  "places s i =
     (count_list (wk_queue s) (Run_route i), count_list (wk_running s) i, count_list (wk_waiting s) i,
      count_list (wk_queue s) (Run_coroutine i), count_list (wk_network s) i)"

fun placed :: "'j work_pc option \<Rightarrow> nat \<times> nat \<times> nat \<times> nat \<times> nat \<Rightarrow> bool" where
  "placed None c \<longleftrightarrow> c = (0, 0, 0, 0, 0)"
| "placed (Some (Work_done req answer)) c \<longleftrightarrow> c = (0, 0, 0, 0, 0)"
| "placed (Some Work_stuck) c \<longleftrightarrow> c = (0, 0, 1, 0, 0)"
| "placed (Some p) (queued, running, waiting, resumed, network) \<longleftrightarrow>
     (if work_waits p then queued = 0 \<and> running = 0 \<and> waiting = 1 \<and> resumed + network = 1
      else queued + running = 1 \<and> waiting = 0 \<and> resumed = 0 \<and> network = 0)"

definition workers_ok :: "nat \<Rightarrow> ('w, 'j) worker_system \<Rightarrow> bool" where
  "workers_ok N s \<longleftrightarrow>
     wk_free s + length (wk_running s) + length (wk_waiting s) = N \<and>
     (\<forall>i. placed (wk_request s i) (places s i)) \<and> (\<forall>i p. wk_request s i = Some p \<longrightarrow> work_wf p)"

lemma count_list_remove1: "count_list (remove1 x xs) y = count_list xs y - (if x = y then 1 else 0)"
  by (induction xs) auto

lemma count_list_pos: "x \<in> set xs \<longleftrightarrow> 0 < count_list xs x"
  by (metis count_list_0_iff not_gr_zero)

lemma placed_simps:
  "\<not> work_final q \<Longrightarrow> \<not> work_waits q \<Longrightarrow> placed (Some q) (a, b, c, d, e) \<longleftrightarrow> a + b = 1 \<and> c = 0 \<and> d = 0 \<and> e = 0"
  "work_waits q \<Longrightarrow> placed (Some q) (a, b, c, d, e) \<longleftrightarrow> a = 0 \<and> b = 0 \<and> c = 1 \<and> d + e = 1"
  by (cases q; simp)+

text \<open>What a place says of the state.\<close>

lemma placedD:
  assumes "placed r (a, b, c, d, e)"
  shows "0 < b \<Longrightarrow> \<exists>p. r = Some p \<and> \<not> work_final p \<and> \<not> work_waits p \<and> b = 1 \<and> a = 0 \<and> c = 0 \<and> d = 0 \<and> e = 0"
    and "0 < a \<Longrightarrow> \<exists>p. r = Some p \<and> \<not> work_final p \<and> \<not> work_waits p \<and> a = 1 \<and> b = 0 \<and> c = 0 \<and> d = 0 \<and> e = 0"
    and "0 < d + e \<Longrightarrow> \<exists>p. r = Some p \<and> work_waits p \<and> d + e = 1 \<and> a = 0 \<and> b = 0 \<and> c = 1"
proof -
  consider "r = None" | req answer where "r = Some (Work_done req answer)" | "r = Some Work_stuck"
    | p where "r = Some p" "\<not> work_final p" "work_waits p" | p where "r = Some p" "\<not> work_final p" "\<not> work_waits p"
    by (metis not_None_eq work_final.elims(2))
  note cases = this
  show "0 < b \<Longrightarrow> \<exists>p. r = Some p \<and> \<not> work_final p \<and> \<not> work_waits p \<and> b = 1 \<and> a = 0 \<and> c = 0 \<and> d = 0 \<and> e = 0"
    using assms by (cases rule: cases) (auto simp: placed_simps)
  show "0 < a \<Longrightarrow> \<exists>p. r = Some p \<and> \<not> work_final p \<and> \<not> work_waits p \<and> a = 1 \<and> b = 0 \<and> c = 0 \<and> d = 0 \<and> e = 0"
    using assms by (cases rule: cases) (auto simp: placed_simps)
  show "0 < d + e \<Longrightarrow> \<exists>p. r = Some p \<and> work_waits p \<and> d + e = 1 \<and> a = 0 \<and> b = 0 \<and> c = 1"
    using assms by (cases rule: cases) (auto simp: placed_simps)
qed

lemma fund_next_going: "fund_next F p w = (Ret q, w') \<Longrightarrow> \<not> fund_final p \<Longrightarrow> fund_final q \<Longrightarrow> \<exists>m. q = Fund_answered m"
proof (cases p)
  case (At_net m target k)
  moreover assume "fund_next F p w = (Ret q, w')" "fund_final q"
  ultimately have "fund_next F (At_net m target k) w = (Ret q, w')" "fund_final q" by simp_all
  then show ?thesis by (cases rule: At_net_nextE) simp_all
qed (auto simp: io_bind_Ret_iff io_return_apply Let_def split: option.splits if_splits)

lemma duck_next_going: "duck_next D p w = (Ret q, w') \<Longrightarrow> \<not> duck_final p \<Longrightarrow> duck_final q \<Longrightarrow> \<exists>m. q = Dk_answered m"
  by (cases p) (auto simp: io_bind_Ret_iff io_return_apply split: if_splits)

text \<open>The states that steps lead to; no step throws.\<close>

lemma work_next_wf:
  assumes "work_next P R ao p w = (Ret q, w')" and "work_wf p" and "\<not> work_final p"
  shows "work_wf q \<and> q \<noteq> Work_stuck"
proof (cases p)
  case (Work_start req)
  with assms(1) show ?thesis
    by (cases "controller_call R req") (auto simp: io_return_apply io_bind_Ret_iff work_answer_def)
next
  case (Work_fund req k)
  with assms(1) have "io_catch (io_bind (fund_next (rt_fundamentals R) k) (\<lambda>p'. io_return (fund_work P (rt_json R) ao req p')))
       (\<lambda>ex. io_return (work_error P ao req ex)) w = (Ret q, w')" by simp
  then show ?thesis
  proof (cases rule: catch_bindE)
    case (1 k')
    with fund_next_going [OF 1(1)] assms(2) Work_fund show ?thesis
      by (cases "fund_final k'") (auto simp: work_answer_def fund_work_going)
  qed (auto simp: work_error_def work_answer_def)
next
  case (Work_duck req k)
  with assms(1) have "io_catch (io_bind (duck_next (rt_duckdb R) k) (\<lambda>p'. io_return (duck_work P (rt_json R) ao req p')))
       (\<lambda>ex. io_return (work_error P ao req ex)) w = (Ret q, w')" by simp
  then show ?thesis
  proof (cases rule: catch_bindE)
    case (1 k')
    with duck_next_going [OF 1(1)] assms(2) Work_duck show ?thesis
      by (cases "duck_final k'") (auto simp: work_answer_def duck_work_going)
  qed (auto simp: work_error_def work_answer_def)
qed (use assms(3) in simp_all)

lemma work_next_never_throws: "work_next P R ao p w \<noteq> (Throw e, w')"
proof (cases p)
  case (Work_start req)
  have "route R (req_method req) (req_target req) (req_body req) w \<noteq> (Throw e, w')"
    using route_never_throws [of R "req_method req" "req_target req" "req_body req" w e] by auto
  with Work_start show ?thesis
    by (cases "controller_call R req") (auto simp: io_return_apply io_bind_def split: prod.splits outcome.splits)
qed (auto simp: io_return_apply elim!: catch_bindE)

section \<open>Invariant\<close>

inductive_cases worker_stepE: "worker_step P R ao s t"

lemma workers_ok_new: "workers_ok N (new_worker_system N w)"
  by (simp add: workers_ok_def places_def)

lemma workers_ok_post: "workers_ok N s \<Longrightarrow> wk_request s i = None \<Longrightarrow> workers_ok N (post_request i req s)"
proof -
  assume ok: "workers_ok N s" and new: "wk_request s i = None"
  then have "places s i = (0, 0, 0, 0, 0)" unfolding workers_ok_def by (metis placed.simps(1))
  with ok show ?thesis by (auto simp: workers_ok_def places_def)
qed

lemma workers_okD:
  assumes "workers_ok N s"
  shows "wk_free s + length (wk_running s) + length (wk_waiting s) = N"
    and "placed (wk_request s i) (places s i)" and "wk_request s i = Some p \<Longrightarrow> work_wf p"
  using assms by (simp_all add: workers_ok_def)

lemma running_state:
  assumes "workers_ok N s" and "i \<in> set (wk_running s)"
  obtains p where "wk_request s i = Some p" "\<not> work_final p" "\<not> work_waits p" "work_wf p" "places s i = (0, 1, 0, 0, 0)"
proof -
  from assms(2) have "0 < count_list (wk_running s) i" by (simp add: count_list_pos)
  from placedD(1) [OF workers_okD(2) [OF assms(1), of i, unfolded places_def] this] workers_okD(3) [OF assms(1), of i] that
  show thesis by (auto simp: places_def)
qed

lemma queued_state:
  assumes "workers_ok N s" and "Run_route i \<in> set (wk_queue s)"
  obtains p where "wk_request s i = Some p" "\<not> work_final p" "\<not> work_waits p" "work_wf p" "places s i = (1, 0, 0, 0, 0)"
proof -
  from assms(2) have "0 < count_list (wk_queue s) (Run_route i)" by (simp add: count_list_pos)
  from placedD(2) [OF workers_okD(2) [OF assms(1), of i, unfolded places_def] this] workers_okD(3) [OF assms(1), of i] that
  show thesis by (auto simp: places_def)
qed

lemma coroutine_state:
  assumes "workers_ok N s" and "Run_coroutine i \<in> set (wk_queue s) \<or> i \<in> set (wk_network s)"
  shows "\<exists>p. wk_request s i = Some p \<and> work_waits p \<and> work_wf p \<and> (\<exists>d e. places s i = (0, 0, 1, d, e) \<and> d + e = 1)"
proof -
  from assms(2) have "0 < count_list (wk_queue s) (Run_coroutine i) + count_list (wk_network s) i" by (auto simp: count_list_pos)
  from placedD(3) [OF workers_okD(2) [OF assms(1), of i, unfolded places_def] this] workers_okD(3) [OF assms(1), of i]
  show ?thesis by (auto simp: places_def)
qed

lemma waits_not_final: "work_waits p \<Longrightarrow> \<not> work_final p"
  by (cases p) auto

text \<open>A step that moves one request, and leaves the places of the others.\<close>

lemma workers_ok_change:
  assumes "workers_ok N s" and "wk_request t = (wk_request s)(i \<mapsto> q)" and "work_wf q" and "placed (Some q) (places t i)"
    and "\<And>j. j \<noteq> i \<Longrightarrow> places t j = places s j"
    and "wk_free t + length (wk_running t) + length (wk_waiting t) = wk_free s + length (wk_running s) + length (wk_waiting s)"
  shows "workers_ok N t"
  unfolding workers_ok_def
proof (intro conjI allI impI)
  fix j p
  show "placed (wk_request t j) (places t j)"
    using assms(2,4,5) workers_okD(2) [OF assms(1), of j] by (cases "j = i") auto
  show "work_wf p" if "wk_request t j = Some p"
    using assms(2,3) that workers_okD(3) [OF assms(1), of j] by (cases "j = i") auto
qed (use assms(6) workers_okD(1) [OF assms(1)] in simp)

lemma workers_ok_worker_step:
  assumes "worker_step P R ao s t" and ok: "workers_ok N s"
  shows "workers_ok N t"
  using assms(1)
proof cases
  case (route_starts i js)
  from queued_state [OF ok, of i] route_starts(2) obtain p where p: "wk_request s i = Some p" "\<not> work_final p" "\<not> work_waits p"
    "work_wf p" "places s i = (1, 0, 0, 0, 0)" by auto
  from p(5) route_starts(2) have "count_list js (Run_route i) = 0" by (simp add: places_def)
  with p route_starts show ?thesis
    by (intro workers_ok_change [OF ok, of t i p]) (auto simp: places_def placed_simps fun_upd_idem)
next
  case (worker_goes_on i p q w')
  from running_state [OF ok worker_goes_on(2)] worker_goes_on(3) have p: "\<not> work_final p" "work_wf p" "places s i = (0, 1, 0, 0, 0)" by auto
  from work_next_wf [OF worker_goes_on(4) p(2,1)] p(3) worker_goes_on show ?thesis
    by (intro workers_ok_change [OF ok, of t i q]) (auto simp: places_def placed_simps)
next
  case (worker_answers i p req answer w')
  from running_state [OF ok worker_answers(2)] have p: "places s i = (0, 1, 0, 0, 0)" by auto
  from worker_answers(2) have "0 < length (wk_running s)" by (cases "wk_running s") auto
  with p worker_answers show ?thesis
    by (intro workers_ok_change [OF ok, of t i "Work_done req answer"]) (auto simp: places_def count_list_remove1 length_remove1)
next
  case (worker_waits i p q w')
  from running_state [OF ok worker_waits(2)] worker_waits(3) have p: "\<not> work_final p" "work_wf p" "places s i = (0, 1, 0, 0, 0)" by auto
  from worker_waits(2) have "0 < length (wk_running s)" by (cases "wk_running s") auto
  with work_next_wf [OF worker_waits(4) p(2,1)] p(3) worker_waits show ?thesis
    by (intro workers_ok_change [OF ok, of t i q]) (auto simp: places_def placed_simps count_list_remove1 length_remove1)
next
  case (worker_hangs i p w')
  from running_state [OF ok worker_hangs(2)] have p: "places s i = (0, 1, 0, 0, 0)" by auto
  from worker_hangs(2) have "0 < length (wk_running s)" by (cases "wk_running s") auto
  with p worker_hangs show ?thesis
    by (intro workers_ok_change [OF ok, of t i Work_stuck]) (auto simp: places_def count_list_remove1 length_remove1)
next
  case (coroutine_suspends i js p q w')
  from coroutine_state [OF ok, of i] coroutine_suspends(2,4) obtain d e where p: "work_waits p" "work_wf p"
    "places s i = (0, 0, 1, d, e)" "d + e = 1" by auto
  with coroutine_suspends(2) have "count_list js (Run_coroutine i) = 0" "e = 0" by (auto simp: places_def)
  with work_next_wf [OF coroutine_suspends(5) p(2) waits_not_final [OF p(1)]] p(3) coroutine_suspends show ?thesis
    by (intro workers_ok_change [OF ok, of t i q]) (auto simp: places_def placed_simps)
next
  case (promise_fulfilled i js p q w')
  from coroutine_state [OF ok, of i] promise_fulfilled(2,4) obtain d e where p: "work_waits p" "work_wf p"
    "places s i = (0, 0, 1, d, e)" "d + e = 1" by auto
  with promise_fulfilled(2) have js: "count_list js (Run_coroutine i) = 0" "e = 0" by (auto simp: places_def)
  from p(3) have "i \<in> set (wk_waiting s)" by (simp add: places_def count_list_pos)
  then have "0 < length (wk_waiting s)" by (cases "wk_waiting s") auto
  with work_next_wf [OF promise_fulfilled(5) p(2) waits_not_final [OF p(1)]] p(3) js promise_fulfilled \<open>i \<in> set (wk_waiting s)\<close> show ?thesis
    by (intro workers_ok_change [OF ok, of t i q]) (auto simp: places_def placed_simps count_list_remove1 length_remove1)
next
  case (coroutine_fails i js p w')
  from coroutine_state [OF ok, of i] coroutine_fails(2,4) obtain d e where p: "places s i = (0, 0, 1, d, e)" "d + e = 1" by auto
  with coroutine_fails show ?thesis
    by (intro workers_ok_change [OF ok, of t i Work_stuck]) (auto simp: places_def)
next
  case (network_completes xs i ys)
  from coroutine_state [OF ok, of i] network_completes(2) obtain p d e where p: "wk_request s i = Some p" "work_waits p" "work_wf p"
    "places s i = (0, 0, 1, d, e)" "d + e = 1" by auto
  with network_completes show ?thesis
    by (intro workers_ok_change [OF ok, of t i p]) (auto simp: places_def placed_simps fun_upd_idem)
qed

section \<open>The calls of the requests\<close>

lemma wk_calls_step:
  assumes "wk_request s i = Some p" and "\<not> work_final p"
  shows "work_next P R ao p (wk_world s) = (Ret q, w') \<Longrightarrow> call_step (work_program P R ao) (wk_calls s) (Some i) (moved i q w' (wk_calls s))"
    and "work_next P R ao p (wk_world s) = (Blocked, w') \<Longrightarrow> call_step (work_program P R ao) (wk_calls s) (Some i) (moved i Work_stuck w' (wk_calls s))"
  using assms call_returns [of "wk_calls s" i p "work_program P R ao" q w'] call_blocks [of "wk_calls s" i p "work_program P R ao" w']
  by (simp_all add: wk_request_def wk_world_def)

lemma worker_step_calls:
  assumes "worker_step P R ao s t" and ok: "workers_ok N s"
  shows "wk_calls t = wk_calls s \<or> (\<exists>i. call_step (work_program P R ao) (wk_calls s) (Some i) (wk_calls t))"
proof -
  have going: "\<not> work_final p" if "i \<in> set (wk_running s) \<or> Run_coroutine i \<in> set (wk_queue s)" "wk_request s i = Some p" for i p
    using that running_state [OF ok, of i] coroutine_state [OF ok, of i] waits_not_final by (metis option.inject)
  from assms(1) show ?thesis
  proof cases
    case (worker_goes_on i p q w')
    with wk_calls_step(1) [of s i p P R ao q w'] going [of i p] show ?thesis by auto
  next
    case (worker_answers i p req answer w')
    with wk_calls_step(1) [of s i p P R ao "Work_done req answer" w'] going [of i p] show ?thesis by auto
  next
    case (worker_waits i p q w')
    with wk_calls_step(1) [of s i p P R ao q w'] going [of i p] show ?thesis by auto
  next
    case (worker_hangs i p w')
    with wk_calls_step(2) [of s i p P R ao w'] going [of i p] show ?thesis by auto
  next
    case (coroutine_suspends i js p q w')
    with wk_calls_step(1) [of s i p P R ao q w'] going [of i p] show ?thesis by auto
  next
    case (promise_fulfilled i js p q w')
    with wk_calls_step(1) [of s i p P R ao q w'] going [of i p] show ?thesis by auto
  next
    case (coroutine_fails i js p w')
    with wk_calls_step(2) [of s i p P R ao w'] going [of i p] show ?thesis by auto
  qed auto
qed

lemma worker_reaches_ok:
  "worker_reaches P R ao s t \<Longrightarrow> workers_ok N s \<Longrightarrow> workers_ok N t"
proof (induction rule: worker_reaches.induct)
  case (reaches_step t u)
  then show ?case using workers_ok_worker_step by blast
qed (simp_all add: workers_ok_post)

lemma worker_reaches_calls:
  "worker_reaches P R ao s t \<Longrightarrow> workers_ok N s \<Longrightarrow> call_steps (work_program P R ao) c is (wk_calls s) \<Longrightarrow>
   \<exists>js. call_steps (work_program P R ao) c js (wk_calls t)"
proof (induction rule: worker_reaches.induct)
  case (reaches_step t u)
  then obtain js where js: "call_steps (work_program P R ao) c js (wk_calls t)" by blast
  from worker_step_calls [OF reaches_step.hyps(2) worker_reaches_ok [OF reaches_step.hyps(1) reaches_step.prems(1)]]
  show ?case
  proof (elim disjE exE)
    fix i assume "call_step (work_program P R ao) (wk_calls t) (Some i) (wk_calls u)"
    from call_steps_more [OF js this] show ?thesis by blast
  qed (use js in auto)
next
  case (reaches_post t i req)
  then obtain js where js: "call_steps (work_program P R ao) c js (wk_calls t)" by blast
  have "call_step (work_program P R ao) (wk_calls t) None (wk_calls (post_request i req t))"
    using request_posted [of "wk_calls t" i "work_program P R ao" "Work_start req"] reaches_post.hyps(2)
    by (simp add: wk_request_def wk_world_def)
  from call_steps_more [OF js this] show ?case by blast
qed blast

lemma worker_reaches_trans: "worker_reaches P R ao t u \<Longrightarrow> worker_reaches P R ao s t \<Longrightarrow> worker_reaches P R ao s u"
  by (induction rule: worker_reaches.induct) (auto intro: worker_reaches.intros)

lemma wk_request_domain: "worker_step P R ao s t \<Longrightarrow> wk_request t i = None \<longleftrightarrow> wk_request s i = None"
  by (induction rule: worker_step.induct) auto

section \<open>Properties\<close>

text \<open>
  C5: the threads run the requests of \<open>Background_System\<close> and lose none. In every reachable state, with
  whatever requests were posted, the services and the requests are those of an interleaving of the
  requests' calls; every thread is free, runs one request or waits with one; and every request is in
  the place that its state asks for: an answered one has no handler and no thread, one that downloads
  holds a thread while its coroutine is in the queue or in the network, and any other that has not
  ended is in the queue or in a thread, once.
\<close>
theorem threads_refine_calls:
  assumes "worker_reaches P R ao (new_worker_system N w) s"
  shows "(\<exists>is. call_steps (work_program P R ao) (new_call_system w) is (wk_calls s)) \<and>
    wk_free s + length (wk_running s) + length (wk_waiting s) = N \<and> (\<forall>i. placed (wk_request s i) (places s i))"
proof -
  from worker_reaches_ok [OF assms workers_ok_new] have ok: "workers_ok N s" .
  have "call_steps (work_program P R ao) (new_call_system w) [] (wk_calls (new_worker_system N w :: ('a, 'b) worker_system))"
    by (simp add: call_steps_none)
  from worker_reaches_calls [OF assms workers_ok_new this] workers_okD(1,2) [OF ok] show ?thesis by blast
qed

text \<open>What the answered requests for fundamentals are answered.\<close>

lemma reached_calls:
  assumes "worker_reaches P R ao (new_worker_system N w) s"
  obtains "is" where "call_steps (work_program P R ao) (new_call_system w) is (wk_calls s)"
proof -
  have "call_steps (work_program P R ao) (new_call_system w) [] (wk_calls (new_worker_system N w :: ('a, 'b) worker_system))"
    by (simp add: call_steps_none)
  from worker_reaches_calls [OF assms workers_ok_new this] that show thesis by blast
qed

lemma fund_answered:
  assumes "url_laws R cache stored signs" and "cache_ok (cache w) (stored w) signs {}"
    and "worker_reaches P R ao (new_worker_system N w) s"
    and "wk_request s i = Some (Work_done req answer)" and "controller_call R req = Call_fundamentals m"
  shows "(\<exists>url. answer = Some (fund_answer P (rt_json R) ao req m url) \<and>
      signs FUNDAMENTALS_BUCKET_NAME (fundamentals_location (pm_sravzid m)) url \<and>
      ((FUNDAMENTALS_BUCKET_NAME, fundamentals_location (pm_sravzid m)) \<in> stored (wk_world s) \<or>
       fundamentals_location (pm_sravzid m) \<in> refused_puts (fund_states (cs_seen (wk_calls s))))) \<or>
    (\<exists>e. answer = Some (error_answer P ao req e))"
proof -
  from reached_calls [OF assms(3)] obtain "is" where calls: "call_steps (work_program P R ao) (new_call_system w) is (wk_calls s)" .
  from answers_for_fundamentals [OF assms(1,2) calls _ assms(5)] assms(4) show ?thesis
    by (simp add: wk_request_def wk_world_def)
qed

text \<open>
  C18: what clients of the two routes with several calls are answered, with any number of threads and any
  order in which they run. A request for the fundamentals of a fund gets status 500 with the text
  of an exception, or status 200 and the JSON of its model with a URL that is presigned for the
  object of this fund, which is in the store unless a put of it was refused; that is so whatever the other
  requests are. A query gets status 500, or status 200 and rows of a table that was made from a presigned URL
  of a file with the name its table has; that is so in runs in which the where clauses of all queries posted so far are
  plain, that is, change no table. The code does not check this: a clause can contain any SQL, and one that drops a
  table takes the guarantee from all later queries.
\<close>
theorem threads_answer_requests:
  assumes "worker_reaches P R ao (new_worker_system N w) s" and "wk_request s i = Some (Work_done req answer)"
  shows "(url_laws R cache stored signs \<and> cache_ok (cache w) (stored w) signs {} \<and> controller_call R req = Call_fundamentals m \<longrightarrow>
      (\<exists>url. answer = Some (fund_answer P (rt_json R) ao req m url) \<and>
         signs FUNDAMENTALS_BUCKET_NAME (fundamentals_location (pm_sravzid m)) url \<and>
         ((FUNDAMENTALS_BUCKET_NAME, fundamentals_location (pm_sravzid m)) \<in> stored (wk_world s) \<or>
          fundamentals_location (pm_sravzid m) \<in> refused_puts (fund_states (cs_seen (wk_calls s))))) \<or>
      (\<exists>e. answer = Some (error_answer P ao req e))) \<and>
    (query_laws R tables signs plain \<and> tables w = Map.empty \<and> plain_requests R plain (cs_seen (wk_calls s)) \<and>
      controller_call R req = Call_duckdb d \<longrightarrow>
      (\<exists>rows url b k. answer = Some (duck_answer P (rt_json R) ao req d rows) \<and>
         tables (wk_world s) (model_table (rt_duckdb R) d) = Some url \<and> signs b k url \<and>
         duck_table_name (dd_hash_value (rt_duckdb R)) b k = model_table (rt_duckdb R) d) \<or>
      (\<exists>e. answer = Some (error_answer P ao req e)))"
proof (intro conjI impI)
  assume "url_laws R cache stored signs \<and> cache_ok (cache w) (stored w) signs {} \<and> controller_call R req = Call_fundamentals m"
  then show "(\<exists>url. answer = Some (fund_answer P (rt_json R) ao req m url) \<and>
         signs FUNDAMENTALS_BUCKET_NAME (fundamentals_location (pm_sravzid m)) url \<and>
         ((FUNDAMENTALS_BUCKET_NAME, fundamentals_location (pm_sravzid m)) \<in> stored (wk_world s) \<or>
          fundamentals_location (pm_sravzid m) \<in> refused_puts (fund_states (cs_seen (wk_calls s))))) \<or>
      (\<exists>e. answer = Some (error_answer P ao req e))"
    using fund_answered [OF _ _ assms] by blast
next
  from reached_calls [OF assms(1)] obtain "is" where calls: "call_steps (work_program P R ao) (new_call_system w) is (wk_calls s)" .
  have answered: "cs_requests (wk_calls s) i = Some (Work_done req answer)" using assms(2) by (simp add: wk_request_def)
  assume "query_laws R tables signs plain \<and> tables w = Map.empty \<and> plain_requests R plain (cs_seen (wk_calls s)) \<and>
      controller_call R req = Call_duckdb d"
  then show "(\<exists>rows url b k. answer = Some (duck_answer P (rt_json R) ao req d rows) \<and>
         tables (wk_world s) (model_table (rt_duckdb R) d) = Some url \<and> signs b k url \<and>
         duck_table_name (dd_hash_value (rt_duckdb R)) b k = model_table (rt_duckdb R) d) \<or>
      (\<exists>e. answer = Some (error_answer P ao req e))"
    unfolding wk_world_def using answers_for_queries [OF _ _ calls _ answered] by blast
qed

section \<open>Samples\<close>

text \<open>One query, posted to two threads.\<close>

abbreviation table_reaches ::
    "(string \<Rightarrow> string option, jval) worker_system \<Rightarrow> (string \<Rightarrow> string option, jval) worker_system \<Rightarrow> bool" where
  "table_reaches \<equiv> worker_reaches sample_params table_router []"

definition query_posted :: "(string \<Rightarrow> string option, jval) worker_system" where
  "query_posted = post_request 0 query_request (new_worker_system 2 Map.empty)"

lemma query_posted_reached: "table_reaches (new_worker_system 2 Map.empty) query_posted"
  using reaches_post [OF reaches_start, of "new_worker_system 2 Map.empty" 0] by (simp add: query_posted_def)

lemma query_posted_fields:
  "wk_request query_posted = [0 \<mapsto> Work_start query_request]" "wk_queue query_posted = [Run_route 0]" "wk_free query_posted = 2"
  "wk_running query_posted = []" "wk_waiting query_posted = []" "wk_network query_posted = []" "wk_world query_posted = Map.empty"
  by (simp_all add: query_posted_def)

text \<open>A thread that has taken a request without a download runs it to its answer.\<close>

lemma query_thread_run:
  "i \<in> set (wk_running s) \<Longrightarrow> wk_request s i = Some (Work_duck req k) \<Longrightarrow> \<not> duck_final k \<Longrightarrow>
   calls_run (work_program P R ao) n (Work_duck req k) (wk_world s) = (Ret (Work_done req' answer), w') \<Longrightarrow>
   \<exists>t. worker_reaches P R ao s t \<and> wk_request t i = Some (Work_done req' answer)"
proof (induction n arbitrary: s k)
  case (Suc n)
  obtain r w1 where call: "work_next P R ao (Work_duck req k) (wk_world s) = (r, w1)" by fastforce
  with Suc.prems(4) obtain q where r: "r = Ret q" and rest: "calls_run (work_program P R ao) n q w1 = (Ret (Work_done req' answer), w')"
    by (cases r) (auto simp: io_bind_def)
  from call have "io_catch (io_bind (duck_next (rt_duckdb R) k) (\<lambda>p'. io_return (duck_work P (rt_json R) ao req p')))
       (\<lambda>ex. io_return (work_error P ao req ex)) (wk_world s) = (Ret q, w1)" by (simp add: r)
  then consider (final) "\<exists>a. q = Work_done req a" | (going) k' where "q = Work_duck req k'" "\<not> duck_final k'"
  proof (cases rule: catch_bindE)
    case (1 k')
    with duck_next_going [OF 1(1) Suc.prems(3)] that show ?thesis
      by (cases "duck_final k'") (auto simp: work_answer_def duck_work_going)
  qed (use that in \<open>auto simp: work_error_def work_answer_def\<close>)
  then show ?case
  proof cases
    case final
    then obtain a where q: "q = Work_done req a" by blast
    have "calls_run (work_program P R ao) n q = io_return q" by (rule work_calls.final_run) (simp add: q)
    with rest q have "req' = req" "answer = a" by (simp_all add: io_return_apply)
    with call r q reaches_step [OF reaches_start worker_answers [OF Suc.prems(1,2)]] show ?thesis by fastforce
  next
    case going
    let ?t = "wk_moved i q w1 s"
    have "worker_step P R ao s ?t" by (rule worker_goes_on [OF Suc.prems(1,2)]) (use call r going in simp_all)
    note one = reaches_step [OF reaches_start this]
    have "\<exists>t. worker_reaches P R ao ?t t \<and> wk_request t i = Some (Work_done req' answer)"
      by (rule Suc.IH [of ?t k']) (use Suc.prems(1) rest going in simp_all)
    with worker_reaches_trans [OF _ one] show ?thesis by blast
  qed
qed (simp add: io_return_apply)

definition query_answer :: "http_response option" where
  "query_answer = Some (duck_answer sample_params (rt_json table_router) [] query_request map_model [])"

lemma query_answered_by_thread:
  "\<exists>s. table_reaches (new_worker_system 2 Map.empty) s \<and> wk_request s 0 = Some (Work_done query_request query_answer)"
proof -
  let ?s1 = "query_posted\<lparr>wk_queue := [], wk_free := wk_free query_posted - 1, wk_running := wk_running query_posted @ [0]\<rparr>"
  let ?s2 = "wk_moved 0 (Work_duck query_request (Dk_check map_model) :: jval work_pc) Map.empty ?s1"
  have "worker_step sample_params table_router [] query_posted ?s1"
    by (rule route_starts) (simp_all add: query_posted_fields)
  note r1 = reaches_step [OF query_posted_reached this]
  have "worker_step sample_params table_router [] ?s1 ?s2"
    by (rule worker_goes_on [where p = "Work_start query_request"]) (simp_all add: query_posted_fields query_call io_return_apply)
  note r2 = reaches_step [OF r1 this]
  have "calls_run table_program 14 (Work_start query_request) Map.empty = (Ret (Work_done query_request query_answer), [sample_table \<mapsto> ''u''])"
    unfolding work_run query_answer_def by (simp add: query_work io_bind_def io_return_def)
  then have "calls_run table_program (Suc 13) (Work_start query_request) Map.empty = (Ret (Work_done query_request query_answer), [sample_table \<mapsto> ''u''])"
    by (simp add: eval_nat_numeral del: calls_run.simps)
  then have "calls_run table_program 13 (Work_duck query_request (Dk_check map_model)) (wk_world ?s2) =
      (Ret (Work_done query_request query_answer), [sample_table \<mapsto> ''u''])"
    unfolding work_run_Suc by (simp add: query_call del: calls_run.simps)
  from query_thread_run [of 0 ?s2, OF _ _ _ this] obtain t where "table_reaches ?s2 t" "wk_request t 0 = Some (Work_done query_request query_answer)"
    by auto
  with worker_reaches_trans [OF _ r2] show ?thesis by blast
qed

theorem threads_refine_calls_witness:
  "\<exists>s is. table_reaches (new_worker_system 2 Map.empty) s \<and> wk_request s 0 = Some (Work_done query_request query_answer) \<and>
     call_steps table_program (new_call_system Map.empty) is (wk_calls s) \<and>
     wk_free s + length (wk_running s) + length (wk_waiting s) = 2"
proof -
  from query_answered_by_thread obtain s where s: "table_reaches (new_worker_system 2 Map.empty) s"
    "wk_request s 0 = Some (Work_done query_request query_answer)" by blast
  from threads_refine_calls [OF s(1)] s show ?thesis by blast
qed

theorem threads_answer_requests_witness:
  "\<exists>s. table_reaches (new_worker_system 2 Map.empty) s \<and> wk_request s 0 = Some (Work_done query_request query_answer) \<and>
     ((\<exists>rows url b k. query_answer = Some (duck_answer sample_params (rt_json table_router) [] query_request map_model rows) \<and>
         wk_world s sample_table = Some url \<and> url = ''u'' \<and> duck_table_name length b k = sample_table) \<or>
      (\<exists>e. query_answer = Some (error_answer sample_params [] query_request e)))"
proof -
  from query_answered_by_thread obtain s where s: "table_reaches (new_worker_system 2 Map.empty) s"
    "wk_request s 0 = Some (Work_done query_request query_answer)" by blast
  have fields: "rt_duckdb table_router = map_deps" "dd_hash_value map_deps = length" by (simp_all add: table_router_def map_deps_def)
  note answer = threads_answer_requests [OF s, where d = map_model and tables = "\<lambda>w. w" and signs = "\<lambda>b k url. url = ''u''"
      and plain = "\<lambda>c. c = ''true''"]
  from answer table_query_laws table_plain query_call s show ?thesis
    unfolding fields map_model_table by blast
qed

end
