(* ===== verification/Worker_Liveness.thy ===== *)
theory Worker_Liveness
  imports Worker_System
begin

text \<open>
  When the threads of \<open>Worker_System\<close> answer their requests, and when they cannot: the handlers that are
  left for the open requests, progress while fewer requests are open than there are threads, and the
  two ways in which threads are lost, downloads that wait for each other and requests that hang.
\<close>

section \<open>How long requests take\<close>

definition left_of :: "(nat \<Rightarrow> 'j work_pc option) \<Rightarrow> nat \<Rightarrow> nat" where
  "left_of r i = (case r i of None \<Rightarrow> 0 | Some p \<Rightarrow> work_calls_left p)"

fun handler_weight :: "(nat \<Rightarrow> 'j work_pc option) \<Rightarrow> handler \<Rightarrow> nat" where
  "handler_weight r (Run_route i) = 3 * left_of r i + 3"
| "handler_weight r (Run_coroutine i) = 3 * left_of r i + 1"

definition weight :: "(nat \<Rightarrow> 'j work_pc option) \<Rightarrow> nat \<Rightarrow> nat" where
  "weight r i = 3 * left_of r i + 2"

text \<open>The handlers that are still to run, at most.\<close>

definition handlers_left :: "('w, 'j) worker_system \<Rightarrow> nat" where
  "handlers_left s =
     sum_list (map (handler_weight (wk_request s)) (wk_queue s)) + sum_list (map (weight (wk_request s)) (wk_running s)) +
     sum_list (map (weight (wk_request s)) (wk_network s))"

lemma left_of_upd [simp]: "left_of (r(i \<mapsto> q)) j = (if j = i then work_calls_left q else left_of r j)"
  by (simp add: left_of_def)

lemma weights_upd:
  "i \<notin> set xs \<Longrightarrow> map (weight (r(i \<mapsto> q))) xs = map (weight r) xs"
  "Run_route i \<notin> set js \<Longrightarrow> Run_coroutine i \<notin> set js \<Longrightarrow> map (handler_weight (r(i \<mapsto> q))) js = map (handler_weight r) js"
proof -
  show "i \<notin> set xs \<Longrightarrow> map (weight (r(i \<mapsto> q))) xs = map (weight r) xs" by (auto simp: weight_def)
  have "handler_weight (r(i \<mapsto> q)) h = handler_weight r h" if "h \<noteq> Run_route i" "h \<noteq> Run_coroutine i" for h
    using that by (cases h) auto
  then show "Run_route i \<notin> set js \<Longrightarrow> Run_coroutine i \<notin> set js \<Longrightarrow> map (handler_weight (r(i \<mapsto> q))) js = map (handler_weight r) js"
    by (metis (no_types, lifting) list.map_cong)
qed

lemma weight_remove1: "i \<in> set xs \<Longrightarrow> sum_list (map (weight r) xs) = weight r i + sum_list (map (weight r) (remove1 i xs))"
  by (rule sum_list_map_remove1)

lemma work_next_less: "work_next P R ao p w = (Ret q, w') \<Longrightarrow> \<not> work_final p \<Longrightarrow> work_calls_left q < work_calls_left p"
  using work_calls.calls_decrease [where R = R and P = P and ao = ao] by fastforce

lemma not_in_places:
  assumes "places s i = (a, b, c, d, e)"
  shows "a = 0 \<Longrightarrow> Run_route i \<notin> set (wk_queue s)" "b = 0 \<Longrightarrow> i \<notin> set (wk_running s)"
    "d = 0 \<Longrightarrow> Run_coroutine i \<notin> set (wk_queue s)" "e = 0 \<Longrightarrow> i \<notin> set (wk_network s)"
    "b = 1 \<Longrightarrow> i \<notin> set (remove1 i (wk_running s))"
  using assms by (auto simp: places_def count_list_0_iff [symmetric] count_list_remove1)

text \<open>What running a worker, or the coroutine at the head of the queue, does to the handlers that are left.\<close>

lemma running_left:
  assumes "i \<in> set (wk_running s)" and "wk_request s i = Some p"
  shows "handlers_left s = 3 * work_calls_left p + 2 + sum_list (map (handler_weight (wk_request s)) (wk_queue s)) +
      sum_list (map (weight (wk_request s)) (remove1 i (wk_running s))) + sum_list (map (weight (wk_request s)) (wk_network s))"
  by (simp add: handlers_left_def weight_remove1 [OF assms(1)] weight_def left_of_def assms(2))

lemma running_others:
  assumes "workers_ok N s" and "i \<in> set (wk_running s)"
  shows "sum_list (map (handler_weight ((wk_request s)(i \<mapsto> q))) (wk_queue s)) = sum_list (map (handler_weight (wk_request s)) (wk_queue s))"
    and "sum_list (map (weight ((wk_request s)(i \<mapsto> q))) (remove1 i (wk_running s))) = sum_list (map (weight (wk_request s)) (remove1 i (wk_running s)))"
    and "sum_list (map (weight ((wk_request s)(i \<mapsto> q))) (wk_network s)) = sum_list (map (weight (wk_request s)) (wk_network s))"
proof -
  from running_state [OF assms] have "places s i = (0, 1, 0, 0, 0)" by blast
  note away = not_in_places [OF this]
  show "sum_list (map (handler_weight ((wk_request s)(i \<mapsto> q))) (wk_queue s)) = sum_list (map (handler_weight (wk_request s)) (wk_queue s))"
    using away(1,3) by (simp add: weights_upd(2) del: map_eq_conv)
  show "sum_list (map (weight ((wk_request s)(i \<mapsto> q))) (remove1 i (wk_running s))) = sum_list (map (weight (wk_request s)) (remove1 i (wk_running s)))"
    using away(5) by (simp add: weights_upd(1) del: map_eq_conv)
  show "sum_list (map (weight ((wk_request s)(i \<mapsto> q))) (wk_network s)) = sum_list (map (weight (wk_request s)) (wk_network s))"
    using away(4) by (simp add: weights_upd(1) del: map_eq_conv)
qed

lemma coroutine_left:
  assumes "wk_queue s = Run_coroutine i # js" and "wk_request s i = Some p"
  shows "handlers_left s = 3 * work_calls_left p + 1 + sum_list (map (handler_weight (wk_request s)) js) +
      sum_list (map (weight (wk_request s)) (wk_running s)) + sum_list (map (weight (wk_request s)) (wk_network s))"
  by (simp add: handlers_left_def assms left_of_def)

lemma coroutine_others:
  assumes "workers_ok N s" and queue: "wk_queue s = Run_coroutine i # js"
  shows "sum_list (map (handler_weight ((wk_request s)(i \<mapsto> q))) js) = sum_list (map (handler_weight (wk_request s)) js)"
    and "sum_list (map (weight ((wk_request s)(i \<mapsto> q))) (wk_running s)) = sum_list (map (weight (wk_request s)) (wk_running s))"
    and "sum_list (map (weight ((wk_request s)(i \<mapsto> q))) (wk_network s)) = sum_list (map (weight (wk_request s)) (wk_network s))"
proof -
  from coroutine_state [OF assms(1), of i] queue obtain d e where de: "places s i = (0, 0, 1, d, e)" "d + e = 1" by auto
  with queue have "e = 0" and js: "Run_coroutine i \<notin> set js" "Run_route i \<notin> set js"
    by (auto simp: places_def count_list_0_iff)
  with not_in_places [OF de(1)] have "i \<notin> set (wk_running s)" "i \<notin> set (wk_network s)" by simp_all
  then show "sum_list (map (weight ((wk_request s)(i \<mapsto> q))) (wk_running s)) = sum_list (map (weight (wk_request s)) (wk_running s))"
    and "sum_list (map (weight ((wk_request s)(i \<mapsto> q))) (wk_network s)) = sum_list (map (weight (wk_request s)) (wk_network s))"
    by (simp_all add: weights_upd(1) del: map_eq_conv)
  from js show "sum_list (map (handler_weight ((wk_request s)(i \<mapsto> q))) js) = sum_list (map (handler_weight (wk_request s)) js)"
    by (simp add: weights_upd(2) del: map_eq_conv)
qed

lemma worker_step_less:
  assumes "worker_step P R ao s t" and ok: "workers_ok N s"
  shows "handlers_left t < handlers_left s"
proof -
  have going: "\<not> work_final p" if "i \<in> set (wk_running s) \<or> Run_coroutine i \<in> set (wk_queue s)" "wk_request s i = Some p" for i p
    using that running_state [OF ok, of i] coroutine_state [OF ok, of i] waits_not_final by (metis option.inject)
  from assms(1) show ?thesis
  proof cases
    case (route_starts i js)
    then show ?thesis by (simp add: handlers_left_def weight_def)
  next
    case (worker_goes_on i p q w')
    have "\<not> work_final p" by (rule going [of i]) (simp_all add: worker_goes_on)
    from running_left [OF worker_goes_on(2,3)] running_others [OF ok worker_goes_on(2), of q] work_next_less [OF worker_goes_on(4) this] worker_goes_on show ?thesis
      by (simp add: handlers_left_def weight_remove1 [of i "wk_running s"] weight_def)
  next
    case (worker_answers i p req answer w')
    from running_left [OF worker_answers(2,3)] running_others [OF ok worker_answers(2), of "Work_done req answer"] worker_answers show ?thesis
      by (simp add: handlers_left_def)
  next
    case (worker_waits i p q w')
    have "\<not> work_final p" by (rule going [of i]) (simp_all add: worker_waits)
    from running_left [OF worker_waits(2,3)] running_others [OF ok worker_waits(2), of q] work_next_less [OF worker_waits(4) this] worker_waits show ?thesis
      by (simp add: handlers_left_def)
  next
    case (worker_hangs i p w')
    from running_left [OF worker_hangs(2,3)] running_others [OF ok worker_hangs(2), of Work_stuck] worker_hangs show ?thesis by (simp add: handlers_left_def)
  next
    case (coroutine_suspends i js p q w')
    have "\<not> work_final p" by (rule going [of i]) (simp_all add: coroutine_suspends)
    from coroutine_left [OF coroutine_suspends(2,4)] coroutine_others [OF ok coroutine_suspends(2), of q] work_next_less [OF coroutine_suspends(5) this] coroutine_suspends
    show ?thesis by (simp add: handlers_left_def weight_def)
  next
    case (promise_fulfilled i js p q w')
    have "\<not> work_final p" by (rule going [of i]) (simp_all add: promise_fulfilled)
    from coroutine_left [OF promise_fulfilled(2,4)] coroutine_others [OF ok promise_fulfilled(2), of q] work_next_less [OF promise_fulfilled(5) this] promise_fulfilled
    show ?thesis by (simp add: handlers_left_def weight_def)
  next
    case (coroutine_fails i js p w')
    from coroutine_left [OF coroutine_fails(2,4)] coroutine_others [OF ok coroutine_fails(2), of Work_stuck] coroutine_fails show ?thesis by (simp add: handlers_left_def)
  next
    case (network_completes xs i ys)
    then show ?thesis by (simp add: handlers_left_def weight_def)
  qed
qed

lemma worker_runs_ok: "worker_runs P R ao n s t \<Longrightarrow> workers_ok N s \<Longrightarrow> workers_ok N t \<and> n + handlers_left t \<le> handlers_left s"
proof (induction rule: worker_runs.induct)
  case (runs_more n s t u)
  with worker_step_less [OF runs_more.hyps(2)] workers_ok_worker_step [OF runs_more.hyps(2)] show ?case by fastforce
qed simp

section \<open>Progress\<close>

text \<open>Requests that have been posted and are not answered; one that hangs still holds its thread.\<close>

definition open_requests :: "('w, 'j) worker_system \<Rightarrow> nat set" where
  "open_requests s = {i. \<exists>p. wk_request s i = Some p \<and> (\<forall>req answer. p \<noteq> Work_done req answer)}"

text \<open>The operations of \<open>httpGet_\<close> report errors in codes (\<open>yield[ec]\<close>), and no call brings the process down.\<close>

definition never_throws :: "('w, 'a) io \<Rightarrow> bool" where
  "never_throws m \<longleftrightarrow> (\<forall>w e w'. m w \<noteq> (Throw e, w'))"

definition reports_in_codes :: "'w net_ops \<Rightarrow> bool" where
  "reports_in_codes N \<longleftrightarrow>
     (\<forall>h. never_throws (nt_set_sni N h)) \<and> (\<forall>h p. never_throws (nt_resolve N h p)) \<and> never_throws (nt_connect N) \<and>
     never_throws (nt_handshake N) \<and> (\<forall>r. never_throws (nt_write N r)) \<and> never_throws (nt_read N) \<and> never_throws (nt_shutdown N)"

definition never_aborts :: "http_params \<Rightarrow> ('w, 'j, 'b) router \<Rightarrow> string list \<Rightarrow> bool" where
  "never_aborts P R ao \<longleftrightarrow> (\<forall>p w. fst (work_next P R ao p w) \<noteq> Abort)"

lemma never_throws_bind: "never_throws m \<Longrightarrow> (\<And>x. never_throws (f x)) \<Longrightarrow> never_throws (io_bind m f)"
  unfolding never_throws_def by (auto simp: io_bind_def split: prod.splits outcome.splits)

lemma never_throws_pure: "never_throws (io_return x)" "never_throws (io_lift Blocked)"
  by (simp_all add: never_throws_def io_return_def io_lift_def)

lemma net_next_never_throws: "reports_in_codes N \<Longrightarrow> never_throws (net_next N ua target k)"
  by (cases k)
    (auto simp: reports_in_codes_def intro!: never_throws_bind never_throws_pure split: prod.split if_split simp del: io_bind_case)

lemma At_net_never_throws:
  assumes "reports_in_codes (fd_net F)"
  shows "never_throws (fund_next F (At_net m target k))"
  unfolding fund_next.simps
  by (intro never_throws_bind net_next_never_throws assms)
    (simp add: never_throws_pure split: option.split sum.split)

lemma coroutine_next:
  assumes "reports_in_codes (fd_net (rt_fundamentals R))" and "work_waits p" and "work_next P R ao p w = (Ret q, w')"
  shows "\<not> work_final q"
proof -
  from assms(2) obtain req m target k where p: "p = Work_fund req (At_net m target k)"
    by (cases p rule: work_waits.cases) auto
  from assms(3) have "io_catch (io_bind (fund_next (rt_fundamentals R) (At_net m target k)) (\<lambda>p'. io_return (fund_work P (rt_json R) ao req p')))
       (\<lambda>ex. io_return (work_error P ao req ex)) w = (Ret q, w')" by (simp add: p del: fund_next.simps)
  then show ?thesis
  proof (cases rule: catch_bindE)
    case (1 q')
    from At_net_nextE [OF 1(1)] show ?thesis by cases (use 1(2) in simp_all)
  next
    case (2 e)
    with At_net_never_throws [OF assms(1)] show ?thesis by (auto simp: never_throws_def simp del: fund_next.simps)
  qed auto
qed

text \<open>Whenever a request is neither answered nor hanging, and fewer requests are open than there are threads, a step is possible.\<close>

lemma running_can_step:
  assumes "workers_ok N s" and "never_aborts P R ao" and "i \<in> set (wk_running s)"
  shows "\<exists>t. worker_step P R ao s t"
proof -
  from running_state [OF assms(1,3)] obtain p where p: "wk_request s i = Some p" "\<not> work_final p" "work_wf p" by blast
  obtain r w' where call: "work_next P R ao p (wk_world s) = (r, w')" by fastforce
  have "r \<noteq> Abort" using assms(2) call unfolding never_aborts_def by (metis fst_conv)
  moreover have "r \<noteq> Throw e" for e using work_next_never_throws call by metis
  ultimately consider (next_state) q where "r = Ret q" | (hang) "r = Blocked" by (cases r) auto
  then show ?thesis
  proof cases
    case next_state
    with call have call: "work_next P R ao p (wk_world s) = (Ret q, w')" by simp
    show ?thesis
    proof (cases "work_final q")
      case True
      with work_next_wf [OF call p(3,2)] obtain req answer where "q = Work_done req answer" by (cases q) auto
      with worker_answers [OF assms(3) p(1)] call show ?thesis by blast
    next
      case False
      with worker_goes_on [OF assms(3) p(1) call] worker_waits [OF assms(3) p(1) call] show ?thesis by blast
    qed
  next
    case hang
    with worker_hangs [OF assms(3) p(1)] call show ?thesis by blast
  qed
qed

lemma head_can_step:
  assumes "workers_ok N s" and "never_aborts P R ao" and "reports_in_codes (fd_net (rt_fundamentals R))"
    and "wk_queue s = h # js" and "0 < wk_free s"
  shows "\<exists>t. worker_step P R ao s t"
proof (cases h)
  case (Run_route i)
  with route_starts [of s i js] assms(4,5) show ?thesis by blast
next
  case (Run_coroutine i)
  with assms(4) coroutine_state [OF assms(1), of i] obtain p where p: "wk_request s i = Some p" "work_waits p" by auto
  obtain r w' where call: "work_next P R ao p (wk_world s) = (r, w')" by fastforce
  have "r \<noteq> Abort" using assms(2) call unfolding never_aborts_def by (metis fst_conv)
  moreover have "r \<noteq> Throw e" for e using work_next_never_throws call by metis
  ultimately consider (next_state) q where "r = Ret q" | (fails) "r = Blocked" by (cases r) auto
  then show ?thesis
  proof cases
    case next_state
    with call have call: "work_next P R ao p (wk_world s) = (Ret q, w')" by simp
    have queue: "wk_queue s = Run_coroutine i # js" using assms(4) Run_coroutine by simp
    from coroutine_next [OF assms(3) p(2) call] coroutine_suspends [OF queue assms(5) p(1) call]
      promise_fulfilled [OF queue assms(5) p(1) call] show ?thesis by blast
  next
    case fails
    with coroutine_fails [of s i js p] call p(1) assms(4,5) Run_coroutine show ?thesis by blast
  qed
qed

text \<open>The open requests hold a thread or have a handler, each at most one of either.\<close>

fun handler_id :: "handler \<Rightarrow> nat" where
  "handler_id (Run_route i) = i"
| "handler_id (Run_coroutine i) = i"

lemma count_handler_id:
  "count_list (map handler_id hs) i = count_list hs (Run_route i) + count_list hs (Run_coroutine i)"
proof (induction hs)
  case (Cons h hs)
  then show ?case by (cases h) auto
qed simp

lemma open_iff:
  fixes s :: "('w, 'j) worker_system"
  shows "i \<in> open_requests s \<longleftrightarrow> (\<exists>p. wk_request s i = Some p \<and> (p = Work_stuck \<or> \<not> work_final p))"
proof -
  have "(\<forall>req answer. p \<noteq> Work_done req answer) \<longleftrightarrow> p = Work_stuck \<or> \<not> work_final p" for p :: "'j work_pc" by (cases p) auto
  then show ?thesis by (simp add: open_requests_def)
qed

lemma placed_open:
  assumes "placed r (a, b, c, d, e)"
  shows "a + b + c + d + e \<noteq> 0 \<longleftrightarrow> (\<exists>p. r = Some p \<and> (p = Work_stuck \<or> \<not> work_final p))"
    and "b + c \<le> 1" and "a + b + d + e \<le> 1"
proof -
  consider "r = None" | req answer where "r = Some (Work_done req answer)" | "r = Some Work_stuck"
    | p where "r = Some p" "\<not> work_final p" "work_waits p" | p where "r = Some p" "\<not> work_final p" "\<not> work_waits p"
    by (metis not_None_eq work_final.elims(2))
  note cases = this
  show "a + b + c + d + e \<noteq> 0 \<longleftrightarrow> (\<exists>p. r = Some p \<and> (p = Work_stuck \<or> \<not> work_final p))"
    using assms by (cases rule: cases) (auto simp: placed_simps)
  show "b + c \<le> 1" using assms by (cases rule: cases) (auto simp: placed_simps)
  show "a + b + d + e \<le> 1" using assms by (cases rule: cases) (auto simp: placed_simps)
qed

lemma distinct_count: "(\<And>x. count_list xs x \<le> 1) \<Longrightarrow> distinct xs"
proof (induction xs)
  case (Cons y ys)
  have "count_list ys x \<le> 1" for x using Cons.prems [of x] by (auto split: if_splits)
  moreover have "count_list ys y = 0" using Cons.prems [of y] by simp
  ultimately show ?case using Cons.IH by (simp add: count_list_0_iff)
qed simp

lemma open_places:
  assumes "workers_ok N s"
  shows "finite (open_requests s)" and "length (wk_running s) + length (wk_waiting s) \<le> card (open_requests s)"
    and "length (wk_queue s) + length (wk_running s) + length (wk_network s) \<le> card (open_requests s)"
proof -
  note placed = workers_okD(2) [OF assms, unfolded places_def]
  have in_open: "i \<in> open_requests s" if "Run_route i \<in> set (wk_queue s) \<or> i \<in> set (wk_running s) \<or> i \<in> set (wk_waiting s) \<or>
      Run_coroutine i \<in> set (wk_queue s) \<or> i \<in> set (wk_network s)" for i
    using placed_open(1) [OF placed [of i]] that unfolding open_iff by (auto simp: count_list_pos)
  let ?held = "wk_running s @ wk_waiting s" and ?handlers = "map handler_id (wk_queue s) @ wk_running s @ wk_network s"
  have handlers: "i \<in> open_requests s" if "i \<in> set ?handlers" for i
  proof -
    from that consider h where "h \<in> set (wk_queue s)" "handler_id h = i" | "i \<in> set (wk_running s) \<or> i \<in> set (wk_network s)" by auto
    then show ?thesis
    proof cases
      case (1 h)
      show ?thesis by (cases h) (use 1 in_open [of i] in auto)
    qed (use in_open [of i] in blast)
  qed
  have "open_requests s \<subseteq> set ?held \<union> set ?handlers"
  proof
    fix i assume "i \<in> open_requests s"
    with placed_open(1) [OF placed [of i]] consider "Run_route i \<in> set (wk_queue s)" | "i \<in> set (wk_running s)" | "i \<in> set (wk_waiting s)"
      | "Run_coroutine i \<in> set (wk_queue s)" | "i \<in> set (wk_network s)"
      unfolding open_iff by (metis add_is_0 count_list_0_iff)
    then show "i \<in> set ?held \<union> set ?handlers"
      by cases (auto dest: imageI [of _ "set (wk_queue s)" handler_id])
  qed
  then show fin: "finite (open_requests s)" by (rule finite_subset) simp
  have "distinct ?held" by (rule distinct_count) (use placed_open(2) [OF placed] in simp)
  moreover have "set ?held \<subseteq> open_requests s" using in_open by auto
  ultimately show "length (wk_running s) + length (wk_waiting s) \<le> card (open_requests s)"
    using card_mono [OF fin] distinct_card [of ?held] by (metis length_append)
  have "distinct ?handlers"
    by (rule distinct_count) (use placed_open(3) [OF placed] in \<open>simp add: count_handler_id add.commute add.left_commute add.assoc\<close>)
  moreover have "set ?handlers \<subseteq> open_requests s" using handlers by blast
  ultimately show "length (wk_queue s) + length (wk_running s) + length (wk_network s) \<le> card (open_requests s)"
    using card_mono [OF fin] distinct_card [of ?handlers] by (metis add.assoc length_append length_map)
qed

lemma work_calls_bound: "work_calls_left p \<le> 14"
proof -
  have net: "net_calls_left k \<le> 7" for k by (cases k) simp_all
  have fund: "fund_calls_left q \<le> 13" for q
  proof (cases q)
    case (At_net m target k)
    with net [of k] show ?thesis by simp
  qed simp_all
  have duck: "duck_calls_left q \<le> 7" for q :: "'a duck_pc" by (cases q) simp_all
  show ?thesis
  proof (cases p)
    case (Work_fund req q)
    with fund [of q] show ?thesis by simp
  next
    case (Work_duck req q)
    with duck [of q] show ?thesis by simp
  qed simp_all
qed

lemma sum_list_bound: "(\<And>x. f x \<le> (n :: nat)) \<Longrightarrow> sum_list (map f xs) \<le> n * length xs"
  by (induction xs) (auto intro: add_le_mono)

lemma handlers_left_bound:
  assumes "workers_ok N s"
  shows "handlers_left s \<le> 45 * card (open_requests s)"
proof -
  have left: "left_of r i \<le> 14" for r :: "nat \<Rightarrow> 'b work_pc option" and i
    using work_calls_bound by (auto simp: left_of_def split: option.split)
  have "handler_weight r h \<le> 45" for r :: "nat \<Rightarrow> 'b work_pc option" and h
    using left [of r "handler_id h"] by (cases h) simp_all
  moreover have "weight r i \<le> 45" for r :: "nat \<Rightarrow> 'b work_pc option" and i
    using left [of r i] by (simp add: weight_def)
  ultimately have "handlers_left s \<le> 45 * length (wk_queue s) + 45 * length (wk_running s) + 45 * length (wk_network s)"
    unfolding handlers_left_def by (intro add_le_mono sum_list_bound)
  with open_places(3) [OF assms] show ?thesis by linarith
qed

text \<open>Without new requests no request becomes open.\<close>

lemma open_requests_step:
  assumes "worker_step P R ao s t" and ok: "workers_ok N s"
  shows "open_requests t \<subseteq> open_requests s"
proof
  fix j assume "j \<in> open_requests t"
  then obtain q where q: "wk_request t j = Some q" "q = Work_stuck \<or> \<not> work_final q" by (auto simp: open_iff)
  with wk_request_domain [OF assms(1), of j] obtain p where p: "wk_request s j = Some p" by fastforce
  show "j \<in> open_requests s"
  proof (cases "wk_request t j = wk_request s j")
    case True
    with q p show ?thesis by (auto simp: open_iff)
  next
    case False
    with assms(1) have "j \<in> set (wk_running s) \<or> Run_coroutine j \<in> set (wk_queue s)"
      by (auto elim!: worker_stepE split: if_splits)
    with running_state [OF ok, of j] coroutine_state [OF ok, of j] waits_not_final p show ?thesis by (auto simp: open_iff)
  qed
qed

lemma open_requests_runs: "worker_runs P R ao n s t \<Longrightarrow> workers_ok N s \<Longrightarrow> open_requests t \<subseteq> open_requests s"
proof (induction rule: worker_runs.induct)
  case (runs_more n s t u)
  with worker_runs_ok [OF runs_more.hyps(1)] open_requests_step [OF runs_more.hyps(2)] show ?case by blast
qed simp

lemma unfinished_can_step:
  assumes ok: "workers_ok N s" and "never_aborts P R ao" and "reports_in_codes (fd_net (rt_fundamentals R))"
    and "card (open_requests s) < N" and "wk_request s i = Some p" and "\<not> work_final p"
  shows "\<exists>t. worker_step P R ao s t"
proof (cases "wk_running s")
  case (Cons j js)
  with running_can_step [OF ok assms(2), of j] show ?thesis by simp
next
  case Nil
  with open_places(2) [OF ok] workers_okD(1) [OF ok] assms(4) have free: "0 < wk_free s" by simp
  show ?thesis
  proof (cases "wk_queue s")
    case (Cons h js)
    from head_can_step [OF ok assms(2,3) Cons free] show ?thesis .
  next
    case empty: Nil
    from workers_okD(2) [OF ok, of i] have placed: "placed (Some p) (0, 0, count_list (wk_waiting s) i, 0, count_list (wk_network s) i)"
      by (simp add: places_def Nil empty assms(5))
    have "i \<in> set (wk_network s)"
    proof (cases "work_waits p")
      case True
      with placed show ?thesis by (simp add: placed_simps count_list_pos)
    next
      case False
      with placed assms(6) show ?thesis by (simp add: placed_simps)
    qed
    then obtain xs ys where "wk_network s = xs @ i # ys" by (meson split_list)
    from network_completes [OF this] show ?thesis by blast
  qed
qed

section \<open>Downloads that take all threads\<close>

text \<open>Redis and the object store know nothing of the fund, whose identifier is a valid one.\<close>

definition cold_fund :: "'w fundamentals_deps \<Rightarrow> presigned_url_model \<Rightarrow> bool" where
  "cold_fund F m \<longleftrightarrow>
     (\<forall>w. \<exists>w'. rd_get (fd_redis F) (fundamentals_location (pm_sravzid m)) w = (Ret None, w')) \<and>
     (\<forall>w. \<exists>w'. s3_HeadObject (fd_s3 F) (fd_s3_config F) FUNDAMENTALS_BUCKET_NAME (fundamentals_location (pm_sravzid m)) w = (Ret False, w')) \<and>
     (\<exists>code. ConvertMutualFundSravzIDToCode (pm_sravzid m) = Ret code)"

lemma cold_fund_next:
  assumes "cold_fund F m"
  shows "\<exists>w'. fund_next F (At_get m) w = (Ret (At_check m), w')" "\<exists>w'. fund_next F (At_check m) w = (Ret (At_fetch m), w')"
    "\<exists>target. fund_next F (At_fetch m) w = (Ret (At_net m target Net_sni), w)"
proof -
  from assms obtain w1 where "rd_get (fd_redis F) (fundamentals_location (pm_sravzid m)) w = (Ret None, w1)"
    unfolding cold_fund_def by blast
  then show "\<exists>w'. fund_next F (At_get m) w = (Ret (At_check m), w')"
    by (simp add: RedisClient_get_def io_bind_def io_return_def)
  from assms obtain w2 where
    "s3_HeadObject (fd_s3 F) (fd_s3_config F) FUNDAMENTALS_BUCKET_NAME (fundamentals_location (pm_sravzid m)) w = (Ret False, w2)"
    unfolding cold_fund_def by blast
  then show "\<exists>w'. fund_next F (At_check m) w = (Ret (At_fetch m), w')"
    by (simp add: objectExists_def io_bind_def io_return_def)
  from assms obtain code where "ConvertMutualFundSravzIDToCode (pm_sravzid m) = Ret code" unfolding cold_fund_def by blast
  then show "\<exists>target. fund_next F (At_fetch m) w = (Ret (At_net m target Net_sni), w)"
    by (simp add: Let_def io_bind_def io_return_def io_lift_def)
qed

lemma worker_fund_step:
  assumes "i \<in> set (wk_running s)" and "wk_request s i = Some (Work_fund req k)"
    and "fund_next (rt_fundamentals R) k (wk_world s) = (Ret k', w')" and "\<not> fund_final k'" and "\<not> work_waits (Work_fund req k' :: 'j work_pc)"
  shows "worker_step P R ao s (wk_moved i (Work_fund req k' :: 'j work_pc) w' s)"
  by (rule worker_goes_on [OF assms(1,2)]) (use assms(3-5) in \<open>simp_all add: io_catch_def io_bind_def io_return_def fund_work_going\<close>)

text \<open>A worker that has taken the lambda of such a request ends up in \<open>future.get()\<close>.\<close>

lemma worker_spawns:
  fixes s :: "('w, 'j) worker_system"
  assumes "i \<in> set (wk_running s)" and "wk_request s i = Some (Work_start req)" and "controller_call R req = Call_fundamentals m"
    and "cold_fund (rt_fundamentals R) m"
  shows "\<exists>t target. worker_reaches P R ao s t \<and> wk_running t = remove1 i (wk_running s) \<and> wk_waiting t = wk_waiting s @ [i] \<and>
    wk_queue t = wk_queue s @ [Run_coroutine i] \<and> wk_free t = wk_free s \<and> wk_network t = wk_network s \<and>
    wk_request t = (wk_request s)(i \<mapsto> Work_fund req (At_net m target Net_sni))"
proof -
  let ?F = "rt_fundamentals R"
  let ?s1 = "wk_moved i (Work_fund req (At_get m) :: 'j work_pc) (wk_world s) s"
  have "worker_step P R ao s ?s1"
    by (rule worker_goes_on [OF assms(1,2)]) (simp_all add: assms(3) io_return_apply)
  note r1 = reaches_step [OF reaches_start this]
  obtain w2 where w2: "fund_next ?F (At_get m) (wk_world s) = (Ret (At_check m), w2)" using cold_fund_next(1) [OF assms(4)] by blast
  let ?s2 = "wk_moved i (Work_fund req (At_check m) :: 'j work_pc) w2 ?s1"
  have "worker_step P R ao ?s1 ?s2" by (rule worker_fund_step) (use assms(1) w2 in \<open>simp_all del: fund_next.simps\<close>)
  note r2 = reaches_step [OF r1 this]
  obtain w3 where w3: "fund_next ?F (At_check m) w2 = (Ret (At_fetch m), w3)" using cold_fund_next(2) [OF assms(4)] by blast
  let ?s3 = "wk_moved i (Work_fund req (At_fetch m) :: 'j work_pc) w3 ?s2"
  have "worker_step P R ao ?s2 ?s3" by (rule worker_fund_step) (use assms(1) w3 in \<open>simp_all del: fund_next.simps\<close>)
  note r3 = reaches_step [OF r2 this]
  obtain target where fetch: "fund_next ?F (At_fetch m) w3 = (Ret (At_net m target Net_sni), w3)" using cold_fund_next(3) [OF assms(4)] by blast
  let ?q = "Work_fund req (At_net m target Net_sni) :: 'j work_pc"
  let ?s4 = "(wk_moved i ?q w3 ?s3)\<lparr>wk_running := remove1 i (wk_running s), wk_waiting := wk_waiting s @ [i],
                                     wk_queue := wk_queue s @ [Run_coroutine i]\<rparr>"
  have "work_next P R ao (Work_fund req (At_fetch m)) (wk_world ?s3) = (Ret ?q, w3)"
    using fetch by (simp add: io_catch_def io_bind_def io_return_def del: fund_next.simps)
  from worker_waits [OF _ _ this, of i] assms(1) have "worker_step P R ao ?s3 ?s4" by simp
  from reaches_step [OF r3 this] show ?thesis by (intro exI [of _ ?s4] exI [of _ target]) simp
qed

text \<open>Requests arrive, the threads take them, and each ends up waiting.\<close>

lemma requests_arrive_workers:
  "\<exists>s. worker_reaches P R ao (new_worker_system N w) s \<and> wk_queue s = map Run_route [0..<n] \<and> wk_free s = N \<and>
    wk_running s = [] \<and> wk_waiting s = [] \<and> wk_network s = [] \<and>
    wk_request s = (\<lambda>i. if i < n then Some (Work_start req) else None)"
proof (induction n)
  case 0
  show ?case by (rule exI [of _ "new_worker_system N w"]) (auto simp: reaches_start)
next
  case (Suc n)
  then obtain s where s: "worker_reaches P R ao (new_worker_system N w) s" "wk_queue s = map Run_route [0..<n]" "wk_free s = N"
    "wk_running s = []" "wk_waiting s = []" "wk_network s = []" "wk_request s = (\<lambda>i. if i < n then Some (Work_start req) else None)" by blast
  from reaches_post [OF s(1), of n req] s show ?case
    by (intro exI [of _ "post_request n req s"]) (auto simp: fun_eq_iff)
qed

lemma threads_take_requests:
  "wk_queue s = map Run_route is @ js \<Longrightarrow> length is \<le> wk_free s \<Longrightarrow>
   \<exists>t. worker_reaches P R ao s t \<and> wk_queue t = js \<and> wk_free t = wk_free s - length is \<and>
     wk_running t = wk_running s @ is \<and> wk_waiting t = wk_waiting s \<and> wk_network t = wk_network s \<and> wk_request t = wk_request s"
proof (induction "is" arbitrary: s)
  case Nil
  then show ?case by (auto intro: reaches_start)
next
  case (Cons i "is")
  let ?s = "s\<lparr>wk_queue := map Run_route is @ js, wk_free := wk_free s - 1, wk_running := wk_running s @ [i]\<rparr>"
  have "worker_step P R ao s ?s" using Cons.prems by (intro route_starts) auto
  note one = reaches_step [OF reaches_start this]
  have "length is \<le> wk_free ?s" using Cons.prems(2) by simp
  from Cons.IH [of ?s, OF _ this] obtain t where t: "worker_reaches P R ao ?s t" "wk_queue t = js"
    "wk_free t = wk_free s - 1 - length is" "wk_running t = wk_running s @ [i] @ is" "wk_waiting t = wk_waiting s"
    "wk_network t = wk_network s" "wk_request t = wk_request s" by auto
  from worker_reaches_trans [OF t(1) one] t(2-) show ?case by (intro exI [of _ t]) simp
qed

lemma downloads_wait:
  assumes "controller_call R req = Call_fundamentals m" and "cold_fund (rt_fundamentals R) m"
  shows "wk_running s = is \<Longrightarrow> distinct is \<Longrightarrow> \<forall>i \<in> set is. wk_request s i = Some (Work_start req) \<Longrightarrow>
   \<exists>t. worker_reaches P R ao s t \<and> wk_running t = [] \<and> wk_free t = wk_free s \<and> wk_waiting t = wk_waiting s @ is \<and>
     (\<forall>i. wk_request t i = wk_request s i \<or> i \<in> set is \<and> (\<exists>target. wk_request t i = Some (Work_fund req (At_net m target Net_sni))))"
proof (induction "is" arbitrary: s)
  case Nil
  then show ?case by (auto intro: reaches_start)
next
  case (Cons i "is")
  from worker_spawns [OF _ _ assms, of i s P ao] Cons.prems obtain s1 target where
    s1: "worker_reaches P R ao s s1" "wk_running s1 = is" "wk_waiting s1 = wk_waiting s @ [i]" "wk_free s1 = wk_free s"
      "wk_request s1 = (wk_request s)(i \<mapsto> Work_fund req (At_net m target Net_sni))" by auto
  with Cons.prems have "\<forall>j \<in> set is. wk_request s1 j = Some (Work_start req)" by auto
  from Cons.IH [OF s1(2) _ this] Cons.prems(2) obtain t where t: "worker_reaches P R ao s1 t" "wk_running t = []" "wk_free t = wk_free s1"
    "wk_waiting t = wk_waiting s1 @ is"
    "\<forall>j. wk_request t j = wk_request s1 j \<or> j \<in> set is \<and> (\<exists>target. wk_request t j = Some (Work_fund req (At_net m target Net_sni)))" by auto
  have "wk_request t j = wk_request s j \<or> j \<in> set (i # is) \<and> (\<exists>target. wk_request t j = Some (Work_fund req (At_net m target Net_sni)))" for j
    using t(5) [rule_format, of j] s1(5) by (cases "j = i") auto
  with worker_reaches_trans [OF t(1) s1(1)] t s1 show ?case by (intro exI [of _ t]) auto
qed

text \<open>When no thread is free and none is running, only the network goes on.\<close>

lemma deadlocked_worker_step:
  "worker_step P R ao s t \<Longrightarrow> wk_free s = 0 \<and> wk_running s = [] \<Longrightarrow>
   wk_free t = 0 \<and> wk_running t = [] \<and> wk_request t = wk_request s"
  by (erule worker_stepE) auto

lemma deadlocked_workers:
  "worker_reaches P R ao s t \<Longrightarrow> wk_free s = 0 \<and> wk_running s = [] \<Longrightarrow>
   wk_free t = 0 \<and> wk_running t = [] \<and> (\<forall>i. wk_request t i = wk_request s i \<or> (\<exists>req. wk_request t i = Some (Work_start req)))"
proof (induction rule: worker_reaches.induct)
  case (reaches_step t u)
  with deadlocked_worker_step [OF reaches_step.hyps(2)] show ?case by simp
qed auto

lemma stuck_step: "worker_step P R ao s t \<Longrightarrow> workers_ok N s \<Longrightarrow> wk_request s i = Some Work_stuck \<Longrightarrow> wk_request t i = Some Work_stuck"
proof -
  assume step: "worker_step P R ao s t" and ok: "workers_ok N s" and stuck: "wk_request s i = Some Work_stuck"
  have "i \<notin> set (wk_running s)" using running_state [OF ok, of i] stuck by force
  moreover have "Run_coroutine i \<notin> set (wk_queue s)" using coroutine_state [OF ok, of i] stuck by auto
  ultimately show ?thesis using step stuck by (auto elim!: worker_stepE)
qed

lemma stuck_forever:
  "worker_reaches P R ao s t \<Longrightarrow> workers_ok N s \<Longrightarrow> wk_request s i = Some Work_stuck \<Longrightarrow> wk_request t i = Some Work_stuck"
proof (induction rule: worker_reaches.induct)
  case (reaches_step t u)
  with stuck_step [OF reaches_step.hyps(2) worker_reaches_ok [OF reaches_step.hyps(1)]] show ?case by blast
qed auto

section \<open>Properties\<close>

text \<open>
  C20: while fewer requests are open than there are threads, requests end, however the threads and the
  network are scheduled. From every reachable state with fewer open requests than threads (those that
  hang count as open), every run without new requests takes at most 45 handlers and calls per open
  request, and it can only stop when every request is answered or hangs in a call that never returns.
\<close>
theorem requests_end_while_threads_suffice:
  assumes "worker_reaches P R ao (new_worker_system N w) s" and "never_aborts P R ao"
    and "reports_in_codes (fd_net (rt_fundamentals R))" and "card (open_requests s) < N" and "worker_runs P R ao n s t"
  shows "n \<le> 45 * card (open_requests s) \<and>
    ((\<exists>u. worker_step P R ao t u) \<or> (\<forall>i p. wk_request t i = Some p \<longrightarrow> work_final p))"
proof -
  from worker_reaches_ok [OF assms(1) workers_ok_new] have ok: "workers_ok N s" .
  from worker_runs_ok [OF assms(5) ok] have t: "workers_ok N t" "n + handlers_left t \<le> handlers_left s" by simp_all
  from card_mono [OF open_places(1) [OF ok] open_requests_runs [OF assms(5) ok]] assms(4) have "card (open_requests t) < N" by simp
  from unfinished_can_step [OF t(1) assms(2,3) this] t(2) handlers_left_bound [OF ok] show ?thesis by force
qed

text \<open>
  C19: as many downloads as there are threads stop the server. For every number of threads there is a run
  in which that many requests for a fund that neither Redis nor the object store knows are posted
  and taken; each thread then waits for a coroutine that only these threads could run, and from
  then on no thread is free and no request is answered, whatever is posted and whatever the network
  does.
\<close>
theorem downloads_stop_the_threads:
  assumes "controller_call R req = Call_fundamentals m" and "cold_fund (rt_fundamentals R) m"
  shows "\<exists>s. worker_reaches P R ao (new_worker_system N w) s \<and> length (wk_waiting s) = N \<and>
    (\<forall>t. worker_reaches P R ao s t \<longrightarrow> wk_free t = 0 \<and> (\<forall>i req answer. wk_request t i \<noteq> Some (Work_done req answer)))"
proof -
  from requests_arrive_workers [of P R ao N w N req] obtain s1 where s1: "worker_reaches P R ao (new_worker_system N w) s1"
    "wk_queue s1 = map Run_route [0..<N]" "wk_free s1 = N" "wk_running s1 = []" "wk_waiting s1 = []"
    "wk_request s1 = (\<lambda>i. if i < N then Some (Work_start req) else None)" by blast
  from threads_take_requests [of s1 "[0..<N]" "[]" P R ao] s1 obtain s2 where s2: "worker_reaches P R ao s1 s2"
    "wk_free s2 = 0" "wk_running s2 = [0..<N]" "wk_waiting s2 = []" "wk_request s2 = wk_request s1" by auto
  have "\<forall>i \<in> set [0..<N]. wk_request s2 i = Some (Work_start req)" by (simp add: s2(5) s1(6))
  from downloads_wait [OF assms s2(3) _ this, of P ao] obtain s3 where s3: "worker_reaches P R ao s2 s3" "wk_running s3 = []"
    "wk_free s3 = 0" "wk_waiting s3 = [0..<N]"
    "\<forall>i. wk_request s3 i = wk_request s2 i \<or> i \<in> set [0..<N] \<and> (\<exists>target. wk_request s3 i = Some (Work_fund req (At_net m target Net_sni)))"
    by (auto simp: s2)
  have unanswered: "wk_request s3 i \<noteq> Some (Work_done req' answer)" for i req' answer
    using s3(5) [rule_format, of i] by (auto simp: s2(5) s1(6) split: if_splits)
  have "wk_free t = 0 \<and> (\<forall>i req answer. wk_request t i \<noteq> Some (Work_done req answer))" if "worker_reaches P R ao s3 t" for t
  proof -
    from deadlocked_workers [OF that] s3(2,3)
    have t: "wk_free t = 0" "\<And>i. wk_request t i = wk_request s3 i \<or> (\<exists>req. wk_request t i = Some (Work_start req))" by simp_all
    have "wk_request t i \<noteq> Some (Work_done req' answer)" for i req' answer
      using t(2) [of i] unanswered [of i req' answer] by auto
    with t(1) show ?thesis by blast
  qed
  with worker_reaches_trans [OF s3(1) worker_reaches_trans [OF s2(1) s1(1)]] s3(4) show ?thesis
    by (intro exI [of _ s3]) simp
qed

text \<open>
  C22: a request that hangs costs a thread for good. A download that fails never gives its promise a value,
  and its request hangs from then on, as does one in a call of a service that never returns; the
  thread of each such request stays in its wait, so after as many of them as there are threads
  nothing is answered any more.
\<close>
theorem hanging_requests_cost_threads:
  assumes "worker_reaches P R ao (new_worker_system N w) s" and "worker_reaches P R ao s t"
    and "\<forall>i \<in> hanging. wk_request s i = Some Work_stuck"
  shows "(\<forall>i \<in> hanging. wk_request t i = Some Work_stuck \<and> i \<in> set (wk_waiting t)) \<and>
    card hanging + wk_free t + length (wk_running t) \<le> N"
proof -
  from worker_reaches_ok [OF assms(1) workers_ok_new] have ok: "workers_ok N s" .
  from worker_reaches_ok [OF assms(2) ok] have ok': "workers_ok N t" .
  have hang: "wk_request t i = Some Work_stuck \<and> i \<in> set (wk_waiting t)" if "i \<in> hanging" for i
  proof -
    from stuck_forever [OF assms(2) ok] assms(3) that have "wk_request t i = Some Work_stuck" by blast
    with workers_okD(2) [OF ok', of i] show ?thesis by (simp add: places_def count_list_pos)
  qed
  then have "card hanging \<le> card (set (wk_waiting t))" by (intro card_mono) auto
  with card_length [of "wk_waiting t"] workers_okD(1) [OF ok'] hang show ?thesis by auto
qed

section \<open>Samples\<close>

text \<open>No call of the sample aborts.\<close>

lemma fund_next_table: "fst (fund_next (rt_fundamentals table_router) k w) \<noteq> Abort"
proof (cases k)
  case (At_fetch m)
  have "ConvertMutualFundSravzIDToCode (pm_sravzid m) \<noteq> Abort" by (simp add: ConvertMutualFundSravzIDToCode_def Let_def)
  with At_fetch show ?thesis
    by (cases "ConvertMutualFundSravzIDToCode (pm_sravzid m)") (simp_all add: io_bind_def io_lift_def io_return_def Let_def)
next
  case (At_net m target n)
  then show ?thesis
    by (cases n) (simp_all add: table_router_def net_continue_def io_bind_def io_lift_def io_return_def)
qed (simp_all add: table_router_def map_deps_def RedisClient_get_def RedisClient_set_with_expiry_def objectExists_def putObject_def
    generatePresignedUrl_def io_bind_def io_return_def)

lemma duck_next_table: "fst (duck_next (rt_duckdb table_router) k w) \<noteq> Abort"
proof (cases k)
  case (Dk_select m)
  then show ?thesis
    by (cases "parse_rows (dd_json map_deps) []")
      (simp_all add: table_router_def map_deps_def map_duckdb_def io_bind_def io_lift_def io_return_def)
qed (simp_all add: table_router_def map_deps_def map_duckdb_def table_exists_def generatePresignedUrl_def io_bind_def io_return_def)

lemma catch_never_aborts: "fst (m w) \<noteq> Abort \<Longrightarrow> fst (io_catch (io_bind m (\<lambda>x. io_return (f x))) (\<lambda>e. io_return (h e)) w) \<noteq> Abort"
  by (cases "m w"; cases "fst (m w)") (auto simp: io_catch_def io_bind_def io_return_def)

lemma table_never_aborts: "never_aborts sample_params table_router []"
  unfolding never_aborts_def
proof (intro allI)
  fix p :: "jval work_pc" and w :: "string \<Rightarrow> string option"
  show "fst (work_next sample_params table_router [] p w) \<noteq> Abort"
  proof (cases p)
    case (Work_start req)
    show ?thesis
    proof (cases "controller_call table_router req")
      case Call_other
      obtain segments params where parsed: "rt_parse_url table_router (req_target req) = Inr (segments, params)"
        and segments: "segments = [''fundamentals''] \<or> segments = [''duckdb'']"
        by (cases "req_target req = ''/fundamentals''") (simp_all add: table_router_def)
      with Call_other have "req_method req \<noteq> Verb_get" by (auto simp: controller_call_def)
      with segments have "fst (route_dispatch table_router (req_method req) (req_target req) (req_body req) w) \<noteq> Abort"
        unfolding route_dispatch_parsed [OF parsed]
        by (cases "req_method req") (auto simp: route_post_def route_put_def route_delete_def io_return_apply)
      then show ?thesis
        by (cases "route_dispatch table_router (req_method req) (req_target req) (req_body req) w";
            cases "fst (route_dispatch table_router (req_method req) (req_target req) (req_body req) w)")
          (auto simp: Work_start Call_other route_def io_return_def io_bind_def io_catch_def)
    qed (simp_all add: Work_start io_return_apply)
  next
    case (Work_fund req k)
    show ?thesis unfolding Work_fund work_next.simps by (rule catch_never_aborts [OF fund_next_table])
  next
    case (Work_duck req k)
    show ?thesis unfolding Work_duck work_next.simps by (rule catch_never_aborts [OF duck_next_table])
  qed (simp_all add: io_return_apply)
qed

lemma table_reports: "reports_in_codes (fd_net (rt_fundamentals table_router))"
  by (simp add: reports_in_codes_def never_throws_def table_router_def io_return_def)

theorem requests_end_while_threads_suffice_witness:
  "\<exists>u. worker_step sample_params table_router [] query_posted u"
proof -
  have "open_requests query_posted = {0}" by (auto simp: open_requests_def query_posted_fields split: if_splits)
  then have "card (open_requests query_posted) < 2" by simp
  from requests_end_while_threads_suffice [OF query_posted_reached table_never_aborts table_reports this runs_none]
  show ?thesis by (auto simp: query_posted_fields split: if_splits)
qed

text \<open>Two threads, a fund that nobody knows, and no network.\<close>

definition cold_router :: "(unit, jval, unit) router" where
  "cold_router =
     sample_router\<lparr>rt_parse_url := (\<lambda>s. Inr ([''fundamentals''], [(''sravzid'', ''fund_us_abc'')])),
                   rt_fundamentals := sample_fundamentals\<lparr>fd_redis := empty_redis\<rparr>\<rparr>"

abbreviation cold_reaches :: "(unit, jval) worker_system \<Rightarrow> (unit, jval) worker_system \<Rightarrow> bool" where
  "cold_reaches \<equiv> worker_reaches sample_params cold_router []"

lemma cold_call: "controller_call cold_router sample_request = Call_fundamentals shelf_fund"
  by (simp add: controller_call_def cold_router_def sample_request_def shelf_fund_def)

lemma cold_sample: "cold_fund (rt_fundamentals cold_router) shelf_fund"
proof -
  have "ConvertMutualFundSravzIDToCode ''fund_us_abc'' = Ret (ToUpper ''abc'' @ ''.'' @ ToUpper ''us'')"
    using ConvertMutualFundSravzIDToCode_join3 [of "''fund''" "''us''" "''abc''"] by (simp del: ToUpper.simps)
  then show ?thesis
    unfolding cold_fund_def shelf_sravzid
    by (simp add: cold_router_def sample_router_def sample_fundamentals_def empty_redis_def sample_redis_def sample_s3_def io_return_def)
qed

theorem downloads_stop_the_threads_witness:
  "\<exists>s. cold_reaches (new_worker_system 2 ()) s \<and> length (wk_waiting s) = 2 \<and> wk_free s = 0"
  using downloads_stop_the_threads [OF cold_call cold_sample, of sample_params "[]" 2 "()"] reaches_start by blast

lemma cold_hangs: "\<exists>s. cold_reaches (new_worker_system 2 ()) s \<and> wk_request s 0 = Some Work_stuck"
proof -
  from requests_arrive_workers [of sample_params cold_router "[]" 2 "()" 1 sample_request] obtain s1 where s1: "cold_reaches (new_worker_system 2 ()) s1"
    "wk_queue s1 = [Run_route 0]" "wk_free s1 = 2" "wk_running s1 = []" "wk_network s1 = []"
    "wk_request s1 = (\<lambda>i. if i < 1 then Some (Work_start sample_request) else None)" by auto
  from threads_take_requests [of s1 "[0]" "[]" sample_params cold_router "[]"] s1 obtain s2 where s2: "cold_reaches s1 s2"
    "wk_queue s2 = []" "wk_free s2 = 1" "wk_running s2 = [0]" "wk_network s2 = []" "wk_request s2 = wk_request s1" by auto
  from worker_spawns [OF _ _ cold_call cold_sample, of 0 s2 sample_params "[]"] s2 s1(6) obtain s3 target where
    s3: "cold_reaches s2 s3" "wk_queue s3 = [Run_coroutine 0]" "wk_free s3 = 1" "wk_network s3 = []"
      "wk_request s3 0 = Some (Work_fund sample_request (At_net shelf_fund target Net_sni))" by auto
  let ?q = "Work_fund sample_request (At_net shelf_fund target Net_resolve) :: jval work_pc"
  let ?s4 = "(wk_moved 0 ?q () s3)\<lparr>wk_queue := [], wk_network := wk_network s3 @ [0]\<rparr>"
  have "worker_step sample_params cold_router [] s3 ?s4"
    by (rule coroutine_suspends [OF s3(2) _ s3(5)])
      (simp_all add: s3(3) cold_router_def sample_router_def sample_fundamentals_def broken_net_def io_catch_def io_bind_def io_return_def)
  note r4 = reaches_step [OF s3(1) this]
  let ?s5 = "?s4\<lparr>wk_network := [] @ [], wk_queue := wk_queue ?s4 @ [Run_coroutine 0]\<rparr>"
  have "worker_step sample_params cold_router [] ?s4 ?s5" by (rule network_completes) (simp add: s3(4))
  note r5 = reaches_step [OF r4 this]
  let ?s6 = "(wk_moved 0 Work_stuck () ?s5)\<lparr>wk_queue := []\<rparr>"
  have "worker_step sample_params cold_router [] ?s5 ?s6"
    by (rule coroutine_fails [where p = ?q])
      (simp_all add: s3(3) cold_router_def sample_router_def sample_fundamentals_def broken_net_def net_continue_def
        io_catch_def io_bind_def io_return_def io_lift_def)
  from reaches_step [OF r5 this] have "cold_reaches s2 ?s6" .
  from worker_reaches_trans [OF this worker_reaches_trans [OF s2(1) s1(1)]] show ?thesis by (intro exI [of _ ?s6]) simp
qed

theorem hanging_requests_cost_threads_witness:
  "\<exists>s. cold_reaches (new_worker_system 2 ()) s \<and> wk_request s 0 = Some Work_stuck \<and> 0 \<in> set (wk_waiting s) \<and>
     card {0 :: nat} + wk_free s + length (wk_running s) \<le> 2"
proof -
  from cold_hangs obtain s where s: "cold_reaches (new_worker_system 2 ()) s" "wk_request s 0 = Some Work_stuck" by blast
  then have "\<forall>i \<in> {0}. wk_request s i = Some Work_stuck" by simp
  from hanging_requests_cost_threads [OF s(1) reaches_start this] s show ?thesis by blast
qed

end
