(* ===== verification/Publisher.thy ===== *)
theory Publisher
  imports Websocket_Session
begin

text \<open>
  \<open>src/web/publisher.cpp\<close>: the thread that takes a message from the queue of the subscriber
  and sends it to every session of the symbol. The sessions are objects that may have been
  destroyed meanwhile (\<open>weak_ptr::lock\<close>), so a session number maps to the object if it still
  lives. The iteration order of an \<open>unordered_set\<close> is the parameter \<open>order\<close>.
\<close>

record ('pq, 'sq) publisher =
  pb_state :: "('pq, 'sq) shared_state"
  pb_sessions :: "sid \<Rightarrow> ws_session option"

definition lock_and_send :: "string \<Rightarrow> sid \<Rightarrow> (sid \<Rightarrow> ws_session option) \<Rightarrow> sid \<Rightarrow> ws_session option" where
  "lock_and_send ss p live =
     (case live p of None \<Rightarrow> live | Some sp \<Rightarrow> live(p \<mapsto> ws_send ss sp))"

text \<open>The body of the loop after a message was taken.\<close>

definition publish_message ::
    "(sid set \<Rightarrow> sid list) \<Rightarrow> string \<times> string \<Rightarrow> (('pq, 'sq) publisher, unit) io" where
  "publish_message order msg_pair p =
     (case msg_pair of (topic, message) \<Rightarrow>
        (case symbol_at topic (pb_state p) of
           (None, st) \<Rightarrow> (Abort, p\<lparr>pb_state := st\<rparr>)
         | (Some smb, st) \<Rightarrow>
             (let v = order (sym_sessions smb)
              in (Ret (), p\<lparr>pb_state := st, pb_sessions := fold (lock_and_send message) v (pb_sessions p)\<rparr>))))"

text \<open>One round of the loop; \<open>sleep\<close> is what the subscriber did to the queue meanwhile.\<close>

definition publisher_iteration ::
    "('pq, string \<times> string) spsc \<Rightarrow> (nat \<Rightarrow> 'pq \<Rightarrow> 'pq) \<Rightarrow> (sid set \<Rightarrow> sid list) \<Rightarrow>
     (('pq, 'sq) publisher, unit) io" where
  "publisher_iteration P sleep order p =
     (case get_message_with_backoff P sleep (spsc_queue_publish (pb_state p)) of
        None \<Rightarrow> (Blocked, p)
      | Some (msg_pair, q, slept) \<Rightarrow>
          publish_message order msg_pair (p\<lparr>pb_state := (pb_state p)\<lparr>spsc_queue_publish := q\<rparr>\<rparr>))"

text \<open>A traversal of a set visits every element once.\<close>

definition traversal :: "(sid set \<Rightarrow> sid list) \<Rightarrow> bool" where
  "traversal order \<longleftrightarrow> (\<forall>A. finite A \<longrightarrow> distinct (order A) \<and> set (order A) = A)"

lemma sorted_traversal: "traversal sorted_list_of_set"
  by (simp add: traversal_def)

lemma lock_and_send_apply:
  "lock_and_send ss p live s = (if s = p then map_option (ws_send ss) (live s) else live s)"
  by (simp add: lock_and_send_def split: option.split)

lemma fold_lock_and_send:
  "distinct v \<Longrightarrow>
   fold (lock_and_send ss) v live s = (if s \<in> set v then map_option (ws_send ss) (live s) else live s)"
proof (induction v arbitrary: live)
  case (Cons p v)
  then show ?case by (auto simp: lock_and_send_apply)
qed simp

lemma symbol_at_registered:
  "topic \<in> known_topics st \<Longrightarrow> \<exists>smb. symbol_at topic st = (Some smb, st) \<and> sym_sessions smb = registered st topic"
  using symbol_at_known [of topic st] by (auto simp: registered_def)

lemma publish_known:
  assumes "topic \<in> known_topics (pb_state p)"
  shows "publish_message order (topic, message) p =
    (Ret (), p\<lparr>pb_sessions := fold (lock_and_send message) (order (registered (pb_state p) topic)) (pb_sessions p)\<rparr>)"
  using symbol_at_registered [OF assms] by (auto simp: publish_message_def Let_def)

lemma publish_unknown:
  "topic \<notin> known_topics (pb_state p) \<Longrightarrow> fst (publish_message order (topic, message) p) = Abort"
  using symbol_at_unknown [of topic "pb_state p"]
  by (auto simp: publish_message_def split: prod.split option.split)

lemma known_topics_publish_queue [simp]:
  "known_topics (st\<lparr>spsc_queue_publish := q\<rparr>) = known_topics st"
  "registered (st\<lparr>spsc_queue_publish := q\<rparr>) t = registered st t"
  by (simp_all add: known_topics_def registered_def)

section \<open>Properties\<close>

text \<open>
  C15: one round of the publisher takes the oldest message of its queue and posts it exactly
  once to every session that is registered with the topic and still lives, and to no other;
  a topic that is not configured brings the process down; an empty queue is polled again.
\<close>
theorem publisher_sends_to_registered_sessions:
  assumes "traversal order" and "\<forall>t. finite (registered (pb_state p) t)"
    and "sp_pop P (spsc_queue_publish (pb_state p)) = Some ((topic, message), q)"
  shows "(topic \<in> known_topics (pb_state p) \<longrightarrow>
      (\<exists>p'. publisher_iteration P sleep order p = (Ret (), p') \<and>
         spsc_queue_publish (pb_state p') = q \<and>
         (\<forall>s. pb_sessions p' s =
            (if s \<in> registered (pb_state p) topic then map_option (ws_send message) (pb_sessions p s)
             else pb_sessions p s)))) \<and>
    (topic \<notin> known_topics (pb_state p) \<longrightarrow> fst (publisher_iteration P sleep order p) = Abort)"
proof -
  let ?p = "p\<lparr>pb_state := (pb_state p)\<lparr>spsc_queue_publish := q\<rparr>\<rparr>"
  have "get_message_with_backoff P sleep (spsc_queue_publish (pb_state p)) = Some ((topic, message), q, [])"
    unfolding get_message_with_backoff_iff using assms(3) by (intro exI [of _ 0]) simp
  then have it: "publisher_iteration P sleep order p = publish_message order (topic, message) ?p"
    by (simp add: publisher_iteration_def)
  have d: "distinct (order (registered (pb_state p) topic)) \<and> set (order (registered (pb_state p) topic)) = registered (pb_state p) topic"
    using assms(1,2) by (auto simp: traversal_def)
  show ?thesis
    unfolding it using publish_known [of topic ?p order message] publish_unknown [of topic ?p order message] d
    by (auto simp: fold_lock_and_send)
qed

text \<open>A queue with one message, a session that lives and a session that does not.\<close>

definition sample_publisher :: "((string \<times> string) list, (MsgType \<times> string) list) publisher" where
  "sample_publisher =
     \<lparr>pb_state = joined_state\<lparr>spsc_queue_publish := [(''ETH'', ''42'')]\<rparr>,
      pb_sessions = [7 \<mapsto> new_websocket_session 7, 8 \<mapsto> new_websocket_session 8]\<rparr>"

theorem publisher_sends_to_registered_sessions_witness:
  "\<exists>p'. publisher_iteration bounded_queue (\<lambda>_ q. q) sorted_list_of_set sample_publisher = (Ret (), p') \<and>
     pb_sessions p' 7 = Some (ws_send ''42'' (new_websocket_session 7)) \<and>
     pb_sessions p' 8 = Some (new_websocket_session 8)"
proof -
  have reg: "registered (pb_state sample_publisher) t = (if t = ''ETH'' then {7} else {})" for t
    by (simp add: sample_publisher_def registered_def joined_state_def symbol_join_def new_symbol_def)
  then have fin: "\<forall>t. finite (registered (pb_state sample_publisher) t)" by simp
  have pop: "sp_pop bounded_queue (spsc_queue_publish (pb_state sample_publisher)) = Some ((''ETH'', ''42''), [])"
    by (simp add: sample_publisher_def)
  have known: "''ETH'' \<in> known_topics (pb_state sample_publisher)"
    by (simp add: sample_publisher_def known_topics_def joined_state_def)
  from publisher_sends_to_registered_sessions [OF sorted_traversal fin pop] known
  obtain p' where "publisher_iteration bounded_queue (\<lambda>_ q. q) sorted_list_of_set sample_publisher = (Ret (), p')"
    and "\<forall>s. pb_sessions p' s =
            (if s \<in> registered (pb_state sample_publisher) ''ETH'' then map_option (ws_send ''42'') (pb_sessions sample_publisher s)
             else pb_sessions sample_publisher s)" by blast
  then show ?thesis by (simp add: reg) (simp add: sample_publisher_def)
qed

end
