(* ===== verification/Subscriber.thy ===== *)
theory Subscriber
  imports Shared_State
begin

text \<open>
  \<open>src/web/subscriber.cpp\<close>: the thread that keeps one Redis connection subscribed to the
  topics in use. It learns about them from the bounded queue that \<open>shared_state\<close> fills, and
  forwards every message it consumes to the queue of the publisher.

  The Redis client is third-party code (redis++), a record of operations; \<open>rsub_topics\<close> is the
  set of channels the connection is subscribed to and only specifications use it. The member
  \<open>ioc_subscriber_\<close> and the posting of the loop onto it are not modelled.
\<close>

section \<open>State and loop body\<close>

record 'r redis_sub =
  rsub_consume :: "'r \<Rightarrow> (exn + (string \<times> string) option) \<times> 'r"
  rsub_subscribe :: "string \<Rightarrow> 'r \<Rightarrow> (exn + unit) \<times> 'r"
  rsub_unsubscribe :: "string \<Rightarrow> 'r \<Rightarrow> (exn + unit) \<times> 'r"
  rsub_topics :: "'r \<Rightarrow> string set"

text \<open>
  What the documentation of redis++ promises: \<open>subscribe\<close> and \<open>unsubscribe\<close> that return have
  added or removed the channel, and consuming a message changes no subscription.
\<close>

definition redis_sub_laws :: "'r redis_sub \<Rightarrow> bool" where
  "redis_sub_laws R \<longleftrightarrow>
     (\<forall>t r r'. rsub_subscribe R t r = (Inr (), r') \<longrightarrow> rsub_topics R r' = insert t (rsub_topics R r)) \<and>
     (\<forall>t r r'. rsub_unsubscribe R t r = (Inr (), r') \<longrightarrow> rsub_topics R r' = rsub_topics R r - {t}) \<and>
     (\<forall>r. rsub_topics R (snd (rsub_consume R r)) = rsub_topics R r)"

record ('pq, 'sq, 'r) subscriber =
  sb_state :: "('pq, 'sq) shared_state"
  topics_subscribed_count :: int
  sub :: 'r

definition new_subscriber :: "'r \<Rightarrow> ('pq, 'sq) shared_state \<Rightarrow> ('pq, 'sq, 'r) subscriber" where
  "new_subscriber redis st = \<lparr>sb_state = st, topics_subscribed_count = 0, sub = redis\<rparr>"

definition on_message ::
    "('pq, string \<times> string) spsc \<Rightarrow> string \<Rightarrow> string \<Rightarrow> ('pq, 'sq) shared_state \<Rightarrow> ('pq, 'sq) shared_state" where
  "on_message P channel msg st =
     st\<lparr>spsc_queue_publish := snd (sp_push P (channel, msg) (spsc_queue_publish st))\<rparr>"

text \<open>Every exception of \<open>consume\<close> is a \<open>sw::redis::Error\<close>, which the loop swallows.\<close>

definition subscriber_consume ::
    "('pq, string \<times> string) spsc \<Rightarrow> 'r redis_sub \<Rightarrow> ('pq, 'sq, 'r) subscriber \<Rightarrow> ('pq, 'sq, 'r) subscriber" where
  "subscriber_consume P R s =
     (if topics_subscribed_count s = 0 then s
      else case rsub_consume R (sub s) of
             (Inl e, r) \<Rightarrow> s\<lparr>sub := r\<rparr>
           | (Inr None, r) \<Rightarrow> s\<lparr>sub := r\<rparr>
           | (Inr (Some (channel, msg)), r) \<Rightarrow>
               s\<lparr>sub := r, sb_state := on_message P channel msg (sb_state s)\<rparr>)"

text \<open>One round of \<open>while (true)\<close>; an exception of \<open>subscribe\<close> or \<open>unsubscribe\<close> leaves the loop.\<close>

definition subscriber_iteration ::
    "('sq, MsgType \<times> string) spsc \<Rightarrow> ('pq, string \<times> string) spsc \<Rightarrow> 'r redis_sub \<Rightarrow>
     (('pq, 'sq, 'r) subscriber, unit) io" where
  "subscriber_iteration Q P R s =
     (let s1 = subscriber_consume P R s
      in case sp_pop Q (spsc_queue_subscriber (sb_state s1)) of
           None \<Rightarrow> (Ret (), s1)
         | Some ((ty, topic), q) \<Rightarrow>
             (let s2 = s1\<lparr>sb_state := (sb_state s1)\<lparr>spsc_queue_subscriber := q\<rparr>\<rparr>
              in case ty of
                   SUBSCRIBE \<Rightarrow>
                     (case rsub_subscribe R topic (sub s2) of
                        (Inl e, r) \<Rightarrow> (Throw e, s2\<lparr>sub := r\<rparr>)
                      | (Inr u, r) \<Rightarrow>
                          (Ret (), s2\<lparr>sub := r, topics_subscribed_count := topics_subscribed_count s2 + 1\<rparr>))
                 | UNSUBSCRIBE \<Rightarrow>
                     (case rsub_unsubscribe R topic (sub s2) of
                        (Inl e, r) \<Rightarrow> (Throw e, s2\<lparr>sub := r\<rparr>)
                      | (Inr u, r) \<Rightarrow>
                          (Ret (), s2\<lparr>sub := r, topics_subscribed_count := topics_subscribed_count s2 - 1\<rparr>))))"


section \<open>What the messages announce\<close>

text \<open>
  The topics in use after a list of messages, when \<open>R\<close> were in use before; \<open>None\<close> when a
  message is redundant (a topic that is already subscribed, or that is not).
\<close>

fun announced :: "(MsgType \<times> string) list \<Rightarrow> string set \<Rightarrow> string set option" where
  "announced [] R = Some R"
| "announced ((SUBSCRIBE, t) # ms) R = (if t \<in> R then None else announced ms (insert t R))"
| "announced ((UNSUBSCRIBE, t) # ms) R = (if t \<in> R then announced ms (R - {t}) else None)"

definition mirrored :: "('sq, MsgType \<times> string) spsc \<Rightarrow> string set \<Rightarrow> ('pq, 'sq) shared_state \<Rightarrow> bool" where
  "mirrored Q R st \<longleftrightarrow> announced (sp_contents Q (spsc_queue_subscriber st)) R = Some (active_topics st)"

definition waiting :: "('sq, MsgType \<times> string) spsc \<Rightarrow> ('pq, 'sq) shared_state \<Rightarrow> nat" where
  "waiting Q st = length (sp_contents Q (spsc_queue_subscriber st))"

lemma announced_append:
  "announced (ms @ ns) R = Option.bind (announced ms R) (announced ns)"
  by (induction ms R rule: announced.induct) auto

lemma active_topics_upd:
  assumes "registered st' = (registered st)(topic := S)"
  shows "active_topics st' = (if S = {} then active_topics st - {topic} else insert topic (active_topics st))"
  unfolding active_topics_def assms by auto

context spsc_queue
begin

lemma queue_after_contents:
  "length (sp_contents Q q) < queue_capacity \<Longrightarrow>
   sp_contents Q (queue_after Q c x q) = (if c then sp_contents Q q @ [x] else sp_contents Q q)"
  by (simp add: queue_after_def contents_push)

end

lemma subscribe_topic_mirrored:
  assumes Q: "spsc_queue Q" and m: "mirrored Q R st" and room: "waiting Q st < queue_capacity"
    and step: "subscribe_topic Q session topic st = (Ret (), st')"
  shows "mirrored Q R st' \<and> waiting Q st' \<le> Suc (waiting Q st)"
proof -
  from step subscribe_topic_unknown [of topic st Q session] have "topic \<in> known_topics st" by fastforce
  from subscribe_topic_known [OF this, of Q session] step
  have reg: "registered st' = (registered st)(topic := insert session (registered st topic))"
    and q: "spsc_queue_subscriber st' =
      queue_after Q (registered st topic = {}) (SUBSCRIBE, topic) (spsc_queue_subscriber st)" by auto
  have new: "topic \<in> active_topics st \<longleftrightarrow> registered st topic \<noteq> {}" by (simp add: active_topics_def)
  show ?thesis
    using m room new unfolding active_topics_upd [OF reg] mirrored_def waiting_def q
    by (auto simp: spsc_queue.queue_after_contents [OF Q] announced_append)
qed

lemma unsubscribe_topic_mirrored:
  assumes Q: "spsc_queue Q" and m: "mirrored Q R st" and room: "waiting Q st < queue_capacity"
    and step: "unsubscribe_topic Q session topic st = (Ret (), st')"
  shows "mirrored Q R st' \<and> waiting Q st' \<le> Suc (waiting Q st)"
proof -
  from step unsubscribe_topic_unknown [of topic st Q session] have "topic \<in> known_topics st" by fastforce
  from unsubscribe_topic_known [OF this, of Q session] step
  have reg: "registered st' = (registered st)(topic := registered st topic - {session})"
    and q: "spsc_queue_subscriber st' =
      queue_after Q (registered st topic = {session}) (UNSUBSCRIBE, topic) (spsc_queue_subscriber st)" by auto
  have new: "topic \<in> active_topics st \<longleftrightarrow> registered st topic \<noteq> {}" by (simp add: active_topics_def)
  consider "registered st topic = {session}" | "registered st topic = {}"
    | "registered st topic - {session} \<noteq> {}" by blast
  then show ?thesis
    using m room new unfolding active_topics_upd [OF reg] mirrored_def waiting_def q
    by cases (auto simp: spsc_queue.queue_after_contents [OF Q] announced_append insert_absorb)
qed

lemma subscribe_list_mirrored:
  assumes Q: "spsc_queue Q"
  shows "mirrored Q R st \<Longrightarrow> waiting Q st + length topics \<le> queue_capacity \<Longrightarrow>
     websocket_subscribe_to_symbols Q session topics st = (Ret (), st') \<Longrightarrow>
     mirrored Q R st' \<and> waiting Q st' \<le> waiting Q st + length topics"
proof (induction topics arbitrary: st)
  case (Cons topic topics)
  from Cons.prems(3) obtain st1 where one: "subscribe_topic Q session topic st = (Ret (), st1)"
    and rest: "websocket_subscribe_to_symbols Q session topics st1 = (Ret (), st')"
    by (auto simp only: websocket_subscribe_to_symbols.simps io_seq_unit_Ret)
  from Cons.prems(2) have "waiting Q st < queue_capacity" by simp
  from subscribe_topic_mirrored [OF Q Cons.prems(1) this one] Cons.prems(2) Cons.IH [OF _ _ rest]
  show ?case by simp
qed (simp add: io_return_apply)

lemma unsubscribe_list_mirrored:
  assumes Q: "spsc_queue Q"
  shows "mirrored Q R st \<Longrightarrow> waiting Q st + length topics \<le> queue_capacity \<Longrightarrow>
     websocket_unsubscribe_to_symbols Q session topics st = (Ret (), st') \<Longrightarrow>
     mirrored Q R st' \<and> waiting Q st' \<le> waiting Q st + length topics"
proof (induction topics arbitrary: st)
  case (Cons topic topics)
  from Cons.prems(3) obtain st1 where one: "unsubscribe_topic Q session topic st = (Ret (), st1)"
    and rest: "websocket_unsubscribe_to_symbols Q session topics st1 = (Ret (), st')"
    by (auto simp only: websocket_unsubscribe_to_symbols.simps io_seq_unit_Ret)
  from Cons.prems(2) have "waiting Q st < queue_capacity" by simp
  from unsubscribe_topic_mirrored [OF Q Cons.prems(1) this one] Cons.prems(2) Cons.IH [OF _ _ rest]
  show ?case by simp
qed (simp add: io_return_apply)

lemma shared_parse_mirrored:
  assumes Q: "spsc_queue Q" and m: "mirrored Q R st"
    and room: "\<forall>ty topics. parse_message J split msg = Inr (Some (ty, topics)) \<longrightarrow>
      waiting Q st + length topics \<le> queue_capacity"
    and le: "waiting Q st \<le> queue_capacity"
    and step: "shared_parse Q J split msg session st = (Ret (), st')"
  shows "mirrored Q R st' \<and> waiting Q st' \<le> queue_capacity"
proof (cases "parse_message J split msg")
  case (Inl e)
  then show ?thesis using m le step by (simp add: shared_parse_def io_return_apply)
next
  case (Inr r)
  show ?thesis
  proof (cases r)
    case None
    then show ?thesis using Inr m le step by (simp add: shared_parse_def io_return_apply)
  next
    case (Some p)
    obtain ty topics where p: "p = (ty, topics)" by (cases p)
    with Inr Some have pm: "parse_message J split msg = Inr (Some (ty, topics))" by simp
    with room have "waiting Q st + length topics \<le> queue_capacity" by blast
    with pm step subscribe_list_mirrored [OF Q m, of topics session st']
      unsubscribe_list_mirrored [OF Q m, of topics session st']
    show ?thesis by (cases ty) (auto simp: shared_parse_def)
  qed
qed

lemma shared_leave_mirrored:
  assumes Q: "spsc_queue Q" and m: "mirrored Q R st" and ok: "state_ok st"
    and room: "waiting Q st + card (ws_topics st session) \<le> queue_capacity"
    and step: "shared_leave Q session st = (Ret (), st')"
  shows "mirrored Q R st' \<and> waiting Q st' \<le> queue_capacity"
proof -
  let ?ts = "sorted_list_of_set (ws_topics st session)"
  have "length ?ts = card (ws_topics st session)"
    by (simp add: sorted_list_of_set.length_sorted_key_list_of_set)
  with room have len: "waiting Q st + length ?ts \<le> queue_capacity" by simp
  from step obtain st1 where un: "websocket_unsubscribe_to_symbols Q session ?ts st = (Ret (), st1)"
    and st': "st' = st1\<lparr>sessions := sessions st1 - {session}\<rparr>"
    by (auto simp: shared_leave_def io_seq_unit_Ret)
  from unsubscribe_list_mirrored [OF Q m len un] len
  show ?thesis by (simp add: st' mirrored_def waiting_def)
qed

section \<open>The system of sessions and subscriber\<close>

text \<open>
  One step is a handler of a session, one round of such a handler, or one round of the subscriber loop. The
  steps of the sessions ask for room in the queue for the messages they may push.
\<close>

inductive system_step ::
    "('sq, MsgType \<times> string) spsc \<Rightarrow> ('pq, string \<times> string) spsc \<Rightarrow> 'r redis_sub \<Rightarrow> 'j json_lib \<Rightarrow>
     (string \<Rightarrow> string list) \<Rightarrow> ('pq, 'sq, 'r) subscriber \<Rightarrow> ('pq, 'sq, 'r) subscriber \<Rightarrow> bool"
  for Q P R J split where
  session_join: "system_step Q P R J split s (s\<lparr>sb_state := shared_join session (sb_state s)\<rparr>)"
| session_message:
    "shared_parse Q J split msg session (sb_state s) = (Ret (), st') \<Longrightarrow>
     \<forall>ty topics. parse_message J split msg = Inr (Some (ty, topics)) \<longrightarrow>
       waiting Q (sb_state s) + length topics \<le> queue_capacity \<Longrightarrow>
     system_step Q P R J split s (s\<lparr>sb_state := st'\<rparr>)"
| session_end:
    "shared_leave Q session (sb_state s) = (Ret (), st') \<Longrightarrow>
     waiting Q (sb_state s) + card (ws_topics (sb_state s) session) \<le> queue_capacity \<Longrightarrow>
     system_step Q P R J split s (s\<lparr>sb_state := st'\<rparr>)"
| session_subscribes:
    "subscribe_topic Q session topic (sb_state s) = (Ret (), st') \<Longrightarrow> waiting Q (sb_state s) < queue_capacity \<Longrightarrow>
     system_step Q P R J split s (s\<lparr>sb_state := st'\<rparr>)"
| session_unsubscribes:
    "unsubscribe_topic Q session topic (sb_state s) = (Ret (), st') \<Longrightarrow> waiting Q (sb_state s) < queue_capacity \<Longrightarrow>
     system_step Q P R J split s (s\<lparr>sb_state := st'\<rparr>)"
| session_erased:
    "system_step Q P R J split s (s\<lparr>sb_state := (sb_state s)\<lparr>sessions := sessions (sb_state s) - {session}\<rparr>\<rparr>)"
| subscriber_round:
    "subscriber_iteration Q P R s = (Ret (), s') \<Longrightarrow> system_step Q P R J split s s'"

inductive system_reachable ::
    "('sq, MsgType \<times> string) spsc \<Rightarrow> ('pq, string \<times> string) spsc \<Rightarrow> 'r redis_sub \<Rightarrow> 'j json_lib \<Rightarrow>
     (string \<Rightarrow> string list) \<Rightarrow> ('pq, 'sq, 'r) subscriber \<Rightarrow> bool"
  for Q P R J split where
  system_start:
    "state_ok st \<Longrightarrow> active_topics st = {} \<Longrightarrow> sp_contents Q (spsc_queue_subscriber st) = [] \<Longrightarrow>
     rsub_topics R redis = {} \<Longrightarrow> system_reachable Q P R J split (new_subscriber redis st)"
| system_next:
    "system_reachable Q P R J split s \<Longrightarrow> system_step Q P R J split s s' \<Longrightarrow>
     system_reachable Q P R J split s'"

definition system_inv ::
    "('sq, MsgType \<times> string) spsc \<Rightarrow> 'r redis_sub \<Rightarrow> ('pq, 'sq, 'r) subscriber \<Rightarrow> bool" where
  "system_inv Q R s \<longleftrightarrow>
     state_ok (sb_state s) \<and> waiting Q (sb_state s) \<le> queue_capacity \<and>
     mirrored Q (rsub_topics R (sub s)) (sb_state s) \<and> finite (rsub_topics R (sub s)) \<and>
     topics_subscribed_count s = int (card (rsub_topics R (sub s)))"

lemma on_message_fields [simp]:
  "symbols (on_message P c m st) = symbols st"
  "ws_topics (on_message P c m st) = ws_topics st"
  "spsc_queue_subscriber (on_message P c m st) = spsc_queue_subscriber st"
  "sessions (on_message P c m st) = sessions st"
  "registered (on_message P c m st) = registered st"
  "active_topics (on_message P c m st) = active_topics st"
  by (simp_all add: on_message_def registered_def active_topics_def fun_eq_iff)

lemma system_inv_consume:
  assumes R: "redis_sub_laws R" and inv: "system_inv Q R s"
  shows "system_inv Q R (subscriber_consume P R s) \<and>
    spsc_queue_subscriber (sb_state (subscriber_consume P R s)) = spsc_queue_subscriber (sb_state s) \<and>
    active_topics (sb_state (subscriber_consume P R s)) = active_topics (sb_state s)"
proof -
  from R have "rsub_topics R (snd (rsub_consume R (sub s))) = rsub_topics R (sub s)"
    by (simp add: redis_sub_laws_def)
  then show ?thesis
    using inv
    by (auto simp: subscriber_consume_def system_inv_def state_ok_def waiting_def mirrored_def
        split: prod.splits sum.splits option.splits)
qed

lemma int_card_remove: "finite A \<Longrightarrow> x \<in> A \<Longrightarrow> int (card (A - {x})) = int (card A) - 1"
  using card_gt_0_iff [of A] by (auto simp: card_Diff_singleton)

lemma state_ok_queue [simp]: "state_ok (st\<lparr>spsc_queue_subscriber := q\<rparr>) = state_ok st"
  by (simp add: state_ok_def)

lemma system_inv_iteration:
  assumes Q: "spsc_queue Q" and R: "redis_sub_laws R" and inv: "system_inv Q R s"
    and step: "subscriber_iteration Q P R s = (Ret (), s')"
  shows "system_inv Q R s' \<and> active_topics (sb_state s') = active_topics (sb_state s) \<and>
    waiting Q (sb_state s') = waiting Q (sb_state s) - 1"
proof -
  define s1 where "s1 = subscriber_consume P R s"
  from system_inv_consume [OF R inv, of P]
  have inv1: "system_inv Q R s1" and q1: "spsc_queue_subscriber (sb_state s1) = spsc_queue_subscriber (sb_state s)"
    and a1: "active_topics (sb_state s1) = active_topics (sb_state s)" by (auto simp: s1_def)
  show ?thesis
  proof (cases "sp_pop Q (spsc_queue_subscriber (sb_state s1))")
    case None
    then have "sp_contents Q (spsc_queue_subscriber (sb_state s1)) = []"
      using spsc_queue.pop_None_iff [OF Q] by blast
    with None step inv1 a1 q1 show ?thesis
      by (simp add: subscriber_iteration_def s1_def [symmetric] waiting_def)
  next
    case (Some m)
    obtain ty topic q where m: "m = ((ty, topic), q)" by (metis prod.exhaust)
    from spsc_queue.pop_SomeD [OF Q, of "spsc_queue_subscriber (sb_state s1)" "(ty, topic)" q] Some m
    have c: "sp_contents Q (spsc_queue_subscriber (sb_state s1)) = (ty, topic) # sp_contents Q q" by simp
    show ?thesis
      using step inv1 R c unfolding subscriber_iteration_def s1_def [symmetric] Let_def Some m option.case prod.case a1 [symmetric]
      by (cases ty)
        (auto simp: system_inv_def mirrored_def waiting_def redis_sub_laws_def q1 [symmetric] int_card_remove
          simp del: card_Diff_singleton card_Diff_insert split: prod.splits sum.splits if_splits)
  qed
qed

lemma system_inv_step:
  assumes Q: "spsc_queue Q" and R: "redis_sub_laws R"
  shows "system_step Q P R J split s s' \<Longrightarrow> system_inv Q R s \<Longrightarrow> system_inv Q R s'"
proof (induction rule: system_step.induct)
  case (session_join s session)
  then show ?case by (simp add: system_inv_def shared_join_def mirrored_def waiting_def)
next
  case (session_message msg session s st')
  then show ?case
    using shared_parse_ok [of "sb_state s" Q J split msg session st']
      shared_parse_mirrored [OF Q _ session_message(2) _ session_message(1), of "rsub_topics R (sub s)"]
    by (simp add: system_inv_def)
next
  case (session_end session s st')
  then show ?case
    using shared_leave_state [of "sb_state s" Q session]
      shared_leave_mirrored [OF Q _ _ session_end(2) session_end(1)]
    by (auto simp: system_inv_def)
next
  case (session_subscribes session topic s st')
  then show ?case
    using subscribe_topic_ok [of "sb_state s" Q session topic st']
      subscribe_topic_mirrored [OF Q _ session_subscribes(2,1), of "rsub_topics R (sub s)"]
    by (simp add: system_inv_def)
next
  case (session_unsubscribes session topic s st')
  then show ?case
    using unsubscribe_topic_ok [of "sb_state s" Q session topic st']
      unsubscribe_topic_mirrored [OF Q _ session_unsubscribes(2,1), of "rsub_topics R (sub s)"]
    by (simp add: system_inv_def)
next
  case (session_erased s session)
  then show ?case by (simp add: system_inv_def mirrored_def waiting_def)
next
  case (subscriber_round s s')
  then show ?case using system_inv_iteration [OF Q R] by blast
qed

lemma system_reachable_inv:
  assumes Q: "spsc_queue Q" and R: "redis_sub_laws R"
  shows "system_reachable Q P R J split s \<Longrightarrow> system_inv Q R s"
proof (induction rule: system_reachable.induct)
  case (system_start st redis)
  then show ?case by (simp add: system_inv_def new_subscriber_def mirrored_def waiting_def)
next
  case (system_next s s')
  then show ?case using system_inv_step [OF Q R] by blast
qed

section \<open>Properties\<close>

lemma active_topics_of_sessions: "state_ok st \<Longrightarrow> active_topics st = (\<Union>session. ws_topics st session)"
  by (auto simp: active_topics_def state_ok_def)

text \<open>
  In every reachable state in which the subscriber has emptied its queue, the channels the
  Redis connection is subscribed to are exactly the topics that some session has subscribed
  to, and the counter that guards \<open>consume\<close> is their number.
\<close>
theorem subscriptions_follow_sessions:
  assumes "spsc_queue Q" and "redis_sub_laws R" and "system_reachable Q P R J split s"
    and "sp_contents Q (spsc_queue_subscriber (sb_state s)) = []"
  shows "rsub_topics R (sub s) = (\<Union>session. ws_topics (sb_state s) session) \<and>
    topics_subscribed_count s = int (card (\<Union>session. ws_topics (sb_state s) session))"
  using system_reachable_inv [OF assms(1-3)] assms(4)
  by (auto simp: system_inv_def mirrored_def active_topics_of_sessions)

text \<open>A connection that remembers its channels.\<close>

definition set_redis :: "string set redis_sub" where
  "set_redis = \<lparr>rsub_consume = (\<lambda>r. (Inr None, r)), rsub_subscribe = (\<lambda>t r. (Inr (), insert t r)),
     rsub_unsubscribe = (\<lambda>t r. (Inr (), r - {t})), rsub_topics = (\<lambda>r. r)\<rparr>"

lemma set_redis_laws: "redis_sub_laws set_redis"
  by (simp add: redis_sub_laws_def set_redis_def)

lemma joined_reachable:
  "system_reachable bounded_queue bounded_queue set_redis (sample_json subscribe_text) (\<lambda>s. [s])
     \<lparr>sb_state = joined_state, topics_subscribed_count = 1, sub = {''ETH''}\<rparr>"
proof -
  let ?reach = "system_reachable bounded_queue bounded_queue set_redis (sample_json subscribe_text) (\<lambda>s. [s])"
  let ?s0 = "new_subscriber {} (one_topic_state [])"
  let ?st1 = "joined_state\<lparr>spsc_queue_subscriber := [(SUBSCRIBE, ''ETH'')]\<rparr>"
  have r0: "?reach ?s0"
    by (rule system_start) (simp_all add: one_topic_state_ok, simp_all add: one_topic_state_def set_redis_def)
  have "shared_parse bounded_queue (sample_json subscribe_text) (\<lambda>s. [s]) ''sub'' 7 (sb_state ?s0) = (Ret (), ?st1)"
    by (simp add: shared_parse_def parse_subscribe_text io_seq_def io_bind_def io_return_def subscribe_topic_def
        symbol_at_def new_subscriber_def one_topic_state_def joined_state_def new_symbol_def symbol_join_def
        queue_capacity_def)
  then have "system_step bounded_queue bounded_queue set_redis (sample_json subscribe_text) (\<lambda>s. [s])
      ?s0 (?s0\<lparr>sb_state := ?st1\<rparr>)"
    by (rule session_message)
      (simp add: parse_subscribe_text waiting_def new_subscriber_def one_topic_state_def queue_capacity_def)
  from system_next [OF r0 this] have r1: "?reach (?s0\<lparr>sb_state := ?st1\<rparr>)" .
  have "subscriber_iteration bounded_queue bounded_queue set_redis (?s0\<lparr>sb_state := ?st1\<rparr>) =
      (Ret (), \<lparr>sb_state = joined_state, topics_subscribed_count = 1, sub = {''ETH''}\<rparr>)"
    by (simp add: subscriber_iteration_def subscriber_consume_def new_subscriber_def set_redis_def
        joined_state_def one_topic_state_def)
  from system_next [OF r1 subscriber_round [OF this]] show ?thesis .
qed

theorem subscriptions_follow_sessions_witness:
  "rsub_topics set_redis {''ETH''} = (\<Union>session. ws_topics joined_state session)"
  using subscriptions_follow_sessions [OF bounded_queue_spsc set_redis_laws joined_reachable]
  by (simp add: joined_state_def one_topic_state_def)





text \<open>
  C37: the result of \<open>push\<close> is ignored, so a full queue loses the announcement for good. The
  first session to subscribe to a topic then is registered, Redis is not told, and no later
  session that subscribes to the topic makes up for it.
\<close>
theorem full_queue_loses_subscription:
  assumes "spsc_queue Q" and "waiting Q st = queue_capacity" and "topic \<in> known_topics st"
    and "registered st topic = {}"
  shows "\<exists>st'. subscribe_topic Q session topic st = (Ret (), st') \<and>
    active_topics st' = insert topic (active_topics st) \<and>
    spsc_queue_subscriber st' = spsc_queue_subscriber st \<and>
    (\<forall>later q. \<exists>st''. subscribe_topic Q later topic (st'\<lparr>spsc_queue_subscriber := q\<rparr>) = (Ret (), st'') \<and>
       spsc_queue_subscriber st'' = q)"
proof -
  from subscribe_topic_known [OF assms(3), of Q session] obtain st' where
    one: "subscribe_topic Q session topic st = (Ret (), st')"
    and k: "known_topics st' = known_topics st"
    and reg: "registered st' = (registered st)(topic := insert session (registered st topic))"
    and q: "spsc_queue_subscriber st' = queue_after Q (registered st topic = {}) (SUBSCRIBE, topic) (spsc_queue_subscriber st)"
    by blast
  have "spsc_queue_subscriber st' = spsc_queue_subscriber st"
    unfolding q queue_after_def using spsc_queue.push_full [OF assms(1)] assms(2)
    by (simp add: waiting_def)
  moreover have "\<exists>st''. subscribe_topic Q later topic (st'\<lparr>spsc_queue_subscriber := q\<rparr>) = (Ret (), st'') \<and>
       spsc_queue_subscriber st'' = q" for later q
    using subscribe_topic_known [of topic "st'\<lparr>spsc_queue_subscriber := q\<rparr>" Q later] k assms(3)
    by (auto simp: reg queue_after_def)
  moreover have "active_topics st' = insert topic (active_topics st)"
    using active_topics_upd [OF reg] by simp
  ultimately show ?thesis using one by blast
qed

theorem full_queue_loses_subscription_witness:
  "\<exists>st'. subscribe_topic bounded_queue 7 ''ETH'' (one_topic_state (replicate 1024 (UNSUBSCRIBE, []))) = (Ret (), st') \<and>
     active_topics st' = {''ETH''} \<and> spsc_queue_subscriber st' = replicate 1024 (UNSUBSCRIBE, [])"
proof -
  let ?st = "one_topic_state (replicate 1024 (UNSUBSCRIBE, []))"
  have full: "waiting bounded_queue ?st = queue_capacity"
    unfolding waiting_def one_topic_state_def queue_capacity_def by simp
  have "''ETH'' \<in> known_topics ?st \<and> registered ?st ''ETH'' = {}"
    by (simp add: known_topics_def registered_def one_topic_state_def new_symbol_def)
  with full_queue_loses_subscription [OF bounded_queue_spsc full, of "''ETH''" 7]
  show ?thesis
    using one_topic_state_ok by (auto simp: one_topic_state_def)
qed

end
