(* ===== verification/Locked_State.thy ===== *)
theory Locked_State
  imports Subscriber
begin

text \<open>
  The shared state under its mutexes (\<open>src/web/shared_state.cpp\<close>, \<open>src/web/publisher.cpp\<close>). The handlers of
  different sessions run on several threads, and what protects the state is \<open>mutex_\<close> of the shared state and
  one \<open>mutex_\<close> per symbol. Here a handler is cut at every lock, at every unlock and at its pushes, and the
  handlers of all sessions and the two loops interleave between the cuts.

  Elsewhere the work of a handler on one topic is one step (\<open>subscribe_topic\<close>, \<open>unsubscribe_topic\<close>).
  \<open>Locked_Refinement\<close> shows that the mutexes make it so, and what they leave open: \<open>spsc_queue_subscriber_\<close> allows one
  producer, and handlers that hold the mutexes of different symbols may push to it at the same time.
\<close>

section \<open>State and steps\<close>

text \<open>
  What is left to do for a session: to join (\<open>shared_state::join\<close>), to subscribe to or to leave a topic
  (one round of the loops), and to be erased at the end of \<open>shared_state::leave\<close>.
\<close>

datatype lock_action = Act_join | Act_topic MsgType string | Act_erase

text \<open>
  Where a handler is: before \<open>mutex_\<close>, inside it, before the mutex of the symbol, inside it, in a push to the queue of
  the subscriber, before \<open>symbol::join\<close>.
\<close>

datatype lock_place = At_mutex | In_mutex | At_symbol | In_symbol | In_push | In_join

datatype lock_task = Task lock_place lock_action "lock_action list"

datatype lock_holder = Held_by_session sid | Held_by_publisher

datatype publisher_place = Pub_idle | Pub_at string | Pub_in string

text \<open>
  Undefined behaviour: a null pointer of the map of symbols is dereferenced, or two threads push to a queue for
  one producer.
\<close>

datatype lock_fault = Null_symbol | Two_producers

record ('pq, 'sq) locked_state =
  lk_state :: "('pq, 'sq) shared_state"
  lk_mutex :: "sid option"
  lk_symbol :: "string \<Rightarrow> lock_holder option"
  lk_tasks :: "sid \<Rightarrow> lock_task option"
  lk_alive :: "sid set" \<comment> \<open>session objects whose memory is not freed\<close>
  lk_pushing :: "sid option" \<comment> \<open>the session whose handler is inside a push\<close>
  lk_publisher :: publisher_place
  lk_copies :: "(string \<times> sid set) list" \<comment> \<open>topics and the pointers that the publisher copied\<close>
  lk_fault :: "lock_fault option"

definition new_locked_state :: "('pq, 'sq) shared_state \<Rightarrow> ('pq, 'sq) locked_state" where
  "new_locked_state st =
     \<lparr>lk_state = st, lk_mutex = None, lk_symbol = Map.empty, lk_tasks = Map.empty, lk_alive = {}, lk_pushing = None,
      lk_publisher = Pub_idle, lk_copies = [], lk_fault = None\<rparr>"

definition set_task :: "sid \<Rightarrow> lock_task option \<Rightarrow> ('pq, 'sq) locked_state \<Rightarrow> ('pq, 'sq) locked_state" where
  "set_task i k s = s\<lparr>lk_tasks := (lk_tasks s)(i := k)\<rparr>"

fun task_of :: "lock_action list \<Rightarrow> lock_task option" where
  "task_of [] = None"
| "task_of (a # r) = Some (Task At_mutex a r)"

text \<open>The end of a round: the mutex of the symbol is unlocked, and the next action begins.\<close>

definition unlock_symbol :: "sid \<Rightarrow> string \<Rightarrow> lock_action list \<Rightarrow> ('pq, 'sq) locked_state \<Rightarrow> ('pq, 'sq) locked_state" where
  "unlock_symbol i t r s = set_task i (task_of r) (s\<lparr>lk_symbol := (lk_symbol s)(t := None)\<rparr>)"

definition set_symbol :: "string \<Rightarrow> symbol \<Rightarrow> ('pq, 'sq) locked_state \<Rightarrow> ('pq, 'sq) locked_state" where
  "set_symbol t smb s = s\<lparr>lk_state := (lk_state s)\<lparr>symbols := (symbols (lk_state s))(t \<mapsto> Some smb)\<rparr>\<rparr>"

definition set_topics :: "sid \<Rightarrow> string set \<Rightarrow> ('pq, 'sq) locked_state \<Rightarrow> ('pq, 'sq) locked_state" where
  "set_topics i ts s = s\<lparr>lk_state := (lk_state s)\<lparr>ws_topics := (ws_topics (lk_state s))(i := ts)\<rparr>\<rparr>"

definition start_push :: "sid \<Rightarrow> MsgType \<Rightarrow> string \<Rightarrow> lock_action list \<Rightarrow> ('pq, 'sq) locked_state \<Rightarrow> ('pq, 'sq) locked_state" where
  "start_push i ty t r s =
     (if lk_pushing s = None
      then set_task i (Some (Task In_push (Act_topic ty t) r)) (s\<lparr>lk_pushing := Some i\<rparr>)
      else s\<lparr>lk_fault := Some Two_producers\<rparr>)"

definition end_push ::
    "('sq, MsgType \<times> string) spsc \<Rightarrow> MsgType \<Rightarrow> string \<Rightarrow> ('pq, 'sq) locked_state \<Rightarrow> ('pq, 'sq) locked_state" where
  "end_push Q ty t s =
     s\<lparr>lk_pushing := None,
       lk_state := (lk_state s)\<lparr>spsc_queue_subscriber := snd (sp_push Q (ty, t) (spsc_queue_subscriber (lk_state s)))\<rparr>\<rparr>"

text \<open>What happens under \<open>mutex_\<close>, which the same step unlocks. After the erase the destructor has returned.\<close>

fun under_mutex :: "sid \<Rightarrow> lock_action \<Rightarrow> lock_action list \<Rightarrow> ('pq, 'sq) locked_state \<Rightarrow> ('pq, 'sq) locked_state" where
  "under_mutex i Act_join r s = set_task i (task_of r) (s\<lparr>lk_state := shared_join i (lk_state s)\<rparr>)"
| "under_mutex i Act_erase r s =
     set_task i (task_of r)
       (s\<lparr>lk_state := (lk_state s)\<lparr>sessions := sessions (lk_state s) - {i}\<rparr>, lk_alive := lk_alive s - {i}\<rparr>)"
| "under_mutex i (Act_topic SUBSCRIBE t) r s =
     set_task i (Some (Task At_symbol (Act_topic SUBSCRIBE t) r)) (set_topics i (insert t (ws_topics (lk_state s) i)) s)"
| "under_mutex i (Act_topic UNSUBSCRIBE t) r s =
     set_task i (Some (Task At_symbol (Act_topic UNSUBSCRIBE t) r)) (set_topics i (ws_topics (lk_state s) i - {t}) s)"

text \<open>The next step of the handler of a session; \<open>None\<close> while it waits for a mutex.\<close>

fun task_step ::
    "('sq, MsgType \<times> string) spsc \<Rightarrow> sid \<Rightarrow> lock_task \<Rightarrow> ('pq, 'sq) locked_state \<Rightarrow> ('pq, 'sq) locked_state option" where
  "task_step Q i (Task At_mutex a r) s =
     (if lk_mutex s = None then Some (set_task i (Some (Task In_mutex a r)) (s\<lparr>lk_mutex := Some i\<rparr>)) else None)"
| "task_step Q i (Task In_mutex a r) s = Some ((under_mutex i a r s)\<lparr>lk_mutex := None\<rparr>)"
| "task_step Q i (Task At_symbol (Act_topic ty t) r) s =
     (case symbol_at t (lk_state s) of
        (None, st) \<Rightarrow> Some (s\<lparr>lk_state := st, lk_fault := Some Null_symbol\<rparr>)
      | (Some smb, st) \<Rightarrow>
          (if lk_symbol s t = None
           then Some (set_task i (Some (Task In_symbol (Act_topic ty t) r)) (s\<lparr>lk_symbol := (lk_symbol s)(t \<mapsto> Held_by_session i)\<rparr>))
           else None))"
| "task_step Q i (Task In_symbol (Act_topic SUBSCRIBE t) r) s =
     (case symbol_at t (lk_state s) of
        (None, st) \<Rightarrow> None
      | (Some smb, st) \<Rightarrow>
          Some (if sym_sessions smb = {} then start_push i SUBSCRIBE t r s
                else set_task i (Some (Task In_join (Act_topic SUBSCRIBE t) r)) s))"
| "task_step Q i (Task In_symbol (Act_topic UNSUBSCRIBE t) r) s =
     (case symbol_at t (lk_state s) of
        (None, st) \<Rightarrow> None
      | (Some smb, st) \<Rightarrow>
          (case symbol_leave i smb of
             (n, smb') \<Rightarrow>
               Some (if n \<noteq> 0 \<and> sym_sessions smb' = {} then start_push i UNSUBSCRIBE t r (set_symbol t smb' s)
                     else unlock_symbol i t r (set_symbol t smb' s))))"
| "task_step Q i (Task In_push (Act_topic SUBSCRIBE t) r) s =
     Some (set_task i (Some (Task In_join (Act_topic SUBSCRIBE t) r)) (end_push Q SUBSCRIBE t s))"
| "task_step Q i (Task In_push (Act_topic UNSUBSCRIBE t) r) s = Some (unlock_symbol i t r (end_push Q UNSUBSCRIBE t s))"
| "task_step Q i (Task In_join (Act_topic SUBSCRIBE t) r) s =
     (case symbol_at t (lk_state s) of
        (None, st) \<Rightarrow> None
      | (Some smb, st) \<Rightarrow> Some (unlock_symbol i t r (set_symbol t (symbol_join i smb) s)))"
| "task_step Q i k s = None"

text \<open>The publisher copies the pointers of a symbol under its mutex.\<close>

fun publisher_step :: "('pq, 'sq) locked_state \<Rightarrow> ('pq, 'sq) locked_state option" where
  "publisher_step s =
     (case lk_publisher s of
        Pub_idle \<Rightarrow> None
      | Pub_at t \<Rightarrow>
          (case symbol_at t (lk_state s) of
             (None, st) \<Rightarrow> Some (s\<lparr>lk_state := st, lk_fault := Some Null_symbol\<rparr>)
           | (Some smb, st) \<Rightarrow>
               (if lk_symbol s t = None
                then Some (s\<lparr>lk_symbol := (lk_symbol s)(t \<mapsto> Held_by_publisher), lk_publisher := Pub_in t\<rparr>) else None))
      | Pub_in t \<Rightarrow>
          (case symbol_at t (lk_state s) of
             (None, st) \<Rightarrow> None
           | (Some smb, st) \<Rightarrow>
               Some (s\<lparr>lk_copies := lk_copies s @ [(t, sym_sessions smb)], lk_symbol := (lk_symbol s)(t := None),
                       lk_publisher := Pub_idle\<rparr>)))"

text \<open>
  The actions of the operations of a session: \<open>on_accept\<close> joins, \<open>on_read\<close> handles a message, the destructor
  leaves with a copy of the session's topics.
\<close>

definition leave_actions :: "sid \<Rightarrow> ('pq, 'sq) shared_state \<Rightarrow> lock_action list" where
  "leave_actions i st = map (Act_topic UNSUBSCRIBE) (sorted_list_of_set (ws_topics st i)) @ [Act_erase]"

fun message_actions :: "exn + (MsgType \<times> string list) option \<Rightarrow> lock_action list" where
  "message_actions (Inr (Some (ty, topics))) = map (Act_topic ty) topics"
| "message_actions _ = []"

inductive lock_move ::
    "('sq, MsgType \<times> string) spsc \<Rightarrow> ('pq, 'sq) locked_state \<Rightarrow> ('pq, 'sq) locked_state \<Rightarrow> bool"
  for Q where
  session_moves: "lk_tasks s i = Some k \<Longrightarrow> task_step Q i k s = Some s' \<Longrightarrow> lock_move Q s s'"
| publisher_moves: "publisher_step s = Some s' \<Longrightarrow> lock_move Q s s'"

inductive lock_step ::
    "('sq, MsgType \<times> string) spsc \<Rightarrow> ('pq, string \<times> string) spsc \<Rightarrow> 'j json_lib \<Rightarrow> (string \<Rightarrow> string list) \<Rightarrow>
     ('pq, 'sq) locked_state \<Rightarrow> ('pq, 'sq) locked_state \<Rightarrow> bool"
  for Q P J split where
  moves: "lock_move Q s s' \<Longrightarrow> lock_step Q P J split s s'"
| session_created: "i \<notin> lk_alive s \<Longrightarrow> lock_step Q P J split s (s\<lparr>lk_alive := insert i (lk_alive s)\<rparr>)"
| session_accepted:
    "i \<in> lk_alive s \<Longrightarrow> lk_tasks s i = None \<Longrightarrow> lock_step Q P J split s (set_task i (task_of [Act_join]) s)"
| message_read:
    "i \<in> lk_alive s \<Longrightarrow> lk_tasks s i = None \<Longrightarrow>
     lock_step Q P J split s (set_task i (task_of (message_actions (parse_message J split msg))) s)"
| session_destroyed:
    "i \<in> lk_alive s \<Longrightarrow> lk_tasks s i = None \<Longrightarrow>
     lock_step Q P J split s (set_task i (task_of (leave_actions i (lk_state s))) s)"
| publisher_takes:
    "lk_publisher s = Pub_idle \<Longrightarrow> sp_pop P (spsc_queue_publish (lk_state s)) = Some ((topic, message), q) \<Longrightarrow>
     lock_step Q P J split s (s\<lparr>lk_state := (lk_state s)\<lparr>spsc_queue_publish := q\<rparr>, lk_publisher := Pub_at topic\<rparr>)"
| subscriber_takes:
    "sp_pop Q (spsc_queue_subscriber (lk_state s)) = Some (m, q) \<Longrightarrow>
     lock_step Q P J split s (s\<lparr>lk_state := (lk_state s)\<lparr>spsc_queue_subscriber := q\<rparr>\<rparr>)"
| message_arrives: "lock_step Q P J split s (s\<lparr>lk_state := on_message P channel msg (lk_state s)\<rparr>)"

text \<open>Runs end at a fault.\<close>

inductive lock_reaches ::
    "('sq, MsgType \<times> string) spsc \<Rightarrow> ('pq, string \<times> string) spsc \<Rightarrow> 'j json_lib \<Rightarrow> (string \<Rightarrow> string list) \<Rightarrow>
     ('pq, 'sq) locked_state \<Rightarrow> ('pq, 'sq) locked_state \<Rightarrow> bool"
  for Q P J split s where
  lock_start: "lock_reaches Q P J split s s"
| lock_next: "lock_reaches Q P J split s t \<Longrightarrow> lk_fault t = None \<Longrightarrow> lock_step Q P J split t u \<Longrightarrow> lock_reaches Q P J split s u"

lemma updates [simp]:
  "lk_state (set_task i k s) = lk_state s" "lk_mutex (set_task i k s) = lk_mutex s" "lk_symbol (set_task i k s) = lk_symbol s"
  "lk_tasks (set_task i k s) = (lk_tasks s)(i := k)" "lk_alive (set_task i k s) = lk_alive s"
  "lk_pushing (set_task i k s) = lk_pushing s" "lk_publisher (set_task i k s) = lk_publisher s"
  "lk_copies (set_task i k s) = lk_copies s" "lk_fault (set_task i k s) = lk_fault s"
  by (simp_all add: set_task_def)


lemma updates2 [simp]:
  "lk_state (unlock_symbol i t r s) = lk_state s" "lk_mutex (unlock_symbol i t r s) = lk_mutex s"
  "lk_symbol (unlock_symbol i t r s) = (lk_symbol s)(t := None)" "lk_tasks (unlock_symbol i t r s) = (lk_tasks s)(i := task_of r)"
  "lk_alive (unlock_symbol i t r s) = lk_alive s" "lk_pushing (unlock_symbol i t r s) = lk_pushing s"
  "lk_publisher (unlock_symbol i t r s) = lk_publisher s" "lk_copies (unlock_symbol i t r s) = lk_copies s"
  "lk_fault (unlock_symbol i t r s) = lk_fault s"
  "lk_mutex (set_symbol t smb s) = lk_mutex s" "lk_symbol (set_symbol t smb s) = lk_symbol s"
  "lk_tasks (set_symbol t smb s) = lk_tasks s" "lk_alive (set_symbol t smb s) = lk_alive s"
  "lk_pushing (set_symbol t smb s) = lk_pushing s" "lk_publisher (set_symbol t smb s) = lk_publisher s"
  "lk_copies (set_symbol t smb s) = lk_copies s" "lk_fault (set_symbol t smb s) = lk_fault s"
  "lk_mutex (set_topics i ts s) = lk_mutex s" "lk_symbol (set_topics i ts s) = lk_symbol s"
  "lk_tasks (set_topics i ts s) = lk_tasks s" "lk_alive (set_topics i ts s) = lk_alive s"
  "lk_pushing (set_topics i ts s) = lk_pushing s" "lk_publisher (set_topics i ts s) = lk_publisher s"
  "lk_copies (set_topics i ts s) = lk_copies s" "lk_fault (set_topics i ts s) = lk_fault s"
  "lk_mutex (end_push Q ty t s) = lk_mutex s" "lk_symbol (end_push Q ty t s) = lk_symbol s"
  "lk_tasks (end_push Q ty t s) = lk_tasks s" "lk_alive (end_push Q ty t s) = lk_alive s"
  "lk_pushing (end_push Q ty t s) = None" "lk_publisher (end_push Q ty t s) = lk_publisher s"
  "lk_copies (end_push Q ty t s) = lk_copies s" "lk_fault (end_push Q ty t s) = lk_fault s"
  by (simp_all add: unlock_symbol_def set_symbol_def set_topics_def end_push_def)

lemma state_updates [simp]:
  "lk_state (set_symbol t smb s) = (lk_state s)\<lparr>symbols := (symbols (lk_state s))(t \<mapsto> Some smb)\<rparr>"
  "lk_state (set_topics i ts s) = (lk_state s)\<lparr>ws_topics := (ws_topics (lk_state s))(i := ts)\<rparr>"
  "lk_state (end_push Q ty t s) =
     (lk_state s)\<lparr>spsc_queue_subscriber := snd (sp_push Q (ty, t) (spsc_queue_subscriber (lk_state s)))\<rparr>"
  by (simp_all add: set_symbol_def set_topics_def end_push_def)

lemma start_push_free:
  "lk_fault s = None \<Longrightarrow> lk_fault (start_push i ty t r s) = None \<Longrightarrow>
   lk_pushing s = None \<and> start_push i ty t r s = set_task i (Some (Task In_push (Act_topic ty t) r)) (s\<lparr>lk_pushing := Some i\<rparr>)"
  by (auto simp: start_push_def split: if_splits)

section \<open>Invariant\<close>

text \<open>
  What is visible of a session: its task, its topics, the symbols it is registered with, the mutexes it
  holds and whether it pushes. A step of a session changes nothing of this for another one.
\<close>

definition regs :: "('pq, 'sq) locked_state \<Rightarrow> sid \<Rightarrow> string set" where
  "regs s i = {t. i \<in> registered (lk_state s) t}"

definition locks_of :: "('pq, 'sq) locked_state \<Rightarrow> sid \<Rightarrow> string set" where
  "locks_of s i = {t. lk_symbol s t = Some (Held_by_session i)}"

definition view ::
    "('pq, 'sq) locked_state \<Rightarrow> sid \<Rightarrow> lock_task option \<times> string set \<times> string set \<times> bool \<times> string set \<times> bool \<times> bool" where
  "view s i =
     (lk_tasks s i, ws_topics (lk_state s) i, regs s i, lk_mutex s = Some i, locks_of s i, lk_pushing s = Some i, i \<in> lk_alive s)"

fun todo :: "lock_task \<Rightarrow> lock_action list" where
  "todo (Task p a r) = (if p \<in> {At_mutex, In_mutex} then a # r else r)"

text \<open>A destructor removes all topics that are left.\<close>

definition leaves_clean :: "lock_action list \<Rightarrow> string set \<Rightarrow> bool" where
  "leaves_clean as T \<longleftrightarrow>
     (Act_erase \<in> set as \<longrightarrow> (\<exists>ts. as = map (Act_topic UNSUBSCRIBE) ts @ [Act_erase] \<and> T \<subseteq> set ts))"

text \<open>The state of a session in the middle of a round: locks, topics and registrations that its place asks for.\<close>

fun round_ok :: "string set \<Rightarrow> lock_place \<Rightarrow> lock_action \<Rightarrow> string set \<Rightarrow> string set \<Rightarrow> string set \<Rightarrow> bool" where
  "round_ok K p (Act_topic ty t) T R L \<longleftrightarrow>
     (if p \<in> {At_mutex, In_mutex} then R = T \<and> L = {}
      else R - {t} = T - {t} \<and> (t \<in> T \<longleftrightarrow> ty = SUBSCRIBE) \<and> L = (if p = At_symbol then {} else {t}) \<and>
        (p \<noteq> At_symbol \<longrightarrow> t \<in> K) \<and> (p = In_push \<longrightarrow> t \<notin> R) \<and> (p = In_join \<longrightarrow> ty = SUBSCRIBE))"
| "round_ok K p a T R L \<longleftrightarrow> p \<in> {At_mutex, In_mutex} \<and> R = T \<and> L = {}"

fun session_view_ok ::
    "string set \<Rightarrow> lock_task option \<times> string set \<times> string set \<times> bool \<times> string set \<times> bool \<times> bool \<Rightarrow> bool" where
  "session_view_ok K (None, T, R, m, L, p, al) \<longleftrightarrow> finite T \<and> \<not> m \<and> L = {} \<and> \<not> p \<and> R = T \<and> (\<not> al \<longrightarrow> T = {})"
| "session_view_ok K (Some (Task pl a r), T, R, m, L, p, al) \<longleftrightarrow>
     finite T \<and> al \<and> m = (pl = In_mutex) \<and> p = (pl = In_push) \<and> round_ok K pl a T R L \<and> leaves_clean (todo (Task pl a r)) T"

fun pushes :: "lock_task option \<Rightarrow> string \<Rightarrow> bool" where
  "pushes (Some (Task In_push (Act_topic ty t') r)) t = (t' = t)"
| "pushes k t = False"

definition locks_ok :: "('pq, 'sq) locked_state \<Rightarrow> bool" where
  "locks_ok s \<longleftrightarrow>
     (\<forall>i. session_view_ok (known_topics (lk_state s)) (view s i)) \<and> (\<forall>t. symbols (lk_state s) t \<noteq> Some None) \<and>
     (\<forall>t. (lk_symbol s t = Some Held_by_publisher) = (lk_publisher s = Pub_in t)) \<and>
     (\<forall>t. lk_publisher s = Pub_in t \<longrightarrow> t \<in> known_topics (lk_state s)) \<and>
     (\<forall>i t. pushes (lk_tasks s i) t \<longrightarrow> registered (lk_state s) t = {}) \<and> finite (lk_alive s)"

lemma symbol_at_cases:
  assumes "\<forall>t. symbols st t \<noteq> Some None"
  obtains "symbol_at t st = (None, st\<lparr>symbols := (symbols st)(t \<mapsto> None)\<rparr>)" "t \<notin> known_topics st"
  | smb where "symbol_at t st = (Some smb, st)" "symbols st t = Some (Some smb)" "t \<in> known_topics st" "registered st t = sym_sessions smb"
  using assms by (cases "symbols st t"; cases "the (symbols st t)") (auto simp: symbol_at_def known_topics_def registered_def)

lemma leaves_clean_tl: "leaves_clean (a # r) T \<Longrightarrow> leaves_clean r (T - {t. a = Act_topic UNSUBSCRIBE t})"
  unfolding leaves_clean_def
proof
  assume c: "Act_erase \<in> set (a # r) \<longrightarrow> (\<exists>ts. a # r = map (Act_topic UNSUBSCRIBE) ts @ [Act_erase] \<and> T \<subseteq> set ts)"
    and "Act_erase \<in> set r"
  then obtain ts where ts: "a # r = map (Act_topic UNSUBSCRIBE) ts @ [Act_erase]" "T \<subseteq> set ts" by auto
  with \<open>Act_erase \<in> set r\<close> show "\<exists>ts. r = map (Act_topic UNSUBSCRIBE) ts @ [Act_erase] \<and> T - {t. a = Act_topic UNSUBSCRIBE t} \<subseteq> set ts"
    by (cases ts) auto
qed

lemma leaves_clean_subscribe: "leaves_clean (Act_topic SUBSCRIBE t # r) T \<Longrightarrow> leaves_clean r T'"
  unfolding leaves_clean_def
proof
  assume c: "Act_erase \<in> set (Act_topic SUBSCRIBE t # r) \<longrightarrow>
      (\<exists>ts. Act_topic SUBSCRIBE t # r = map (Act_topic UNSUBSCRIBE) ts @ [Act_erase] \<and> T \<subseteq> set ts)"
    and "Act_erase \<in> set r"
  then obtain ts where "Act_topic SUBSCRIBE t # r = map (Act_topic UNSUBSCRIBE) ts @ [Act_erase]" by auto
  then show "\<exists>ts. r = map (Act_topic UNSUBSCRIBE) ts @ [Act_erase] \<and> T' \<subseteq> set ts" by (cases ts) auto
qed

lemma leaves_clean_join: "leaves_clean (Act_join # r) T \<Longrightarrow> leaves_clean r T'"
  unfolding leaves_clean_def
proof
  assume c: "Act_erase \<in> set (Act_join # r) \<longrightarrow> (\<exists>ts. Act_join # r = map (Act_topic UNSUBSCRIBE) ts @ [Act_erase] \<and> T \<subseteq> set ts)"
    and "Act_erase \<in> set r"
  then obtain ts where "Act_join # r = map (Act_topic UNSUBSCRIBE) ts @ [Act_erase]" by auto
  then show "\<exists>ts. r = map (Act_topic UNSUBSCRIBE) ts @ [Act_erase] \<and> T' \<subseteq> set ts" by (cases ts) auto
qed

lemma leaves_clean_erase: "leaves_clean (Act_erase # r) T \<Longrightarrow> r = [] \<and> T = {}"
proof -
  assume "leaves_clean (Act_erase # r) T"
  then obtain ts where "Act_erase # r = map (Act_topic UNSUBSCRIBE) ts @ [Act_erase]" "T \<subseteq> set ts"
    by (auto simp: leaves_clean_def)
  then show ?thesis by (cases ts) auto
qed

lemma leaves_clean_message [simp]: "leaves_clean (map (Act_topic ty) ts) T" "leaves_clean [Act_join] T" "leaves_clean [] T"
  by (auto simp: leaves_clean_def)

text \<open>A session whose round is over.\<close>

lemma session_view_ok_task_of:
  "session_view_ok K (task_of r, T, R, m, L, p, al) \<longleftrightarrow>
     finite T \<and> \<not> m \<and> L = {} \<and> \<not> p \<and> R = T \<and> (if r = [] then \<not> al \<longrightarrow> T = {} else al \<and> leaves_clean r T)"
  by (cases r rule: task_of.cases; cases "hd r") auto

lemma session_view_ok_known: "session_view_ok K v \<Longrightarrow> K \<subseteq> K' \<Longrightarrow> session_view_ok K' v"
proof (cases v)
  case (fields k T R m L p al)
  assume ok: "session_view_ok K v" "K \<subseteq> K'"
  show ?thesis
  proof (cases k)
    case (Some k')
    obtain pl a r where "k' = Task pl a r" by (cases k')
    with ok fields Some show ?thesis by (cases a) (auto split: if_splits)
  qed (use ok fields in auto)
qed


lemma locks_okD:
  assumes "locks_ok s"
  shows "session_view_ok (known_topics (lk_state s)) (view s i)" and "\<forall>t. symbols (lk_state s) t \<noteq> Some None"
    and "(lk_symbol s t = Some Held_by_publisher) = (lk_publisher s = Pub_in t)"
    and "lk_publisher s = Pub_in t \<Longrightarrow> t \<in> known_topics (lk_state s)"
    and "pushes (lk_tasks s i) t \<Longrightarrow> registered (lk_state s) t = {}" and "finite (lk_alive s)"
  using assms unfolding locks_ok_def by blast+

lemma pushes_holds:
  assumes "session_view_ok K (view s i)" and "pushes (lk_tasks s i) t"
  shows "lk_symbol s t = Some (Held_by_session i)"
proof -
  from assms(2) obtain ty r where "lk_tasks s i = Some (Task In_push (Act_topic ty t) r)"
    by (cases "(lk_tasks s i, t)" rule: pushes.cases) auto
  with assms(1) have "t \<in> locks_of s i" by (auto simp: view_def)
  then show ?thesis by (simp add: locks_of_def)
qed

text \<open>A step of one session, with what it leaves alone.\<close>

definition session_change :: "sid \<Rightarrow> ('pq, 'sq) locked_state \<Rightarrow> ('pq, 'sq) locked_state \<Rightarrow> bool" where
  "session_change i s s' \<longleftrightarrow>
     (\<forall>j. j \<noteq> i \<longrightarrow> view s' j = view s j) \<and> known_topics (lk_state s') = known_topics (lk_state s) \<and>
     (\<forall>t. symbols (lk_state s') t \<noteq> Some None) \<and> lk_publisher s' = lk_publisher s \<and> lk_copies s' = lk_copies s \<and>
     (\<forall>t. (lk_symbol s' t = Some Held_by_publisher) = (lk_symbol s t = Some Held_by_publisher)) \<and>
     (\<forall>t. lk_symbol s t \<noteq> Some (Held_by_session i) \<longrightarrow> symbols (lk_state s') t = symbols (lk_state s) t)"

lemma locks_ok_change:
  assumes ok: "locks_ok s" and c: "session_change i s s'"
    and "session_view_ok (known_topics (lk_state s)) (view s' i)" and "\<And>t. pushes (lk_tasks s' i) t \<Longrightarrow> registered (lk_state s') t = {}"
    and "finite (lk_alive s')"
  shows "locks_ok s'"
  unfolding locks_ok_def
proof (intro conjI allI impI)
  note c' = c [unfolded session_change_def]
  show "session_view_ok (known_topics (lk_state s')) (view s' j)" for j
    using c' assms(3) locks_okD(1) [OF ok] by (cases "j = i") auto
  show "registered (lk_state s') t = {}" if p: "pushes (lk_tasks s' j) t" for j t
  proof (cases "j = i")
    case False
    with c' have v: "view s' j = view s j" by blast
    with p have p': "pushes (lk_tasks s j) t" by (simp add: view_def)
    from pushes_holds [OF locks_okD(1) [OF ok] this] False have "lk_symbol s t \<noteq> Some (Held_by_session i)" by simp
    with c' have "symbols (lk_state s') t = symbols (lk_state s) t" by blast
    with locks_okD(5) [OF ok p'] show ?thesis by (simp add: registered_def)
  qed (use p assms(4) in blast)
qed (use c locks_okD(2-4) [OF ok] assms(5) in \<open>simp_all add: session_change_def\<close>)

lemma view_other [simp]:
  "j \<noteq> i \<Longrightarrow> view (set_task i k s) j = view s j"
  by (simp add: view_def regs_def locks_of_def)

text \<open>The steps of a session that are no fault, one per place.\<close>

lemma change_at_mutex:
  assumes "locks_ok s" and "lk_tasks s i = Some (Task At_mutex a r)" and "lk_mutex s = None"
    and "s' = set_task i (Some (Task In_mutex a r)) (s\<lparr>lk_mutex := Some i\<rparr>)"
  shows "session_change i s s' \<and> locks_ok s'"
proof
  show c: "session_change i s s'"
    using assms(3,4) locks_okD(2) [OF assms(1)] by (auto simp: session_change_def view_def regs_def locks_of_def)
  from locks_okD(1) [OF assms(1), of i] assms(2-4) have "session_view_ok (known_topics (lk_state s)) (view s' i)"
    by (cases a) (auto simp: view_def regs_def locks_of_def)
  then show "locks_ok s'"
    by (rule locks_ok_change [OF assms(1) c]) (use assms(4) locks_okD(6) [OF assms(1)] in auto)
qed

lemma change_in_mutex:
  assumes "locks_ok s" and "lk_tasks s i = Some (Task In_mutex a r)" and "s' = (under_mutex i a r s)\<lparr>lk_mutex := None\<rparr>"
  shows "session_change i s s' \<and> locks_ok s'"
proof
  have m: "lk_mutex s = Some i" and v: "session_view_ok (known_topics (lk_state s)) (view s i)"
    using locks_okD(1) [OF assms(1), of i] assms(2) by (simp_all add: view_def)
  show c: "session_change i s s'"
  proof (cases a)
    case (Act_topic ty t)
    then show ?thesis
      using m assms(3) locks_okD(2) [OF assms(1)]
      by (cases ty) (auto simp: session_change_def view_def regs_def locks_of_def known_topics_def registered_def)
  qed (use m assms(3) locks_okD(2) [OF assms(1)] in
      \<open>auto simp: session_change_def view_def regs_def locks_of_def known_topics_def registered_def shared_join_def\<close>)
  have "session_view_ok (known_topics (lk_state s)) (view s' i)"
  proof (cases a)
    case Act_join
    with v assms(2,3) leaves_clean_join show ?thesis
      by (auto simp: view_def regs_def locks_of_def registered_def shared_join_def session_view_ok_task_of)
  next
    case Act_erase
    with v assms(2,3) leaves_clean_erase [of r "ws_topics (lk_state s) i"] show ?thesis
      by (auto simp: view_def regs_def locks_of_def registered_def)
  next
    case (Act_topic ty t)
    with v assms(2,3) leaves_clean_tl [of a r "ws_topics (lk_state s) i"] show ?thesis
      by (cases ty) (auto simp: view_def regs_def locks_of_def registered_def intro: leaves_clean_subscribe)
  qed
  then show "locks_ok s'"
  proof (rule locks_ok_change [OF assms(1) c])
    show "registered (lk_state s') t = {}" if "pushes (lk_tasks s' i) t" for t
      using that assms(3) by (cases "(i, a, r, s)" rule: under_mutex.cases; cases r) auto
    show "finite (lk_alive s')"
      using assms(3) locks_okD(6) [OF assms(1)] by (cases "(i, a, r, s)" rule: under_mutex.cases) auto
  qed
qed


text \<open>What the place of a session inside the mutex of a symbol says.\<close>

lemma inside_symbol:
  assumes "locks_ok s" and "lk_tasks s i = Some (Task p (Act_topic ty t) r)" and "p \<in> {In_symbol, In_push, In_join}"
  obtains smb where "symbol_at t (lk_state s) = (Some smb, lk_state s)" "symbols (lk_state s) t = Some (Some smb)"
    "registered (lk_state s) t = sym_sessions smb" "lk_symbol s t = Some (Held_by_session i)" "locks_of s i = {t}"
proof -
  from locks_okD(1) [OF assms(1), of i] assms(2,3) have t: "t \<in> known_topics (lk_state s)" "locks_of s i = {t}"
    by (auto simp: view_def)
  then have "lk_symbol s t = Some (Held_by_session i)" by (auto simp: locks_of_def)
  with symbol_at_cases [OF locks_okD(2) [OF assms(1)], of t] that t show thesis by metis
qed

lemma change_at_symbol:
  assumes "locks_ok s" and "lk_tasks s i = Some (Task At_symbol (Act_topic ty t) r)" and "lk_symbol s t = None"
    and "t \<in> known_topics (lk_state s)"
    and "s' = set_task i (Some (Task In_symbol (Act_topic ty t) r)) (s\<lparr>lk_symbol := (lk_symbol s)(t \<mapsto> Held_by_session i)\<rparr>)"
  shows "session_change i s s' \<and> locks_ok s'"
proof
  show c: "session_change i s s'"
    using assms(3,5) locks_okD(2) [OF assms(1)] by (auto simp: session_change_def view_def regs_def locks_of_def)
  from locks_okD(1) [OF assms(1), of i] assms(2-5) have "session_view_ok (known_topics (lk_state s)) (view s' i)"
    by (auto simp: view_def regs_def locks_of_def)
  then show "locks_ok s'"
    by (rule locks_ok_change [OF assms(1) c]) (use assms(5) locks_okD(6) [OF assms(1)] in auto)
qed

declare registered_upd [simp]

text \<open>The holder of a symbol may change its sessions, but only by itself.\<close>

lemma change_symbol:
  assumes "locks_ok s" and "lk_symbol s t = Some (Held_by_session i)" and "symbols (lk_state s) t = Some (Some smb)"
    and "sym_sessions smb' - {i} = sym_sessions smb - {i}"
  shows "session_change i s (set_symbol t smb' s)"
proof -
  have "j \<in> sym_sessions smb' \<longleftrightarrow> j \<in> registered (lk_state s) t" if "j \<noteq> i" for j
    using assms(3,4) that by (auto simp: registered_def)
  then show ?thesis
    using assms(2,3) locks_okD(2) [OF assms(1)]
    by (auto simp: session_change_def view_def regs_def locks_of_def known_topics_def)
qed

lemma change_trans:
  assumes "session_change i s s1" and "session_change i s1 s2" and "\<And>t. lk_symbol s1 t = Some (Held_by_session i) \<Longrightarrow> lk_symbol s t = Some (Held_by_session i)"
  shows "session_change i s s2"
  using assms unfolding session_change_def by (metis (full_types))

lemma change_task [simp]:
  "\<forall>t. symbols (lk_state s) t \<noteq> Some None \<Longrightarrow> session_change i s (set_task i k s)"
  by (simp add: session_change_def)

lemma change_push_start:
  "\<forall>t. symbols (lk_state s) t \<noteq> Some None \<Longrightarrow> lk_pushing s = None \<Longrightarrow> session_change i s (set_task i k (s\<lparr>lk_pushing := Some i\<rparr>))"
  by (auto simp: session_change_def view_def regs_def locks_of_def)

lemma change_push_end:
  "\<forall>t. symbols (lk_state s) t \<noteq> Some None \<Longrightarrow> lk_pushing s = Some i \<Longrightarrow> session_change i s (end_push Q ty t s)"
  by (auto simp: session_change_def view_def regs_def locks_of_def registered_def known_topics_def)

lemma change_unlock:
  "\<forall>t. symbols (lk_state s) t \<noteq> Some None \<Longrightarrow> lk_symbol s t = Some (Held_by_session i) \<Longrightarrow> session_change i s (unlock_symbol i t r s)"
  by (auto simp: session_change_def view_def regs_def locks_of_def)

lemma set_symbol_nonnull: "\<forall>t. symbols (lk_state s) t \<noteq> Some None \<Longrightarrow> \<forall>u. symbols (lk_state (set_symbol t smb s)) u \<noteq> Some None"
  by simp

lemma end_push_nonnull: "\<forall>t. symbols (lk_state s) t \<noteq> Some None \<Longrightarrow> \<forall>u. symbols (lk_state (end_push Q ty t s)) u \<noteq> Some None"
  by simp

lemma change_in_symbol_subscribe:
  assumes ok: "locks_ok s" and k: "lk_tasks s i = Some (Task In_symbol (Act_topic SUBSCRIBE t) r)"
    and s': "s' = (if sym_sessions smb = {} then set_task i (Some (Task In_push (Act_topic SUBSCRIBE t) r)) (s\<lparr>lk_pushing := Some i\<rparr>)
                else set_task i (Some (Task In_join (Act_topic SUBSCRIBE t) r)) s)"
    and smb: "symbols (lk_state s) t = Some (Some smb)" and free: "sym_sessions smb = {} \<longrightarrow> lk_pushing s = None"
  shows "session_change i s s' \<and> locks_ok s'"
proof
  show c: "session_change i s s'"
    using s' free change_push_start [OF locks_okD(2) [OF ok]] locks_okD(2) [OF ok] by auto
  have reg: "registered (lk_state s) t = sym_sessions smb" using smb by (simp add: registered_def)
  from locks_okD(1) [OF ok, of i] k s' reg have "session_view_ok (known_topics (lk_state s)) (view s' i)"
    by (auto simp: view_def regs_def locks_of_def)
  then show "locks_ok s'"
    by (rule locks_ok_change [OF ok c]) (use s' reg locks_okD(6) [OF ok] in \<open>auto split: if_splits\<close>)
qed

lemma change_in_symbol_unsubscribe:
  assumes ok: "locks_ok s" and k: "lk_tasks s i = Some (Task In_symbol (Act_topic UNSUBSCRIBE t) r)"
    and smb: "symbols (lk_state s) t = Some (Some smb)" and smb': "smb' = smb\<lparr>sym_sessions := sym_sessions smb - {i}\<rparr>"
    and s': "s' = (if i \<in> sym_sessions smb \<and> sym_sessions smb' = {}
                   then set_task i (Some (Task In_push (Act_topic UNSUBSCRIBE t) r)) ((set_symbol t smb' s)\<lparr>lk_pushing := Some i\<rparr>)
                   else unlock_symbol i t r (set_symbol t smb' s))"
    and free: "i \<in> sym_sessions smb \<and> sym_sessions smb' = {} \<longrightarrow> lk_pushing s = None"
  shows "session_change i s s' \<and> locks_ok s'"
proof
  from inside_symbol [OF ok k] have holds: "lk_symbol s t = Some (Held_by_session i)" "locks_of s i = {t}" by auto
  have c1: "session_change i s (set_symbol t smb' s)" using change_symbol [OF ok holds(1) smb] by (simp add: smb')
  note nonnull = set_symbol_nonnull [OF locks_okD(2) [OF ok]]
  show c: "session_change i s s'"
  proof (rule change_trans [OF c1])
    show "session_change i (set_symbol t smb' s) s'"
      using s' free change_push_start [OF nonnull] change_unlock [OF nonnull] holds(1) by auto
  qed simp
  have reg: "registered (lk_state s) t = sym_sessions smb" using smb by (simp add: registered_def)
  have reg': "registered (lk_state s') u = (if u = t then sym_sessions smb - {i} else registered (lk_state s) u)" for u
    using s' smb' by (auto simp: registered_def)
  from locks_okD(1) [OF ok, of i] k have old: "finite (ws_topics (lk_state s) i)" "i \<in> lk_alive s" "lk_mutex s \<noteq> Some i"
    "lk_pushing s \<noteq> Some i" "regs s i - {t} = ws_topics (lk_state s) i - {t}" "t \<notin> ws_topics (lk_state s) i" "t \<in> known_topics (lk_state s)"
    "leaves_clean r (ws_topics (lk_state s) i)" by (auto simp: view_def)
  have regs': "regs s' i = regs s i - {t}" by (auto simp: regs_def reg')
  have "session_view_ok (known_topics (lk_state s)) (view s' i)"
  proof (cases "i \<in> sym_sessions smb \<and> sym_sessions smb' = {}")
    case True
    with s' have "locks_of s' i = {t}" using holds by (simp add: locks_of_def)
    then show ?thesis unfolding view_def regs' using s' True old by auto
  next
    case False
    with s' have "locks_of s' i = {}" using holds(2) by (auto simp: locks_of_def)
    then show ?thesis unfolding view_def regs' using s' False old by (auto simp: session_view_ok_task_of)
  qed
  then show "locks_ok s'"
  proof (rule locks_ok_change [OF ok c])
    show "registered (lk_state s') u = {}" if "pushes (lk_tasks s' i) u" for u
      using that s' smb' by (cases r) (auto simp: reg' split: if_splits)
  qed (use s' locks_okD(6) [OF ok] in auto)
qed

lemma change_in_push:
  assumes ok: "locks_ok s" and k: "lk_tasks s i = Some (Task In_push (Act_topic ty t) r)"
    and s': "s' = (case ty of SUBSCRIBE \<Rightarrow> set_task i (Some (Task In_join (Act_topic SUBSCRIBE t) r)) (end_push Q SUBSCRIBE t s)
                   | UNSUBSCRIBE \<Rightarrow> unlock_symbol i t r (end_push Q UNSUBSCRIBE t s))"
  shows "session_change i s s' \<and> locks_ok s'"
proof
  from inside_symbol [OF ok k] have holds: "lk_symbol s t = Some (Held_by_session i)" "locks_of s i = {t}" by auto
  from locks_okD(1) [OF ok, of i] k have p: "lk_pushing s = Some i" by (simp add: view_def)
  note nonnull = end_push_nonnull [OF locks_okD(2) [OF ok]]
  show c: "session_change i s s'"
  proof (rule change_trans [OF change_push_end [OF locks_okD(2) [OF ok] p]])
    show "session_change i (end_push Q ty t s) s'"
      using s' change_unlock [OF nonnull] change_task [OF nonnull] holds(1) by (cases ty) auto
  qed simp
  have regs': "regs s' i = regs s i" and topics': "ws_topics (lk_state s') i = ws_topics (lk_state s) i"
    and reg': "registered (lk_state s') = registered (lk_state s)"
    using s' by (cases ty; auto simp: regs_def registered_def fun_eq_iff)+
  have locks': "locks_of s' i = (case ty of SUBSCRIBE \<Rightarrow> {t} | UNSUBSCRIBE \<Rightarrow> {})"
    using s' holds by (cases ty) (auto simp: locks_of_def)
  have "session_view_ok (known_topics (lk_state s)) (view s' i)"
    unfolding view_def regs' topics' locks'
    using locks_okD(1) [OF ok, of i] k s' by (cases ty) (auto simp: view_def session_view_ok_task_of)
  then show "locks_ok s'"
  proof (rule locks_ok_change [OF ok c])
    show "registered (lk_state s') u = {}" if "pushes (lk_tasks s' i) u" for u
      using that s' by (cases ty; cases r) auto
  qed (use s' locks_okD(6) [OF ok] in \<open>cases ty; simp\<close>)
qed

lemma change_in_join:
  assumes ok: "locks_ok s" and k: "lk_tasks s i = Some (Task In_join (Act_topic SUBSCRIBE t) r)"
    and smb: "symbols (lk_state s) t = Some (Some smb)" and s': "s' = unlock_symbol i t r (set_symbol t (symbol_join i smb) s)"
  shows "session_change i s s' \<and> locks_ok s'"
proof
  from inside_symbol [OF ok k] have holds: "lk_symbol s t = Some (Held_by_session i)" "locks_of s i = {t}" by auto
  have c1: "session_change i s (set_symbol t (symbol_join i smb) s)"
    using change_symbol [OF ok holds(1) smb] by (simp add: symbol_join_def)
  note nonnull = set_symbol_nonnull [OF locks_okD(2) [OF ok]]
  show c: "session_change i s s'"
    by (rule change_trans [OF c1]) (use s' change_unlock [OF nonnull] holds(1) in auto)
  have reg': "registered (lk_state s') u = (if u = t then insert i (registered (lk_state s) t) else registered (lk_state s) u)" for u
    using s' smb by (auto simp: registered_def symbol_join_def)
  have "locks_of s' i = locks_of s i - {t}" using s' by (auto simp: locks_of_def)
  then have locks': "locks_of s' i = {}" using holds(2) by simp
  have regs': "regs s' i = insert t (regs s i)" by (auto simp: regs_def reg')
  have topics': "ws_topics (lk_state s') = ws_topics (lk_state s)" using s' by simp
  from locks_okD(1) [OF ok, of i] k have old: "finite (ws_topics (lk_state s) i)" "i \<in> lk_alive s" "lk_mutex s \<noteq> Some i"
    "lk_pushing s \<noteq> Some i" "regs s i - {t} = ws_topics (lk_state s) i - {t}" "t \<in> ws_topics (lk_state s) i"
    "leaves_clean r (ws_topics (lk_state s) i)" by (auto simp: view_def)
  then have "insert t (regs s i) = ws_topics (lk_state s) i" by blast
  then have "session_view_ok (known_topics (lk_state s)) (view s' i)"
    unfolding view_def regs' topics' locks' using old(1-4,7) s' by (simp add: session_view_ok_task_of)
  then show "locks_ok s'"
  proof (rule locks_ok_change [OF ok c])
    show "registered (lk_state s') u = {}" if "pushes (lk_tasks s' i) u" for u
      using that s' by (cases r) auto
  qed (use s' locks_okD(6) [OF ok] in auto)
qed


text \<open>All steps of a session.\<close>

lemma task_step_cases [consumes 5, case_names locks_mutex leaves_mutex locks_symbol first_one more_join last_one more_leave push join]:
  assumes ok: "locks_ok s" and k: "lk_tasks s i = Some k" and step: "task_step Q i k s = Some s'"
    and fault: "lk_fault s = None" "lk_fault s' = None"
  obtains a r where "k = Task At_mutex a r" "lk_mutex s = None" "s' = set_task i (Some (Task In_mutex a r)) (s\<lparr>lk_mutex := Some i\<rparr>)"
    | a r where "k = Task In_mutex a r" "s' = (under_mutex i a r s)\<lparr>lk_mutex := None\<rparr>"
    | ty t r where "k = Task At_symbol (Act_topic ty t) r" "lk_symbol s t = None" "t \<in> known_topics (lk_state s)"
        "s' = set_task i (Some (Task In_symbol (Act_topic ty t) r)) (s\<lparr>lk_symbol := (lk_symbol s)(t \<mapsto> Held_by_session i)\<rparr>)"
    | t r smb where "k = Task In_symbol (Act_topic SUBSCRIBE t) r" "symbols (lk_state s) t = Some (Some smb)"
        "sym_sessions smb = {}" "lk_pushing s = None" "s' = set_task i (Some (Task In_push (Act_topic SUBSCRIBE t) r)) (s\<lparr>lk_pushing := Some i\<rparr>)"
    | t r smb where "k = Task In_symbol (Act_topic SUBSCRIBE t) r" "symbols (lk_state s) t = Some (Some smb)"
        "sym_sessions smb \<noteq> {}" "s' = set_task i (Some (Task In_join (Act_topic SUBSCRIBE t) r)) s"
    | t r smb smb' where "k = Task In_symbol (Act_topic UNSUBSCRIBE t) r" "symbols (lk_state s) t = Some (Some smb)"
        "smb' = smb\<lparr>sym_sessions := sym_sessions smb - {i}\<rparr>" "sym_sessions smb = {i}" "lk_pushing s = None"
        "s' = set_task i (Some (Task In_push (Act_topic UNSUBSCRIBE t) r)) ((set_symbol t smb' s)\<lparr>lk_pushing := Some i\<rparr>)"
    | t r smb smb' where "k = Task In_symbol (Act_topic UNSUBSCRIBE t) r" "symbols (lk_state s) t = Some (Some smb)"
        "smb' = smb\<lparr>sym_sessions := sym_sessions smb - {i}\<rparr>" "sym_sessions smb \<noteq> {i}" "s' = unlock_symbol i t r (set_symbol t smb' s)"
    | ty t r where "k = Task In_push (Act_topic ty t) r"
        "s' = (case ty of SUBSCRIBE \<Rightarrow> set_task i (Some (Task In_join (Act_topic SUBSCRIBE t) r)) (end_push Q SUBSCRIBE t s)
               | UNSUBSCRIBE \<Rightarrow> unlock_symbol i t r (end_push Q UNSUBSCRIBE t s))"
    | t r smb where "k = Task In_join (Act_topic SUBSCRIBE t) r" "symbols (lk_state s) t = Some (Some smb)"
        "s' = unlock_symbol i t r (set_symbol t (symbol_join i smb) s)"
proof (cases k)
  case (Task p a r)
  note k' = k [unfolded Task]
  consider (outer) "p = At_mutex" | (inner) "p = In_mutex" | (symbol) ty t where "a = Act_topic ty t" "p \<notin> {At_mutex, In_mutex}"
    | (none) "p \<notin> {At_mutex, In_mutex}" "\<forall>ty t. a \<noteq> Act_topic ty t"
    by (cases a) auto
  then show thesis
  proof cases
    case outer
    with step have "lk_mutex s = None" "s' = set_task i (Some (Task In_mutex a r)) (s\<lparr>lk_mutex := Some i\<rparr>)"
      by (simp_all add: Task split: if_splits)
    with outer show thesis by (intro that(1)) (simp_all add: Task)
  next
    case inner
    with step have "s' = (under_mutex i a r s)\<lparr>lk_mutex := None\<rparr>" by (simp add: Task)
    with inner show thesis by (intro that(2)) (simp_all add: Task)
  next
    case none
    with locks_okD(1) [OF ok, of i] k' show thesis by (cases a) (auto simp: view_def)
  next
    case (symbol ty t)
    note here = k' [unfolded symbol(1)]
    from locks_okD(2) [OF ok] show thesis
    proof (cases rule: symbol_at_cases [of _ t])
      case 1
      then have "p = At_symbol" using locks_okD(1) [OF ok, of i] here symbol(2) by (auto simp: view_def)
      with step 1 fault(2) show thesis by (auto simp: Task symbol(1))
    next
      case (2 smb)
      note at = 2(1)
      show thesis
      proof (cases p)
        case At_symbol
        with step at 2(3) that(3) [of ty t r] show thesis by (simp add: Task symbol(1) split: if_splits)
      next
        case In_symbol
        show thesis
        proof (cases ty)
          case SUBSCRIBE
          with step at In_symbol have "s' = (if sym_sessions smb = {} then start_push i SUBSCRIBE t r s
              else set_task i (Some (Task In_join (Act_topic SUBSCRIBE t) r)) s)" by (simp add: Task symbol(1))
          with start_push_free [OF fault(1), of i SUBSCRIBE t r] fault(2) that(4,5) [of t r smb] 2(2) In_symbol SUBSCRIBE
          show thesis by (cases "sym_sessions smb = {}") (simp_all add: Task symbol(1))
        next
          case UNSUBSCRIBE
          let ?smb = "smb\<lparr>sym_sessions := sym_sessions smb - {i}\<rparr>"
          have "i \<in> sym_sessions smb \<and> sym_sessions smb - {i} = {} \<longleftrightarrow> sym_sessions smb = {i}" by blast
          with step at In_symbol UNSUBSCRIBE have s': "s' = (if sym_sessions smb = {i} then start_push i UNSUBSCRIBE t r (set_symbol t ?smb s)
              else unlock_symbol i t r (set_symbol t ?smb s))" by (simp add: Task symbol(1) symbol_leave_def split: if_splits)
          have k: "k = Task In_symbol (Act_topic UNSUBSCRIBE t) r" by (simp add: Task symbol(1) In_symbol UNSUBSCRIBE)
          show thesis
          proof (cases "sym_sessions smb = {i}")
            case True
            with s' have "s' = start_push i UNSUBSCRIBE t r (set_symbol t ?smb s)" by simp
            with start_push_free [of "set_symbol t ?smb s" i UNSUBSCRIBE t r] fault that(6) [OF k 2(2) refl True] show thesis by simp
          next
            case False
            with s' that(7) [OF k 2(2) refl False] show thesis by simp
          qed
        qed
      next
        case In_push
        with step that(8) [of ty t r] show thesis by (cases ty) (simp_all add: Task symbol(1))
      next
        case In_join
        have ty: "ty = SUBSCRIBE" using locks_okD(1) [OF ok, of i] here In_join by (simp add: view_def)
        with step at 2(2) In_join that(9) [of t r smb] show thesis by (simp add: Task symbol(1))
      qed (use symbol(2) in simp_all)
    qed
  qed
qed

lemma task_step_change:
  assumes ok: "locks_ok s" and k: "lk_tasks s i = Some k" and step: "task_step Q i k s = Some s'"
    and fault: "lk_fault s = None" "lk_fault s' = None"
  shows "session_change i s s' \<and> locks_ok s'"
  using assms
proof (cases rule: task_step_cases)
  case (locks_mutex a r)
  with change_at_mutex [OF ok] k show ?thesis by blast
next
  case (leaves_mutex a r)
  with change_in_mutex [OF ok] k show ?thesis by blast
next
  case (locks_symbol ty t r)
  with change_at_symbol [OF ok] k show ?thesis by blast
next
  case (first_one t r smb)
  with change_in_symbol_subscribe [OF ok k [unfolded first_one(1)] _ first_one(2), of s'] show ?thesis by simp
next
  case (more_join t r smb)
  with change_in_symbol_subscribe [OF ok k [unfolded more_join(1)] _ more_join(2), of s'] show ?thesis by simp
next
  case (last_one t r smb smb')
  with change_in_symbol_unsubscribe [OF ok k [unfolded last_one(1)] last_one(2,3), of s'] show ?thesis by simp
next
  case (more_leave t r smb smb')
  have "\<not> (i \<in> sym_sessions smb \<and> sym_sessions smb' = {})" using more_leave(3,4) by auto
  with change_in_symbol_unsubscribe [OF ok k [unfolded more_leave(1)] more_leave(2,3), of s'] more_leave(5) show ?thesis by simp
next
  case (push ty t r)
  with change_in_push [OF ok k [unfolded push(1)]] show ?thesis by blast
next
  case (join t r smb)
  with change_in_join [OF ok k [unfolded join(1)]] show ?thesis by blast
qed

text \<open>The steps of the publisher, and those from outside.\<close>

lemma publisher_step_fields:
  assumes ok: "locks_ok s" and step: "publisher_step s = Some s'" and fault: "lk_fault s' = None"
  obtains t where "lk_publisher s = Pub_at t" "t \<in> known_topics (lk_state s)" "lk_symbol s t = None"
      "s' = s\<lparr>lk_symbol := (lk_symbol s)(t \<mapsto> Held_by_publisher), lk_publisher := Pub_in t\<rparr>"
    | t where "lk_publisher s = Pub_in t"
      "s' = s\<lparr>lk_copies := lk_copies s @ [(t, registered (lk_state s) t)], lk_symbol := (lk_symbol s)(t := None), lk_publisher := Pub_idle\<rparr>"
proof (cases "lk_publisher s")
  case Pub_idle
  with step show thesis by simp
next
  case (Pub_at t)
  from locks_okD(2) [OF ok] show thesis
  proof (cases rule: symbol_at_cases [of _ t])
    case 1
    with Pub_at step fault show thesis by auto
  next
    case (2 smb)
    with Pub_at step that(1) [of t] show thesis by (simp split: if_splits)
  qed
next
  case (Pub_in t)
  from locks_okD(2) [OF ok] show thesis
  proof (cases rule: symbol_at_cases [of _ t])
    case 1
    with locks_okD(4) [OF ok Pub_in] show thesis by blast
  next
    case (2 smb)
    with Pub_in step that(2) [of t] show thesis by simp
  qed
qed

lemma publisher_step_ok:
  assumes ok: "locks_ok s" and step: "publisher_step s = Some s'" and fault: "lk_fault s' = None"
  shows "locks_ok s'"
proof -
  have held: "lk_symbol s t = Some Held_by_publisher \<longleftrightarrow> lk_publisher s = Pub_in t" for t using locks_okD(3) [OF ok] .
  have views: "view s' i = view s i" for i
    using publisher_step_fields [OF ok step fault] by cases (auto simp: view_def regs_def locks_of_def held [symmetric])
  have same: "lk_state s' = lk_state s" "lk_tasks s' = lk_tasks s" "lk_alive s' = lk_alive s"
    using publisher_step_fields [OF ok step fault] by (cases; simp)+
  have "\<forall>t. (lk_symbol s' t = Some Held_by_publisher) = (lk_publisher s' = Pub_in t)"
    using publisher_step_fields [OF ok step fault]
  proof cases
    case (1 t)
    with held show ?thesis by (simp add: fun_upd_def)
  next
    case (2 t)
    with held show ?thesis by (simp add: fun_upd_def)
  qed
  moreover have "\<forall>t. lk_publisher s' = Pub_in t \<longrightarrow> t \<in> known_topics (lk_state s')"
    using publisher_step_fields [OF ok step fault] by cases simp_all
  ultimately show ?thesis using ok unfolding locks_ok_def same views by blast
qed


text \<open>Every step that ends in no fault keeps the invariant.\<close>

lemma view_state_queues:
  assumes "\<And>i. ws_topics st i = ws_topics (lk_state s) i" and "symbols st = symbols (lk_state s)"
  shows "view (s\<lparr>lk_state := st\<rparr>) i = view s i" "known_topics st = known_topics (lk_state s)" "registered st = registered (lk_state s)"
  using assms by (simp_all add: view_def regs_def locks_of_def known_topics_def registered_def fun_eq_iff)

lemma locks_ok_state:
  assumes "locks_ok s" and "\<And>i. ws_topics st i = ws_topics (lk_state s) i" and "symbols st = symbols (lk_state s)"
  shows "locks_ok (s\<lparr>lk_state := st\<rparr>)"
  using assms(1) assms(3) unfolding locks_ok_def by (simp add: view_state_queues [OF assms(2,3)])

lemma locks_ok_start:
  assumes ok: "locks_ok s" and "i \<in> lk_alive s" and "lk_tasks s i = None"
    and "leaves_clean as (ws_topics (lk_state s) i)"
  shows "locks_ok (set_task i (task_of as) s)"
proof (rule locks_ok_change [OF ok])
  show "session_change i s (set_task i (task_of as) s)" using locks_okD(2) [OF ok] by simp
  show "session_view_ok (known_topics (lk_state s)) (view (set_task i (task_of as) s) i)"
    using locks_okD(1) [OF ok, of i] assms(2-4) by (simp add: view_def regs_def locks_of_def session_view_ok_task_of)
  show "registered (lk_state (set_task i (task_of as) s)) t = {}" if "pushes (lk_tasks (set_task i (task_of as) s) i) t" for t
    using that by (cases as) auto
qed (simp add: locks_okD(6) [OF ok])

lemma leave_actions_clean:
  "finite (ws_topics st i) \<Longrightarrow> leaves_clean (leave_actions i st) (ws_topics st i)"
  by (auto simp: leaves_clean_def leave_actions_def intro!: exI [of _ "sorted_list_of_set (ws_topics st i)"])

lemma message_actions_clean: "leaves_clean (message_actions m) T"
  by (cases m rule: message_actions.cases) auto

lemma lock_move_ok:
  assumes "lock_move Q s s'" and "locks_ok s" and "lk_fault s = None" and "lk_fault s' = None"
  shows "locks_ok s'"
  using assms(1)
proof cases
  case (session_moves i k)
  with task_step_change [OF assms(2) session_moves assms(3,4)] show ?thesis by simp
next
  case publisher_moves
  then show ?thesis by (rule publisher_step_ok [OF assms(2) _ assms(4)])
qed

lemma lock_step_ok:
  assumes "lock_step Q P J split s s'" and ok: "locks_ok s" and "lk_fault s = None" and "lk_fault s' = None"
  shows "locks_ok s'"
  using assms(1)
proof cases
  case moves
  then show ?thesis by (rule lock_move_ok [OF _ assms(2-4)])
next
  case (session_created i)
  from locks_okD(1) [OF ok, of i] session_created(2) have "lk_tasks s i = None"
    by (cases "lk_tasks s i"; cases "the (lk_tasks s i)") (auto simp: view_def)
  then have "session_view_ok (known_topics (lk_state s)) (view s' j)" for j
    using locks_okD(1) [OF ok, of j] session_created(1) by (cases "j = i") (auto simp: view_def regs_def locks_of_def)
  then show ?thesis using ok session_created(1) by (simp add: locks_ok_def)
next
  case (session_accepted i)
  then show ?thesis using locks_ok_start [OF ok session_accepted(2,3), of "[Act_join]"] by simp
next
  case (message_read i msg)
  then show ?thesis using locks_ok_start [OF ok message_read(2,3) message_actions_clean] by simp
next
  case (session_destroyed i)
  from locks_okD(1) [OF ok, of i] session_destroyed(3) have "finite (ws_topics (lk_state s) i)" by (simp add: view_def)
  from locks_ok_start [OF ok session_destroyed(2,3) leave_actions_clean [OF this]] session_destroyed(1) show ?thesis by simp
next
  case (publisher_takes topic message q)
  from locks_okD(3) [OF ok] publisher_takes(2) have "\<forall>t. lk_symbol s t \<noteq> Some Held_by_publisher" by simp
  moreover have "locks_ok (s\<lparr>lk_state := (lk_state s)\<lparr>spsc_queue_publish := q\<rparr>\<rparr>)" by (rule locks_ok_state [OF ok]) simp_all
  ultimately show ?thesis unfolding publisher_takes(1) locks_ok_def by (simp add: view_def regs_def locks_of_def)
next
  case (subscriber_takes m q)
  then show ?thesis by (simp add: locks_ok_state [OF ok])
next
  case (message_arrives channel msg)
  then show ?thesis by (simp add: locks_ok_state [OF ok])
qed

lemma locks_ok_new:
  assumes "state_ok st" and "active_topics st = {}"
  shows "locks_ok (new_locked_state st)"
proof -
  have reg: "registered st t = {}" for t using assms(2) by (auto simp: active_topics_def)
  with assms(1) have "ws_topics st i = {}" for i by (auto simp: state_ok_def)
  with assms(1) reg show ?thesis
    by (simp add: locks_ok_def new_locked_state_def view_def regs_def locks_of_def state_ok_def)
qed

lemma lock_reaches_ok:
  "lock_reaches Q P J split s t \<Longrightarrow> locks_ok s \<Longrightarrow> lk_fault t = None \<Longrightarrow> locks_ok t"
  by (induction rule: lock_reaches.induct) (use lock_step_ok in blast)+

end
