(* ===== verification/Broker_Spec.thy ===== *)
theory Broker_Spec
  imports Symbols
begin

text \<open>
  What the web socket side of the server promises, without its queues, strands and pointers: a
  broker that keeps the topics of every session and one mailbox per connected session. A
  publication goes to the mailboxes of the connected sessions that have the topic; a delivery
  takes the oldest message of a mailbox. \<open>Web_Socket_Runs\<close> shows that the code refines it.
\<close>

section \<open>The broker\<close>

datatype event =
    Ev_open sid
  | Ev_subscribe sid string
  | Ev_unsubscribe sid string
  | Ev_arrive string string \<comment> \<open>a message of the outer source, which is published later\<close>
  | Ev_publish string string \<comment> \<open>topic, message\<close>
  | Ev_deliver sid string
  | Ev_gone sid \<comment> \<open>the connection has ended\<close>
  | Ev_leave sid string \<comment> \<open>and one of its subscriptions is removed\<close>
  | Ev_left sid \<comment> \<open>and none of them is left\<close>

record broker =
  br_topics :: "sid \<Rightarrow> string set"
  br_mailbox :: "sid \<Rightarrow> string list option"

definition empty_broker :: broker where
  "empty_broker = \<lparr>br_topics = (\<lambda>_. {}), br_mailbox = Map.empty\<rparr>"

text \<open>\<open>None\<close> is an event that the broker does not allow.\<close>

fun broker_step :: "event \<Rightarrow> broker \<Rightarrow> broker option" where
  "broker_step (Ev_open s) b =
     (if br_mailbox b s = None \<and> br_topics b s = {} then Some (b\<lparr>br_mailbox := (br_mailbox b)(s \<mapsto> [])\<rparr>) else None)"
| "broker_step (Ev_subscribe s t) b =
     (if br_mailbox b s = None then None
      else Some (b\<lparr>br_topics := (br_topics b)(s := insert t (br_topics b s))\<rparr>))"
| "broker_step (Ev_unsubscribe s t) b =
     (if br_mailbox b s = None then None
      else Some (b\<lparr>br_topics := (br_topics b)(s := br_topics b s - {t})\<rparr>))"
| "broker_step (Ev_arrive t m) b = Some b"
| "broker_step (Ev_publish t m) b =
     Some (b\<lparr>br_mailbox := (\<lambda>s. if t \<in> br_topics b s then map_option (\<lambda>q. q @ [m]) (br_mailbox b s) else br_mailbox b s)\<rparr>)"
| "broker_step (Ev_deliver s m) b =
     (case br_mailbox b s of
        Some (m' # q) \<Rightarrow> if m' = m then Some (b\<lparr>br_mailbox := (br_mailbox b)(s \<mapsto> q)\<rparr>) else None
      | _ \<Rightarrow> None)"
| "broker_step (Ev_gone s) b =
     (if br_mailbox b s = None then None else Some (b\<lparr>br_mailbox := (br_mailbox b)(s := None)\<rparr>))"
| "broker_step (Ev_leave s t) b =
     (if br_mailbox b s = None then Some (b\<lparr>br_topics := (br_topics b)(s := br_topics b s - {t})\<rparr>) else None)"
| "broker_step (Ev_left s) b = (if br_mailbox b s = None \<and> br_topics b s = {} then Some b else None)"

fun broker_run :: "event list \<Rightarrow> broker \<Rightarrow> broker option" where
  "broker_run [] b = Some b"
| "broker_run (e # es) b = Option.bind (broker_step e b) (broker_run es)"

lemma broker_run_append: "broker_run (es @ fs) b = Option.bind (broker_run es b) (broker_run fs)"
  by (induction es arbitrary: b) (auto split: bind_splits)

section \<open>What a session is owed\<close>

text \<open>
  The messages that a sequence of events addresses to a session that has the topics \<open>T\<close> at its
  start, the messages that arrive and those that are published, and the messages it delivers to a session.
\<close>

fun addressed :: "sid \<Rightarrow> event list \<Rightarrow> string set \<Rightarrow> string list" where
  "addressed s [] T = []"
| "addressed s (Ev_subscribe s' t # es) T = addressed s es (if s' = s then insert t T else T)"
| "addressed s (Ev_unsubscribe s' t # es) T = addressed s es (if s' = s then T - {t} else T)"
| "addressed s (Ev_publish t m # es) T = (if t \<in> T then m # addressed s es T else addressed s es T)"
| "addressed s (e # es) T = addressed s es T"

fun arrivals :: "event list \<Rightarrow> (string \<times> string) list" where
  "arrivals [] = []"
| "arrivals (Ev_arrive t m # es) = (t, m) # arrivals es"
| "arrivals (e # es) = arrivals es"

fun publications :: "event list \<Rightarrow> (string \<times> string) list" where
  "publications [] = []"
| "publications (Ev_publish t m # es) = (t, m) # publications es"
| "publications (e # es) = publications es"

lemma arrivals_append: "arrivals (es @ fs) = arrivals es @ arrivals fs"
  by (induction es rule: arrivals.induct) simp_all

lemma publications_append: "publications (es @ fs) = publications es @ publications fs"
  by (induction es rule: publications.induct) simp_all

fun deliveries :: "sid \<Rightarrow> event list \<Rightarrow> string list" where
  "deliveries s [] = []"
| "deliveries s (Ev_deliver s' m # es) = (if s' = s then m # deliveries s es else deliveries s es)"
| "deliveries s (e # es) = deliveries s es"

text \<open>As long as the session is connected, its mailbox is a queue of what it is owed.\<close>

lemma broker_step_mailbox:
  assumes "broker_step e b = Some b'" and "br_mailbox b s = Some q" and "e \<noteq> Ev_gone s"
  shows "\<exists>q'. br_mailbox b' s = Some q' \<and>
    q @ addressed s (e # es) (br_topics b s) = deliveries s [e] @ q' @ addressed s es (br_topics b' s)"
  using assms by (cases e) (auto split: if_splits option.splits list.splits)

lemma deliveries_Cons: "deliveries s (e # es) = deliveries s [e] @ deliveries s es"
  by (cases e) auto

lemma broker_fifo:
  assumes "broker_run es b = Some b'" and "br_mailbox b s = Some q" and "Ev_gone s \<notin> set es"
  shows "\<exists>q'. br_mailbox b' s = Some q' \<and> q @ addressed s es (br_topics b s) = deliveries s es @ q'"
  using assms
proof (induction es arbitrary: b q)
  case (Cons e es)
  from Cons.prems(1) obtain b1 where step: "broker_step e b = Some b1" and run: "broker_run es b1 = Some b'"
    by (auto split: bind_splits)
  from Cons.prems(3) have "e \<noteq> Ev_gone s" by auto
  from broker_step_mailbox [OF step Cons.prems(2) this] obtain q1 where
    q1: "br_mailbox b1 s = Some q1"
      "q @ addressed s (e # es) (br_topics b s) = deliveries s [e] @ q1 @ addressed s es (br_topics b1 s)" by blast
  from Cons.IH [OF run q1(1)] Cons.prems(3) q1(2) show ?case
    by (simp add: deliveries_Cons [of s e es])
qed simp

text \<open>A session that is not connected gets nothing.\<close>

lemma broker_delivers_connected: "broker_step (Ev_deliver s m) b = Some b' \<Longrightarrow> \<exists>q. br_mailbox b s = Some (m # q)"
  by (auto split: option.splits list.splits if_splits)

end
