(* ===== verification/Web_Socket_System.thy ===== *)
theory Web_Socket_System
  imports Publisher Locked_State Broker_Spec
begin

text \<open>
  The web socket side of the server as one system: any number of sessions
  (\<open>src/web/websocket_session.cpp\<close>) on the shared state (\<open>src/web/shared_state.cpp\<close>), the loop of
  the subscriber (\<open>src/web/subscriber.cpp\<close>) and the loop of the publisher
  (\<open>src/web/publisher.cpp\<close>). A session is the object behind a raw pointer: it lives while an operation or a
  running handler holds a shared pointer to it, then its destructor leaves the shared state, and in between
  the weak pointers to it have expired.

  Handlers run on several threads. The handler of a message and the destructor are cut into their rounds, one for
  each topic, which \<open>Locked_Refinement\<close> shows to be single steps; the publisher is cut after the pop, after
  the copy of the pointers, and after each session it sends to. The handlers of one session run one after the
  other, on its strand.
\<close>

section \<open>State and steps\<close>

text \<open>The publisher waits for a message, has taken one, or has sessions left to send it to.\<close>

datatype publisher_work = Pub_waits | Pub_taken string string | Pub_sends string "sid list"

record ('pq, 'sq, 'r) ws_system =
  sy_sub :: "('pq, 'sq, 'r) subscriber"
  sy_live :: "sid \<Rightarrow> ws_session option"
  sy_dying :: "sid set" \<comment> \<open>destructor running\<close>
  sy_work :: "sid \<Rightarrow> lock_action list option" \<comment> \<open>what is left of the handler of a message or of the destructor\<close>
  sy_pub :: publisher_work

definition sy_state :: "('pq, 'sq, 'r) ws_system \<Rightarrow> ('pq, 'sq) shared_state" where
  "sy_state c = sb_state (sy_sub c)"

definition set_state :: "('pq, 'sq) shared_state \<Rightarrow> ('pq, 'sq, 'r) ws_system \<Rightarrow> ('pq, 'sq, 'r) ws_system" where
  "set_state st c = c\<lparr>sy_sub := (sy_sub c)\<lparr>sb_state := st\<rparr>\<rparr>"

definition set_live :: "sid \<Rightarrow> ws_session \<Rightarrow> ('pq, 'sq, 'r) ws_system \<Rightarrow> ('pq, 'sq, 'r) ws_system" where
  "set_live s w c = c\<lparr>sy_live := (sy_live c)(s \<mapsto> w)\<rparr>"

definition set_work :: "sid \<Rightarrow> lock_action list option \<Rightarrow> ('pq, 'sq, 'r) ws_system \<Rightarrow> ('pq, 'sq, 'r) ws_system" where
  "set_work s k c = c\<lparr>sy_work := (sy_work c)(s := k)\<rparr>"

definition new_system :: "'r \<Rightarrow> ('pq, 'sq) shared_state \<Rightarrow> ('pq, 'sq, 'r) ws_system" where
  "new_system redis st =
     \<lparr>sy_sub = new_subscriber redis st, sy_live = Map.empty, sy_dying = {}, sy_work = Map.empty, sy_pub = Pub_waits\<rparr>"

text \<open>One round of the loops of the shared state, and what it means to an observer.\<close>

fun topic_round ::
    "('sq, MsgType \<times> string) spsc \<Rightarrow> sid \<Rightarrow> MsgType \<Rightarrow> string \<Rightarrow> (('pq, 'sq) shared_state, unit) io" where
  "topic_round Q s SUBSCRIBE t = subscribe_topic Q s t"
| "topic_round Q s UNSUBSCRIBE t = unsubscribe_topic Q s t"

definition round_event :: "('pq, 'sq, 'r) ws_system \<Rightarrow> sid \<Rightarrow> MsgType \<Rightarrow> string \<Rightarrow> event" where
  "round_event c s ty t =
     (if s \<in> sy_dying c then Ev_leave s t
      else case ty of SUBSCRIBE \<Rightarrow> Ev_subscribe s t | UNSUBSCRIBE \<Rightarrow> Ev_unsubscribe s t)"

text \<open>The session that the publisher has still to send its message to.\<close>

definition in_flight :: "('pq, 'sq, 'r) ws_system \<Rightarrow> sid \<Rightarrow> string list" where
  "in_flight c s = (case sy_pub c of Pub_sends m v \<Rightarrow> (if s \<in> set v then [m] else []) | _ \<Rightarrow> [])"

text \<open>The message that a round of the subscriber consumes and finds room for.\<close>

definition arrival_event ::
    "('pq, string \<times> string) spsc \<Rightarrow> 'r redis_sub \<Rightarrow> ('pq, 'sq, 'r) subscriber \<Rightarrow> event option" where
  "arrival_event P R s =
     (if topics_subscribed_count s = 0 then None
      else case fst (rsub_consume R (sub s)) of
             Inr (Some (channel, msg)) \<Rightarrow>
               (if fst (sp_push P (channel, msg) (spsc_queue_publish (sb_state s))) then Some (Ev_arrive channel msg) else None)
           | _ \<Rightarrow> None)"

text \<open>
  A step with the event that an observer of subscriptions, publications and deliveries sees. A step that
  brings the process down is no step. The memory of a session is not used again while the publisher
  holds a weak pointer to it, because \<open>make_shared\<close> puts the object and its counters into one block.
\<close>

inductive sys_step ::
    "(sid set \<Rightarrow> sid list) \<Rightarrow> ('sq, MsgType \<times> string) spsc \<Rightarrow> ('pq, string \<times> string) spsc \<Rightarrow> 'r redis_sub \<Rightarrow>
     'j json_lib \<Rightarrow> (string \<Rightarrow> string list) \<Rightarrow>
     ('pq, 'sq, 'r) ws_system \<Rightarrow> event option \<Rightarrow> ('pq, 'sq, 'r) ws_system \<Rightarrow> bool"
  for order Q P R J split where
  sys_open:
    "sy_live c s = None \<Longrightarrow> s \<notin> sy_dying c \<Longrightarrow> in_flight c s = [] \<Longrightarrow>
     sys_step order Q P R J split c (Some (Ev_open s))
       (set_live s (ws_run (new_websocket_session s))
         (set_state ((sy_state c)\<lparr>ws_topics := (ws_topics (sy_state c))(s := {})\<rparr>) c))"
| sys_accepted:
    "sy_live c s = Some w \<Longrightarrow> sy_work c s = None \<Longrightarrow> ws_ops w = xs @ Op_accept # ys \<Longrightarrow>
     ws_on_accept ec (w\<lparr>ws_ops := xs @ ys\<rparr>, sy_state c) = (w', st') \<Longrightarrow>
     sys_step order Q P R J split c None (set_live s w' (set_state st' c))"
| sys_read_failed:
    "sy_live c s = Some w \<Longrightarrow> sy_work c s = None \<Longrightarrow> ws_ops w = xs @ Op_read # ys \<Longrightarrow>
     ws_on_read Q J split (Inl ec) (w\<lparr>ws_ops := xs @ ys\<rparr>, sy_state c) = (Ret (), (w', st')) \<Longrightarrow>
     sys_step order Q P R J split c None (set_live s w' (set_state st' c))"
| sys_message:
    "sy_live c s = Some w \<Longrightarrow> sy_work c s = None \<Longrightarrow> ws_ops w = xs @ Op_read # ys \<Longrightarrow>
     sys_step order Q P R J split c None
       (set_work s (Some (message_actions (parse_message J split msg))) (set_live s (w\<lparr>ws_ops := xs @ ys\<rparr>) c))"
| sys_round:
    "sy_work c s = Some (Act_topic ty t # as) \<Longrightarrow> topic_round Q s ty t (sy_state c) = (Ret (), st') \<Longrightarrow>
     sys_step order Q P R J split c (Some (round_event c s ty t)) (set_work s (Some as) (set_state st' c))"
| sys_reads_on:
    "sy_live c s = Some w \<Longrightarrow> sy_work c s = Some [] \<Longrightarrow>
     sys_step order Q P R J split c None (set_work s None (set_live s (start_op Op_read w) c))"
| sys_posted:
    "sy_live c s = Some w \<Longrightarrow> sy_work c s = None \<Longrightarrow> ws_ops w = xs @ Op_post m # ys \<Longrightarrow> posted xs = [] \<Longrightarrow>
     sys_step order Q P R J split c None (set_live s (ws_on_send m (w\<lparr>ws_ops := xs @ ys\<rparr>)) c)"
| sys_written:
    "sy_live c s = Some w \<Longrightarrow> sy_work c s = None \<Longrightarrow> ws_ops w = xs @ Op_write m # ys \<Longrightarrow>
     sys_step order Q P R J split c (Some (Ev_deliver s m)) (set_live s (ws_on_write None (w\<lparr>ws_ops := xs @ ys\<rparr>)) c)"
| sys_write_failed:
    "sy_live c s = Some w \<Longrightarrow> sy_work c s = None \<Longrightarrow> ws_ops w = xs @ Op_write m # ys \<Longrightarrow>
     sys_step order Q P R J split c None (set_live s (ws_on_write (Some ec) (w\<lparr>ws_ops := xs @ ys\<rparr>)) c)"
| sys_gone:
    "sy_live c s = Some w \<Longrightarrow> sy_work c s = None \<Longrightarrow> ws_ops w = [] \<Longrightarrow>
     sys_step order Q P R J split c (Some (Ev_gone s))
       (set_work s (Some (leave_actions s (sy_state c)))
         (c\<lparr>sy_live := (sy_live c)(s := None), sy_dying := insert s (sy_dying c)\<rparr>))"
| sys_left:
    "s \<in> sy_dying c \<Longrightarrow> sy_work c s = Some [Act_erase] \<Longrightarrow>
     sys_step order Q P R J split c (Some (Ev_left s))
       (set_work s None
         ((set_state ((sy_state c)\<lparr>sessions := sessions (sy_state c) - {s}\<rparr>) c)\<lparr>sy_dying := sy_dying c - {s}\<rparr>))"
| sys_taken:
    "sy_pub c = Pub_waits \<Longrightarrow> sp_pop P (spsc_queue_publish (sy_state c)) = Some ((topic, m), q) \<Longrightarrow>
     sys_step order Q P R J split c None
       ((set_state ((sy_state c)\<lparr>spsc_queue_publish := q\<rparr>) c)\<lparr>sy_pub := Pub_taken topic m\<rparr>)"
| sys_copied:
    "sy_pub c = Pub_taken topic m \<Longrightarrow> symbol_at topic (sy_state c) = (Some smb, st') \<Longrightarrow>
     sys_step order Q P R J split c (Some (Ev_publish topic m))
       ((set_state st' c)\<lparr>sy_pub := Pub_sends m (order (sym_sessions smb))\<rparr>)"
| sys_sent:
    "sy_pub c = Pub_sends m (p # v) \<Longrightarrow>
     sys_step order Q P R J split c None (c\<lparr>sy_live := lock_and_send m p (sy_live c), sy_pub := Pub_sends m v\<rparr>)"
| sys_sent_all:
    "sy_pub c = Pub_sends m [] \<Longrightarrow> sys_step order Q P R J split c None (c\<lparr>sy_pub := Pub_waits\<rparr>)"
| sys_subscriber:
    "subscriber_iteration Q P R (sy_sub c) = (Ret (), sub') \<Longrightarrow>
     sys_step order Q P R J split c (arrival_event P R (sy_sub c)) (c\<lparr>sy_sub := sub'\<rparr>)"

inductive sys_run ::
    "(sid set \<Rightarrow> sid list) \<Rightarrow> ('sq, MsgType \<times> string) spsc \<Rightarrow> ('pq, string \<times> string) spsc \<Rightarrow> 'r redis_sub \<Rightarrow>
     'j json_lib \<Rightarrow> (string \<Rightarrow> string list) \<Rightarrow>
     ('pq, 'sq, 'r) ws_system \<Rightarrow> event list \<Rightarrow> ('pq, 'sq, 'r) ws_system \<Rightarrow> bool"
  for order Q P R J split where
  run_none: "sys_run order Q P R J split c [] c"
| run_step: "sys_run order Q P R J split c es d \<Longrightarrow> sys_step order Q P R J split d lab e \<Longrightarrow>
    sys_run order Q P R J split c (es @ (case lab of None \<Rightarrow> [] | Some l \<Rightarrow> [l])) e"

section \<open>Abstraction and invariant\<close>

text \<open>
  The mailbox of a session is its write queue followed by what is posted to its strand and by the message
  that the publisher has not sent to it yet.
\<close>

definition mailbox :: "ws_session \<Rightarrow> string list" where
  "mailbox w = ws_queue w @ posted (ws_ops w)"

definition sys_broker :: "('pq, 'sq, 'r) ws_system \<Rightarrow> broker" where
  "sys_broker c =
     \<lparr>br_topics = ws_topics (sy_state c), br_mailbox = (\<lambda>s. map_option (\<lambda>w. mailbox w @ in_flight c s) (sy_live c s))\<rparr>"

definition session_ok :: "sid \<Rightarrow> ws_session \<Rightarrow> bool" where
  "session_ok s w \<longleftrightarrow>
     ws_self w = s \<and> (writing (ws_ops w) = take 1 (ws_queue w) \<or> writing (ws_ops w) = [])"

text \<open>The sessions whose memory has not been freed.\<close>

definition allocated :: "('pq, 'sq, 'r) ws_system \<Rightarrow> sid set" where
  "allocated c = dom (sy_live c) \<union> sy_dying c"

text \<open>A destructor has the rounds left that its topics ask for; a handler of a message has rounds only.\<close>

fun work_ok :: "bool \<Rightarrow> bool \<Rightarrow> string set \<Rightarrow> lock_action list option \<Rightarrow> bool" where
  "work_ok live dying T None \<longleftrightarrow> \<not> dying"
| "work_ok live dying T (Some as) \<longleftrightarrow>
     (live \<or> dying) \<and> leaves_clean as T \<and> dying = (Act_erase \<in> set as) \<and> Act_join \<notin> set as"

definition sys_inv :: "('pq, 'sq, 'r) ws_system \<Rightarrow> bool" where
  "sys_inv c \<longleftrightarrow>
     state_ok (sy_state c) \<and> finite (allocated c) \<and> dom (sy_live c) \<inter> sy_dying c = {} \<and>
     (\<forall>s w. sy_live c s = Some w \<longrightarrow> session_ok s w) \<and>
     (\<forall>s. ws_topics (sy_state c) s \<noteq> {} \<longrightarrow> s \<in> allocated c) \<and>
     sessions (sy_state c) \<subseteq> allocated c \<and>
     (\<forall>s. work_ok (sy_live c s \<noteq> None) (s \<in> sy_dying c) (ws_topics (sy_state c) s) (sy_work c s)) \<and>
     (\<forall>m v. sy_pub c = Pub_sends m v \<longrightarrow> distinct v)"

lemma system_fields [simp]:
  "sy_state (set_state st c) = st" "sy_live (set_state st c) = sy_live c" "sy_dying (set_state st c) = sy_dying c"
  "sy_work (set_state st c) = sy_work c" "sy_pub (set_state st c) = sy_pub c"
  "sy_state (set_live s w c) = sy_state c" "sy_live (set_live s w c) = (sy_live c)(s \<mapsto> w)"
  "sy_dying (set_live s w c) = sy_dying c" "sy_work (set_live s w c) = sy_work c" "sy_pub (set_live s w c) = sy_pub c"
  "sy_state (set_work s k c) = sy_state c" "sy_live (set_work s k c) = sy_live c" "sy_dying (set_work s k c) = sy_dying c"
  "sy_work (set_work s k c) = (sy_work c)(s := k)" "sy_pub (set_work s k c) = sy_pub c"
  "sy_state (c\<lparr>sy_live := L\<rparr>) = sy_state c" "sy_state (c\<lparr>sy_dying := D\<rparr>) = sy_state c"
  "sy_state (c\<lparr>sy_pub := B\<rparr>) = sy_state c" "sy_state (c\<lparr>sy_sub := sub'\<rparr>) = sb_state sub'"
  "sy_state (new_system redis st) = st" "sy_live (new_system redis st) = Map.empty" "sy_dying (new_system redis st) = {}"
  "sy_work (new_system redis st) = Map.empty" "sy_pub (new_system redis st) = Pub_waits"
  by (simp_all add: sy_state_def set_state_def set_live_def set_work_def new_system_def new_subscriber_def)

lemma in_flight_fields [simp]:
  "in_flight (set_state st c) = in_flight c" "in_flight (set_live s w c) = in_flight c"
  "in_flight (set_work s k c) = in_flight c" "in_flight (c\<lparr>sy_live := L\<rparr>) = in_flight c"
  "in_flight (c\<lparr>sy_dying := D\<rparr>) = in_flight c" "in_flight (c\<lparr>sy_sub := sub'\<rparr>) = in_flight c"
  "in_flight (new_system redis st) s' = []"
  "in_flight (c\<lparr>sy_pub := Pub_waits\<rparr>) s' = []" "in_flight (c\<lparr>sy_pub := Pub_taken t m\<rparr>) s' = []"
  "in_flight (c\<lparr>sy_pub := Pub_sends m v\<rparr>) s' = (if s' \<in> set v then [m] else [])"
  by (simp_all add: in_flight_def fun_eq_iff)

lemma broker_fields [simp]:
  "br_topics (sys_broker c) = ws_topics (sy_state c)"
  "br_mailbox (sys_broker c) s = map_option (\<lambda>w. mailbox w @ in_flight c s) (sy_live c s)"
  by (simp_all add: sys_broker_def)

section \<open>The handlers of a session\<close>

lemma on_accept_effect:
  assumes "ws_on_accept ec (w, st) = (w', st')"
  shows "mailbox w' = mailbox w \<and> ws_queue w' = ws_queue w \<and> writing (ws_ops w') = writing (ws_ops w) \<and>
    ws_self w' = ws_self w \<and> (st' = st \<or> st' = shared_join (ws_self w) st)"
  using assms by (auto simp: ws_on_accept_def mailbox_def split: option.splits)

lemma shared_join_fields [simp]:
  "ws_topics (shared_join s st) = ws_topics st"
  "sessions (shared_join s st) = insert s (sessions st)"
  "state_ok (shared_join s st) = state_ok st"
  by (simp_all add: shared_join_def)

lemma on_send_effect:
  assumes "session_ok s w" and "ws_ops w = xs @ Op_post m # ys" and "posted xs = []"
  shows "session_ok s (ws_on_send m (w\<lparr>ws_ops := xs @ ys\<rparr>)) \<and> mailbox (ws_on_send m (w\<lparr>ws_ops := xs @ ys\<rparr>)) = mailbox w"
  using assms by (cases "ws_queue w") (auto simp: session_ok_def ws_on_send_def mailbox_def)

lemma on_write_effect:
  assumes "session_ok s w" and "ws_ops w = xs @ Op_write m # ys"
  shows "session_ok s (ws_on_write ec (w\<lparr>ws_ops := xs @ ys\<rparr>)) \<and>
    mailbox w = (if ec = None then m # mailbox (ws_on_write ec (w\<lparr>ws_ops := xs @ ys\<rparr>))
      else mailbox (ws_on_write ec (w\<lparr>ws_ops := xs @ ys\<rparr>)))"
proof -
  have "writing xs = [] \<and> writing ys = [] \<and> (\<exists>q'. ws_queue w = m # q')"
    using assms by (intro writing_one) (auto simp: session_ok_def)
  then obtain q' where q: "writing xs = []" "writing ys = []" "ws_queue w = m # q'" by blast
  show ?thesis
    using assms q by (cases ec; cases q') (auto simp: session_ok_def ws_on_write_def mailbox_def Let_def)
qed

lemma ws_send_effect:
  "mailbox (ws_send m w) = mailbox w @ [m]" "session_ok s (ws_send m w) = session_ok s w"
  by (auto simp: mailbox_def ws_send_def session_ok_def)

lemma subscriber_iteration_effect:
  assumes "subscriber_iteration Q P R s = (Ret (), s')"
  shows "symbols (sb_state s') = symbols (sb_state s) \<and> ws_topics (sb_state s') = ws_topics (sb_state s) \<and>
    sessions (sb_state s') = sessions (sb_state s)"
proof -
  define s1 where "s1 = subscriber_consume P R s"
  have kept: "symbols (sb_state s1) = symbols (sb_state s) \<and> ws_topics (sb_state s1) = ws_topics (sb_state s) \<and>
      sessions (sb_state s1) = sessions (sb_state s)"
    by (auto simp: s1_def subscriber_consume_def split: prod.splits sum.splits option.splits)
  show ?thesis
  proof (cases "sp_pop Q (spsc_queue_subscriber (sb_state s1))")
    case None
    with assms kept show ?thesis by (simp add: subscriber_iteration_def s1_def [symmetric])
  next
    case (Some a)
    obtain ty topic q where a: "a = ((ty, topic), q)" by (metis prod.exhaust)
    note round = assms [unfolded subscriber_iteration_def s1_def [symmetric] Let_def Some a option.case prod.case]
    have "sb_state s' = (sb_state s1)\<lparr>spsc_queue_subscriber := q\<rparr>"
    proof (cases ty)
      case SUBSCRIBE
      obtain e r where er: "rsub_subscribe R topic (sub s1) = (e, r)" by fastforce
      show ?thesis
      proof (cases e)
        case (Inl x)
        with round SUBSCRIBE er show ?thesis by simp
      next
        case (Inr x)
        with round SUBSCRIBE er have "s' = s1\<lparr>sb_state := (sb_state s1)\<lparr>spsc_queue_subscriber := q\<rparr>, sub := r,
            topics_subscribed_count := topics_subscribed_count s1 + 1\<rparr>" by simp
        then show ?thesis by simp
      qed
    next
      case UNSUBSCRIBE
      obtain e r where er: "rsub_unsubscribe R topic (sub s1) = (e, r)" by fastforce
      show ?thesis
      proof (cases e)
        case (Inl x)
        with round UNSUBSCRIBE er show ?thesis by simp
      next
        case (Inr x)
        with round UNSUBSCRIBE er have "s' = s1\<lparr>sb_state := (sb_state s1)\<lparr>spsc_queue_subscriber := q\<rparr>, sub := r,
            topics_subscribed_count := topics_subscribed_count s1 - 1\<rparr>" by simp
        then show ?thesis by simp
      qed
    qed
    with kept show ?thesis by simp
  qed
qed

lemma state_ok_cong:
  "symbols st' = symbols st \<Longrightarrow> ws_topics st' = ws_topics st \<Longrightarrow> state_ok st' = state_ok st"
  by (simp add: state_ok_def registered_def)

section \<open>Simulation\<close>

lemma allocated_fields [simp]:
  "allocated (set_state st c) = allocated c" "allocated (set_work s k c) = allocated c"
  "allocated (c\<lparr>sy_sub := sub'\<rparr>) = allocated c" "allocated (c\<lparr>sy_pub := B\<rparr>) = allocated c"
  "allocated (set_live s w c) = insert s (allocated c)"
  "allocated (new_system redis st) = {}"
  by (auto simp: allocated_def set_state_def set_live_def set_work_def new_system_def)

lemma live_session_ok: "sys_inv c \<Longrightarrow> sy_live c s = Some w \<Longrightarrow> session_ok s w"
  by (simp add: sys_inv_def)

lemma work_okD: "sys_inv c \<Longrightarrow> work_ok (sy_live c s \<noteq> None) (s \<in> sy_dying c) (ws_topics (sy_state c) s) (sy_work c s)"
  by (simp add: sys_inv_def)

lemma registered_allocated: "sys_inv c \<Longrightarrow> registered (sy_state c) t \<subseteq> allocated c"
proof
  fix s
  assume inv: "sys_inv c" and s: "s \<in> registered (sy_state c) t"
  from inv have "state_ok (sy_state c)" by (simp add: sys_inv_def)
  with s have "ws_topics (sy_state c) s \<noteq> {}" by (auto simp: state_ok_def)
  with inv show "s \<in> allocated c" by (simp add: sys_inv_def)
qed

text \<open>A handler of one session touches that session and its own topics only.\<close>

lemma handler_inv:
  assumes "sys_inv c" and "sy_live c s = Some w" and "session_ok s w'" and "state_ok st'"
    and "sessions st' \<subseteq> insert s (sessions (sy_state c))"
    and "\<And>s'. s' \<noteq> s \<Longrightarrow> ws_topics st' s' = ws_topics (sy_state c) s'"
    and "work_ok True False (ws_topics st' s) k"
  shows "sys_inv (set_work s k (set_live s w' (set_state st' c)))"
proof -
  have "s \<in> allocated c" using assms(2) by (auto simp: allocated_def)
  moreover have "s' \<in> allocated c" if "ws_topics st' s' \<noteq> {}" for s'
    using assms(1) assms(6) [of s'] that calculation by (cases "s' = s") (auto simp: sys_inv_def)
  moreover have "s \<notin> sy_dying c" using assms(1,2) by (auto simp: sys_inv_def)
  ultimately show ?thesis
    using assms by (auto simp: sys_inv_def insert_absorb)
qed

definition simulates ::
    "('pq, 'sq, 'r) ws_system \<Rightarrow> event option \<Rightarrow> ('pq, 'sq, 'r) ws_system \<Rightarrow> bool" where
  "simulates c lab d \<longleftrightarrow>
     sys_inv d \<and> (case lab of None \<Rightarrow> sys_broker d = sys_broker c | Some e \<Rightarrow> broker_step e (sys_broker c) = Some (sys_broker d))"

lemma state_ok_open: "state_ok st \<Longrightarrow> ws_topics st s = {} \<Longrightarrow> st\<lparr>ws_topics := (ws_topics st)(s := {})\<rparr> = st"
  by (metis fun_upd_triv shared_state.surjective shared_state.update_convs(8))

lemma simulates_open:
  assumes "sys_inv c" and "sy_live c s = None" and "s \<notin> sy_dying c" and "in_flight c s = []"
  shows "simulates c (Some (Ev_open s)) (set_live s (ws_run (new_websocket_session s))
    (set_state ((sy_state c)\<lparr>ws_topics := (ws_topics (sy_state c))(s := {})\<rparr>) c))"
proof -
  from assms have none: "ws_topics (sy_state c) s = {}" by (auto simp: sys_inv_def allocated_def)
  have same: "(sy_state c)\<lparr>ws_topics := (ws_topics (sy_state c))(s := {})\<rparr> = sy_state c"
    using assms(1) none by (intro state_ok_open) (simp_all add: sys_inv_def)
  have "session_ok s (ws_run (new_websocket_session s))" "mailbox (ws_run (new_websocket_session s)) = []"
    by (simp_all add: session_ok_def mailbox_def ws_run_def new_websocket_session_def)
  moreover have "sy_work c s = None" using work_okD [OF assms(1), of s] assms(2,3) by (cases "sy_work c s") simp_all
  ultimately show ?thesis
    using assms none unfolding simulates_def same
    by (auto simp: sys_inv_def fun_eq_iff sys_broker_def)
qed

text \<open>A handler that leaves the mailbox and the subscriptions alone.\<close>

lemma simulates_handler:
  assumes "sys_inv c" and "sy_live c s = Some w" and "session_ok s w'" and "state_ok st'"
    and "sessions st' \<subseteq> insert s (sessions (sy_state c))"
    and "mailbox w' = mailbox w" and "ws_topics st' = ws_topics (sy_state c)"
    and "work_ok True False (ws_topics st' s) k"
  shows "simulates c None (set_work s k (set_live s w' (set_state st' c)))"
proof -
  have "sys_inv (set_work s k (set_live s w' (set_state st' c)))"
    using assms(7) by (intro handler_inv [OF assms(1-5) _ assms(8)]) simp
  with assms(2,6,7) show ?thesis
    by (auto simp: simulates_def sys_broker_def fun_eq_iff)
qed

lemma set_work_state: "set_work s k (set_live s w c) = set_work s k (set_live s w (set_state (sy_state c) c))"
  by (simp add: set_live_def set_state_def sy_state_def)

lemma set_live_work: "sy_work c s = k \<Longrightarrow> set_live s w c = set_work s k (set_live s w c)"
  by (simp add: set_live_def set_work_def fun_upd_idem)

lemma simulates_idle:
  assumes "sys_inv c" and "sy_live c s = Some w" and "sy_work c s = None" and "session_ok s w'" and "state_ok st'"
    and "sessions st' \<subseteq> insert s (sessions (sy_state c))" and "mailbox w' = mailbox w" and "ws_topics st' = ws_topics (sy_state c)"
  shows "simulates c None (set_live s w' (set_state st' c))"
  using simulates_handler [OF assms(1,2,4-8), of None] set_live_work [of "set_state st' c" s None w'] assms(3) by simp

lemma simulates_accepted:
  assumes "sys_inv c" and "sy_live c s = Some w" and "sy_work c s = None" and "ws_ops w = xs @ Op_accept # ys"
    and "ws_on_accept ec (w\<lparr>ws_ops := xs @ ys\<rparr>, sy_state c) = (w', st')"
  shows "simulates c None (set_live s w' (set_state st' c))"
proof -
  from on_accept_effect [OF assms(5)] assms(4) live_session_ok [OF assms(1,2)] assms(1)
  show ?thesis
    by (intro simulates_idle [OF assms(1-3)]) (auto simp: session_ok_def mailbox_def sys_inv_def)
qed

lemma simulates_read_failed:
  assumes "sys_inv c" and "sy_live c s = Some w" and "sy_work c s = None" and "ws_ops w = xs @ Op_read # ys"
    and "ws_on_read Q J split (Inl ec) (w\<lparr>ws_ops := xs @ ys\<rparr>, sy_state c) = (Ret (), (w', st'))"
  shows "simulates c None (set_live s w' (set_state st' c))"
  using assms(4,5) live_session_ok [OF assms(1,2)] assms(1)
  by (intro simulates_idle [OF assms(1-3)]) (auto simp: ws_on_read_def session_ok_def mailbox_def sys_inv_def)

lemma message_actions_topics: "Act_erase \<notin> set (message_actions m)" "Act_join \<notin> set (message_actions m)"
  by (cases m rule: message_actions.cases; auto)+

lemma simulates_message:
  assumes "sys_inv c" and "sy_live c s = Some w" and "sy_work c s = None" and "ws_ops w = xs @ Op_read # ys"
  shows "simulates c None (set_work s (Some (message_actions m)) (set_live s (w\<lparr>ws_ops := xs @ ys\<rparr>) c))"
  using assms(4) live_session_ok [OF assms(1,2)] assms(1)
  by (subst set_work_state, intro simulates_handler [OF assms(1,2)])
    (auto simp: session_ok_def mailbox_def sys_inv_def message_actions_topics leaves_clean_def)

lemma simulates_reads_on:
  assumes "sys_inv c" and "sy_live c s = Some w" and "sy_work c s = Some []"
  shows "simulates c None (set_work s None (set_live s (start_op Op_read w) c))"
  using live_session_ok [OF assms(1,2)] assms(1)
  by (subst set_work_state, intro simulates_handler [OF assms(1,2)]) (auto simp: session_ok_def mailbox_def sys_inv_def)

lemma simulates_posted:
  assumes "sys_inv c" and "sy_live c s = Some w" and "sy_work c s = None" and "ws_ops w = xs @ Op_post m # ys" and "posted xs = []"
  shows "simulates c None (set_live s (ws_on_send m (w\<lparr>ws_ops := xs @ ys\<rparr>)) c)"
  using on_send_effect [OF live_session_ok [OF assms(1,2)] assms(4,5)] assms(1)
  by (subst set_live_work [OF assms(3)], subst set_work_state, intro simulates_handler [OF assms(1,2)]) (auto simp: sys_inv_def)

lemma simulates_write_failed:
  assumes "sys_inv c" and "sy_live c s = Some w" and "sy_work c s = None" and "ws_ops w = xs @ Op_write m # ys"
  shows "simulates c None (set_live s (ws_on_write (Some ec) (w\<lparr>ws_ops := xs @ ys\<rparr>)) c)"
  using on_write_effect [OF live_session_ok [OF assms(1,2)] assms(4), of "Some ec"] assms(1)
  by (subst set_live_work [OF assms(3)], subst set_work_state, intro simulates_handler [OF assms(1,2)]) (auto simp: sys_inv_def)

lemma simulates_written:
  assumes "sys_inv c" and "sy_live c s = Some w" and "sy_work c s = None" and "ws_ops w = xs @ Op_write m # ys"
  shows "simulates c (Some (Ev_deliver s m)) (set_live s (ws_on_write None (w\<lparr>ws_ops := xs @ ys\<rparr>)) c)"
proof -
  let ?w = "ws_on_write None (w\<lparr>ws_ops := xs @ ys\<rparr>)"
  from on_write_effect [OF live_session_ok [OF assms(1,2)] assms(4), of None]
  have w: "session_ok s ?w" "mailbox w = m # mailbox ?w" by simp_all
  have "sys_inv (set_work s None (set_live s ?w (set_state (sy_state c) c)))"
    using w assms(1) by (intro handler_inv [OF assms(1,2)]) (auto simp: sys_inv_def)
  with w assms(2) show ?thesis
    by (subst set_live_work [OF assms(3)], subst set_work_state) (auto simp: simulates_def sys_broker_def fun_eq_iff)
qed

text \<open>A round changes the subscriptions as its event says.\<close>

lemma topic_round_effect:
  assumes "topic_round Q s ty t st = (Ret (), st')" and "state_ok st"
  shows "state_ok st' \<and> known_topics st' = known_topics st \<and> t \<in> known_topics st \<and> sessions st' = sessions st \<and>
    ws_topics st' = (ws_topics st)(s := (case ty of SUBSCRIBE \<Rightarrow> insert t (ws_topics st s) | UNSUBSCRIBE \<Rightarrow> ws_topics st s - {t}))"
proof (cases ty)
  case SUBSCRIBE
  with assms have "subscribe_topic Q s t st = (Ret (), st')" by simp
  moreover from this subscribe_topic_unknown [of t st Q s] have "t \<in> known_topics st" by fastforce
  ultimately show ?thesis
    using subscribe_topic_ok [OF assms(2)] subscribe_topic_known [of t st Q s] by (auto simp: SUBSCRIBE)
next
  case UNSUBSCRIBE
  with assms have "unsubscribe_topic Q s t st = (Ret (), st')" by simp
  moreover from this unsubscribe_topic_unknown [of t st Q s] have "t \<in> known_topics st" by fastforce
  ultimately show ?thesis
    using unsubscribe_topic_ok [OF assms(2)] unsubscribe_topic_known [of t st Q s] by (auto simp: UNSUBSCRIBE)
qed

lemma leaving_round:
  assumes "leaves_clean (Act_topic ty t # as) T" and "Act_erase \<in> set as"
  shows "ty = UNSUBSCRIBE \<and> leaves_clean as (T - {t})"
proof -
  from assms obtain ts where ts: "Act_topic ty t # as = map (Act_topic UNSUBSCRIBE) ts @ [Act_erase]" "T \<subseteq> set ts"
    by (auto simp: leaves_clean_def)
  then obtain u us where "ts = u # us" by (cases ts) auto
  with ts show ?thesis by (auto simp: leaves_clean_def intro!: exI [of _ us])
qed

lemma simulates_round:
  assumes "sys_inv c" and "sy_work c s = Some (Act_topic ty t # as)" and "topic_round Q s ty t (sy_state c) = (Ret (), st')"
  shows "simulates c (Some (round_event c s ty t)) (set_work s (Some as) (set_state st' c))"
proof -
  have "state_ok (sy_state c)" using assms(1) by (simp add: sys_inv_def)
  note st' = topic_round_effect [OF assms(3) this]
  from work_okD [OF assms(1), of s] assms(2) have work: "sy_live c s \<noteq> None \<or> s \<in> sy_dying c"
    "leaves_clean (Act_topic ty t # as) (ws_topics (sy_state c) s)" "s \<in> sy_dying c \<longleftrightarrow> Act_erase \<in> set as" "Act_join \<notin> set as" by auto
  have not_live: "s \<in> sy_dying c \<Longrightarrow> sy_live c s = None" using assms(1) by (auto simp: sys_inv_def)
  have leaving: "ty = UNSUBSCRIBE \<and> leaves_clean as (ws_topics (sy_state c) s - {t})" if "s \<in> sy_dying c"
    using leaving_round [OF work(2)] work(3) that by simp
  have "leaves_clean as (ws_topics st' s)"
  proof (cases "s \<in> sy_dying c")
    case True
    with leaving st' show ?thesis by simp
  next
    case False
    with work(3) show ?thesis by (simp add: leaves_clean_def)
  qed
  moreover have "s \<in> allocated c" using work(1) by (auto simp: allocated_def)
  ultimately have "sys_inv (set_work s (Some as) (set_state st' c))"
    using assms(1) st' work by (auto simp: sys_inv_def)
  then show ?thesis
    using st' work(1) not_live leaving
    by (cases "s \<in> sy_dying c"; cases ty) (auto simp: simulates_def sys_broker_def round_event_def)
qed

lemma simulates_gone:
  assumes "sys_inv c" and "sy_live c s = Some w" and "sy_work c s = None"
  shows "simulates c (Some (Ev_gone s)) (set_work s (Some (leave_actions s (sy_state c)))
    (c\<lparr>sy_live := (sy_live c)(s := None), sy_dying := insert s (sy_dying c)\<rparr>))"
proof -
  let ?d = "c\<lparr>sy_live := (sy_live c)(s := None), sy_dying := insert s (sy_dying c)\<rparr>"
  have "finite (ws_topics (sy_state c) s)" using assms(1) by (simp add: sys_inv_def state_ok_def)
  then have "work_ok False True (ws_topics (sy_state c) s) (Some (leave_actions s (sy_state c)))"
    using leave_actions_clean by (auto simp: leave_actions_def)
  moreover have "allocated ?d = allocated c" using assms(2) by (auto simp: allocated_def)
  ultimately show ?thesis using assms
    by (auto simp: simulates_def sys_inv_def sys_broker_def fun_eq_iff)
qed

lemma simulates_left:
  assumes "sys_inv c" and "s \<in> sy_dying c" and "sy_work c s = Some [Act_erase]"
  shows "simulates c (Some (Ev_left s)) (set_work s None
    ((set_state ((sy_state c)\<lparr>sessions := sessions (sy_state c) - {s}\<rparr>) c)\<lparr>sy_dying := sy_dying c - {s}\<rparr>))"
proof -
  let ?d = "(set_state ((sy_state c)\<lparr>sessions := sessions (sy_state c) - {s}\<rparr>) c)\<lparr>sy_dying := sy_dying c - {s}\<rparr>"
  have none: "ws_topics (sy_state c) s = {}"
    using work_okD [OF assms(1), of s] assms(3) by (auto simp: leaves_clean_def)
  have not_live: "sy_live c s = None" using assms(1,2) by (auto simp: sys_inv_def)
  have "allocated ?d = allocated c - {s}" using not_live by (auto simp: allocated_def)
  with assms(1) not_live none show ?thesis
    by (auto simp: simulates_def sys_inv_def sys_broker_def)
qed

section \<open>Simulation: the loops\<close>

lemma simulates_taken:
  assumes "sys_inv c" and "sy_pub c = Pub_waits"
  shows "simulates c None ((set_state ((sy_state c)\<lparr>spsc_queue_publish := q\<rparr>) c)\<lparr>sy_pub := Pub_taken topic m\<rparr>)"
proof -
  have "state_ok ((sy_state c)\<lparr>spsc_queue_publish := q\<rparr>) = state_ok (sy_state c)" by (rule state_ok_cong) simp_all
  moreover have "in_flight c s = []" for s using assms(2) by (simp add: in_flight_def)
  ultimately show ?thesis using assms(1) by (simp add: simulates_def sys_inv_def sys_broker_def)
qed

lemma simulates_copied:
  assumes order: "traversal order" and "sys_inv c" and "sy_pub c = Pub_taken topic m"
    and "symbol_at topic (sy_state c) = (Some smb, st')"
  shows "simulates c (Some (Ev_publish topic m)) ((set_state st' c)\<lparr>sy_pub := Pub_sends m (order (sym_sessions smb))\<rparr>)"
proof -
  have known: "topic \<in> known_topics (sy_state c)"
    using symbol_at_unknown [of topic "sy_state c"] assms(4) by (metis fst_conv option.distinct(1))
  from symbol_at_registered [OF this] assms(4) have smb: "st' = sy_state c" "sym_sessions smb = registered (sy_state c) topic"
    by auto
  have "finite (registered (sy_state c) topic)"
    using registered_allocated [OF assms(2)] assms(2) by (auto simp: sys_inv_def intro: finite_subset)
  with order have v: "distinct (order (sym_sessions smb))" "set (order (sym_sessions smb)) = {s. topic \<in> ws_topics (sy_state c) s}"
    using assms(2) by (auto simp: traversal_def sys_inv_def state_ok_def smb(2))
  have "in_flight c s = []" for s using assms(3) by (simp add: in_flight_def)
  with v assms(2) show ?thesis
    unfolding smb(1) by (auto simp: simulates_def sys_inv_def sys_broker_def fun_eq_iff option.map_comp comp_def)
qed

lemma simulates_sent:
  assumes "sys_inv c" and "sy_pub c = Pub_sends m (p # v)"
  shows "simulates c None (c\<lparr>sy_live := lock_and_send m p (sy_live c), sy_pub := Pub_sends m v\<rparr>)"
proof -
  let ?L = "lock_and_send m p (sy_live c)"
  have p: "p \<notin> set v" "distinct v" using assms by (auto simp: sys_inv_def)
  have dom: "dom ?L = dom (sy_live c)" "\<And>s. (?L s = None) = (sy_live c s = None)"
    by (auto simp: lock_and_send_apply dom_def split: if_splits)
  then have "allocated (c\<lparr>sy_live := ?L, sy_pub := Pub_sends m v\<rparr>) = allocated c" by (simp add: allocated_def)
  moreover have "session_ok s w" if "?L s = Some w" for s w
    using that assms(1) by (auto simp: lock_and_send_apply sys_inv_def ws_send_effect split: if_splits)
  ultimately have inv: "sys_inv (c\<lparr>sy_live := ?L, sy_pub := Pub_sends m v\<rparr>)"
    using assms(1) dom p(2) by (simp add: sys_inv_def)
  have box: "map_option (\<lambda>w. mailbox w @ (if s \<in> set v then [m] else [])) (?L s) =
      map_option (\<lambda>w. mailbox w @ in_flight c s) (sy_live c s)" for s
    using assms(2) p(1) by (cases "s = p"; cases "sy_live c s") (simp_all add: lock_and_send_apply in_flight_def ws_send_effect)
  show ?thesis using inv by (simp add: simulates_def sys_broker_def box)
qed

lemma simulates_sent_all:
  assumes "sys_inv c" and "sy_pub c = Pub_sends m []"
  shows "simulates c None (c\<lparr>sy_pub := Pub_waits\<rparr>)"
proof -
  have "in_flight c s = []" for s using assms(2) by (simp add: in_flight_def)
  with assms(1) show ?thesis by (simp add: simulates_def sys_inv_def sys_broker_def allocated_def)
qed

lemma simulates_subscriber:
  assumes "sys_inv c" and "subscriber_iteration Q P R (sy_sub c) = (Ret (), sub')"
  shows "simulates c (arrival_event P R (sy_sub c)) (c\<lparr>sy_sub := sub'\<rparr>)"
proof -
  from subscriber_iteration_effect [OF assms(2)]
  have same: "symbols (sb_state sub') = symbols (sy_state c)" "ws_topics (sb_state sub') = ws_topics (sy_state c)"
      "sessions (sb_state sub') = sessions (sy_state c)" by (simp_all add: sy_state_def)
  have "arrival_event P R (sy_sub c) = None \<or> (\<exists>t m. arrival_event P R (sy_sub c) = Some (Ev_arrive t m))"
    by (auto simp: arrival_event_def split: sum.split option.split)
  with state_ok_cong [OF same(1,2)] same assms(1) show ?thesis
    by (auto simp: simulates_def sys_inv_def sys_broker_def)
qed

lemma sys_step_simulates:
  assumes "traversal order"
  shows "sys_step order Q P R J split c lab d \<Longrightarrow> sys_inv c \<Longrightarrow> simulates c lab d"
  by (erule sys_step.cases)
    (simp_all add: simulates_open simulates_accepted simulates_read_failed simulates_message simulates_round simulates_reads_on
      simulates_posted simulates_written simulates_write_failed simulates_gone simulates_left simulates_taken
      simulates_copied [OF assms] simulates_sent simulates_sent_all simulates_subscriber)

lemma sys_run_simulates:
  assumes "traversal order"
  shows "sys_run order Q P R J split c es d \<Longrightarrow> sys_inv c \<Longrightarrow>
    sys_inv d \<and> broker_run es (sys_broker c) = Some (sys_broker d)"
proof (induction rule: sys_run.induct)
  case (run_step c es d lab e)
  then have "sys_inv d" and run: "broker_run es (sys_broker c) = Some (sys_broker d)" by auto
  from sys_step_simulates [OF assms run_step.hyps(2) this(1)] run show ?case
    by (cases lab) (auto simp: simulates_def broker_run_append)
qed simp

lemma sys_inv_new: "state_ok st \<Longrightarrow> ws_topics st = (\<lambda>_. {}) \<Longrightarrow> sessions st = {} \<Longrightarrow> sys_inv (new_system redis st)"
  by (simp add: sys_inv_def)


end
