(* ===== verification/Web_Socket_Runs.thy ===== *)
theory Web_Socket_Runs
  imports Web_Socket_System
begin

text \<open>
  Runs of the web socket system: the handlers of the components when nothing comes between their rounds,
  the delivery of what waits, and the properties of all runs.
\<close>

section \<open>Handlers in a row\<close>

lemma sys_run_more:
  "sys_run order Q P R J split d fs e \<Longrightarrow> sys_run order Q P R J split c es d \<Longrightarrow> sys_run order Q P R J split c (es @ fs) e"
proof (induction rule: sys_run.induct)
  case (run_step d fs e lab f)
  from sys_run.run_step [OF run_step.IH [OF run_step.prems] run_step.hyps(2)] show ?case by simp
qed simp

lemma sys_run_trans:
  "sys_run order Q P R J split c es d \<Longrightarrow> sys_run order Q P R J split d fs e \<Longrightarrow> sys_run order Q P R J split c (es @ fs) e"
  by (rule sys_run_more)

lemma sys_run_one: "sys_step order Q P R J split c lab d \<Longrightarrow> sys_run order Q P R J split c (case lab of None \<Rightarrow> [] | Some l \<Rightarrow> [l]) d"
  using run_step [OF run_none] by fastforce

lemmas sys_run_silent = sys_run_one [of _ _ _ _ _ _ _ None, simplified]
lemmas sys_run_event = sys_run_one [of _ _ _ _ _ _ _ "Some l" for l, simplified]

lemma set_twice [simp]:
  "set_state st (set_state st' c) = set_state st c" "set_work s k (set_work s k' c) = set_work s k c"
  "set_state st (set_work s k c) = set_work s k (set_state st c)" "set_state st (set_live s w c) = set_live s w (set_state st c)"
  "set_live s w (set_live s w' c) = set_live s w c" "set_live s w (set_work s' k c) = set_work s' k (set_live s w c)"
  by (simp_all add: set_state_def set_work_def set_live_def)

lemma set_work_same: "sy_work c s = k \<Longrightarrow> set_work s k c = c"
  by (simp add: set_work_def fun_upd_idem)

fun topic_rounds ::
    "('sq, MsgType \<times> string) spsc \<Rightarrow> sid \<Rightarrow> MsgType \<Rightarrow> string list \<Rightarrow> (('pq, 'sq) shared_state, unit) io" where
  "topic_rounds Q s SUBSCRIBE ts = websocket_subscribe_to_symbols Q s ts"
| "topic_rounds Q s UNSUBSCRIBE ts = websocket_unsubscribe_to_symbols Q s ts"

lemma topic_rounds_simps:
  "topic_rounds Q s ty [] = io_return ()"
  "topic_rounds Q s ty (t # ts) = io_seq (topic_round Q s ty t) (topic_rounds Q s ty ts)"
  by (cases ty; simp)+

lemma rounds_run:
  "sy_work c s = Some (map (Act_topic ty) ts @ as) \<Longrightarrow> topic_rounds Q s ty ts (sy_state c) = (Ret (), st') \<Longrightarrow>
   sys_run order Q P R J split c (map (round_event c s ty) ts) (set_work s (Some as) (set_state st' c))"
proof (induction ts arbitrary: c)
  case Nil
  then have "set_work s (Some as) (set_state st' c) = c"
    by (simp add: topic_rounds_simps io_return_apply set_work_same set_state_def sy_state_def)
  then show ?case by (simp add: run_none)
next
  case (Cons t ts)
  from Cons.prems(2) obtain st1 where one: "topic_round Q s ty t (sy_state c) = (Ret (), st1)"
    and rest: "topic_rounds Q s ty ts st1 = (Ret (), st')"
    by (auto simp only: topic_rounds_simps io_seq_unit_Ret)
  let ?d = "set_work s (Some (map (Act_topic ty) ts @ as)) (set_state st1 c)"
  have "sys_step order Q P R J split c (Some (round_event c s ty t)) ?d"
    by (rule sys_round [OF _ one]) (simp add: Cons.prems(1))
  moreover have "sys_run order Q P R J split ?d (map (round_event c s ty) ts) (set_work s (Some as) (set_state st' c))"
    using Cons.IH [of ?d] rest by (simp add: round_event_def [abs_def])
  ultimately show ?case using sys_run_trans [OF sys_run_event] by fastforce
qed

text \<open>The handler of a message, the destructor and a round of the publisher, when nothing comes between their steps.\<close>

lemma message_handled:
  assumes "sy_live c s = Some w" and "sy_work c s = None" and "ws_ops w = xs @ Op_read # ys" and "ws_self w = s" and "s \<notin> sy_dying c"
    and "ws_on_read Q J split (Inr msg) (w\<lparr>ws_ops := xs @ ys\<rparr>, sy_state c) = (Ret (), (w', st'))"
  shows "sys_run order Q P R J split c
    (case parse_message J split msg of Inr (Some (ty, ts)) \<Rightarrow> map (round_event c s ty) ts | _ \<Rightarrow> []) (set_live s w' (set_state st' c))"
proof -
  let ?w = "w\<lparr>ws_ops := xs @ ys\<rparr>"
  let ?acts = "message_actions (parse_message J split msg)"
  let ?c = "set_work s (Some ?acts) (set_live s ?w c)"
  from assms(6) have parse: "shared_parse Q J split msg s (sy_state c) = (Ret (), st')" and w': "w' = start_op Op_read ?w"
    by (auto simp: ws_on_read_def assms(4) split: prod.splits outcome.splits)
  have "sys_step order Q P R J split c None ?c" by (rule sys_message [OF assms(1-3)])
  moreover have "sys_run order Q P R J split ?c
      (case parse_message J split msg of Inr (Some (ty, ts)) \<Rightarrow> map (round_event c s ty) ts | _ \<Rightarrow> []) (set_work s (Some []) (set_state st' ?c))"
  proof (cases "parse_message J split msg" rule: message_actions.cases)
    case (1 ty ts)
    with parse have "topic_rounds Q s ty ts (sy_state c) = (Ret (), st')" by (cases ty) (simp_all add: shared_parse_def)
    with 1 show ?thesis using rounds_run [of ?c s ty ts "[]" Q st'] by (simp add: round_event_def [abs_def])
  qed (use parse in \<open>auto simp: shared_parse_def io_return_apply set_state_def sy_state_def set_work_def set_live_def intro: run_none\<close>)
  moreover have "sys_step order Q P R J split (set_work s (Some []) (set_state st' ?c)) None (set_work s None (set_live s w' (set_work s (Some []) (set_state st' ?c))))"
    unfolding w' by (rule sys_reads_on) simp_all
  moreover have "set_work s None (set_live s w' (set_work s (Some []) (set_state st' ?c))) = set_live s w' (set_state st' c)"
    using assms(2) by (simp add: set_work_same)
  ultimately show ?thesis
    using sys_run_trans [OF sys_run_silent sys_run_trans [OF _ sys_run_silent]] by fastforce
qed

lemma session_destroyed_left:
  assumes "sy_live c s = Some w" and "sy_work c s = None" and "ws_ops w = []" and "s \<notin> sy_dying c"
    and "shared_leave Q s (sy_state c) = (Ret (), st')"
  shows "sys_run order Q P R J split c (Ev_gone s # map (Ev_leave s) (sorted_list_of_set (ws_topics (sy_state c) s)) @ [Ev_left s])
    ((set_state st' c)\<lparr>sy_live := (sy_live c)(s := None)\<rparr>)"
proof -
  let ?ts = "sorted_list_of_set (ws_topics (sy_state c) s)"
  let ?c1 = "set_work s (Some (leave_actions s (sy_state c))) (c\<lparr>sy_live := (sy_live c)(s := None), sy_dying := insert s (sy_dying c)\<rparr>)"
  from assms(5) obtain st1 where st1: "topic_rounds Q s UNSUBSCRIBE ?ts (sy_state c) = (Ret (), st1)"
    and st': "st' = st1\<lparr>sessions := sessions st1 - {s}\<rparr>" by (auto simp: shared_leave_def io_seq_unit_Ret)
  let ?c2 = "set_work s (Some [Act_erase]) (set_state st1 ?c1)"
  let ?c3 = "set_work s None ((set_state ((sy_state ?c2)\<lparr>sessions := sessions (sy_state ?c2) - {s}\<rparr>) ?c2)\<lparr>sy_dying := sy_dying ?c2 - {s}\<rparr>)"
  have "sys_run order Q P R J split c [Ev_gone s] ?c1" by (rule sys_run_event [OF sys_gone [OF assms(1-3)]])
  moreover have "sys_run order Q P R J split ?c1 (map (Ev_leave s) ?ts) ?c2"
    using rounds_run [of ?c1 s UNSUBSCRIBE ?ts "[Act_erase]" Q st1] st1
    by (simp add: leave_actions_def round_event_def [abs_def])
  moreover have "sys_run order Q P R J split ?c2 [Ev_left s] ?c3"
    by (rule sys_run_event [OF sys_left]) simp_all
  moreover have "?c3 = (set_state st' c)\<lparr>sy_live := (sy_live c)(s := None)\<rparr>"
    using assms(2,4) by (simp add: st' set_state_def set_work_def sy_state_def fun_upd_idem)
  ultimately show ?thesis
    using sys_run_trans [OF sys_run_trans] by fastforce
qed

text \<open>The publisher sends what it has copied.\<close>

lemma publisher_sends:
  "sy_pub c = Pub_sends m v \<Longrightarrow>
   sys_run order Q P R J split c [] (c\<lparr>sy_live := fold (lock_and_send m) v (sy_live c), sy_pub := Pub_waits\<rparr>)"
proof (induction v arbitrary: c)
  case Nil
  from sys_run_silent [OF sys_sent_all [OF Nil]] show ?case by simp
next
  case (Cons p v)
  let ?d = "c\<lparr>sy_live := lock_and_send m p (sy_live c), sy_pub := Pub_sends m v\<rparr>"
  from sys_run_trans [OF sys_run_silent [OF sys_sent [OF Cons.prems]] Cons.IH [of ?d]] show ?case by simp
qed

lemma message_published:
  assumes "sy_pub c = Pub_waits" and "sp_pop P (spsc_queue_publish (sy_state c)) = Some ((topic, m), q)"
    and "publish_message order (topic, m) \<lparr>pb_state = (sy_state c)\<lparr>spsc_queue_publish := q\<rparr>, pb_sessions = sy_live c\<rparr> = (Ret (), p)"
  shows "sys_run order Q P R J split c [Ev_publish topic m] ((set_state (pb_state p) c)\<lparr>sy_live := pb_sessions p\<rparr>)"
proof -
  let ?st = "(sy_state c)\<lparr>spsc_queue_publish := q\<rparr>"
  let ?c1 = "(set_state ?st c)\<lparr>sy_pub := Pub_taken topic m\<rparr>"
  from assms(3) obtain smb st' where smb: "symbol_at topic ?st = (Some smb, st')"
    and p: "pb_state p = st'" "pb_sessions p = fold (lock_and_send m) (order (sym_sessions smb)) (sy_live c)"
    by (auto simp: publish_message_def split: prod.splits option.splits)
  let ?c2 = "(set_state st' ?c1)\<lparr>sy_pub := Pub_sends m (order (sym_sessions smb))\<rparr>"
  have "sys_run order Q P R J split c [] ?c1" by (rule sys_run_silent [OF sys_taken [OF assms(1,2)]])
  moreover have "sys_run order Q P R J split ?c1 [Ev_publish topic m] ?c2"
    by (rule sys_run_event [OF sys_copied]) (simp_all add: smb)
  moreover have "sys_run order Q P R J split ?c2 [] (?c2\<lparr>sy_live := fold (lock_and_send m) (order (sym_sessions smb)) (sy_live ?c2), sy_pub := Pub_waits\<rparr>)"
    by (rule publisher_sends) simp
  moreover have "?c2\<lparr>sy_live := fold (lock_and_send m) (order (sym_sessions smb)) (sy_live ?c2), sy_pub := Pub_waits\<rparr> =
      (set_state (pb_state p) c)\<lparr>sy_live := pb_sessions p\<rparr>"
    using assms(1) by (simp add: p set_state_def)
  ultimately show ?thesis using sys_run_trans [OF sys_run_trans] by fastforce
qed

section \<open>Progress\<close>

text \<open>No write of the session has failed.\<close>

definition flowing :: "ws_session \<Rightarrow> bool" where
  "flowing w \<longleftrightarrow> writing (ws_ops w) = take 1 (ws_queue w)"

lemma writing_split: "writing ps = m # ms \<Longrightarrow> \<exists>xs ys. ps = xs @ Op_write m # ys"
proof (induction ps)
  case (Cons p ps)
  show ?case
  proof (cases p)
    case (Op_write ss)
    with Cons.prems show ?thesis by (intro exI [of _ "[]"] exI [of _ ps]) auto
  next
    case Op_accept
    with Cons obtain xs ys where "ps = xs @ Op_write m # ys" by auto
    then show ?thesis by (intro exI [of _ "p # xs"] exI [of _ ys]) auto
  next
    case Op_read
    with Cons obtain xs ys where "ps = xs @ Op_write m # ys" by auto
    then show ?thesis by (intro exI [of _ "p # xs"] exI [of _ ys]) auto
  next
    case (Op_post ss)
    with Cons obtain xs ys where "ps = xs @ Op_write m # ys" by auto
    then show ?thesis by (intro exI [of _ "p # xs"] exI [of _ ys]) auto
  qed
qed simp

lemma posted_split: "posted ps = m # ms \<Longrightarrow> \<exists>xs ys. ps = xs @ Op_post m # ys \<and> posted xs = []"
proof (induction ps)
  case (Cons p ps)
  show ?case
  proof (cases "\<exists>ss. p = Op_post ss")
    case True
    with Cons.prems show ?thesis by (intro exI [of _ "[]"] exI [of _ ps]) auto
  next
    case False
    then have "posted (p # ps) = posted ps" by (cases p) auto
    with Cons obtain xs ys where "ps = xs @ Op_post m # ys" "posted xs = []" by auto
    with False show ?thesis by (intro exI [of _ "p # xs"] exI [of _ ys]) (cases p; auto)
  qed
qed simp

lemma flowing_written:
  assumes "flowing w" and "ws_ops w = xs @ Op_write m # ys"
  shows "flowing (ws_on_write None (w\<lparr>ws_ops := xs @ ys\<rparr>)) \<and>
    ws_queue w = m # ws_queue (ws_on_write None (w\<lparr>ws_ops := xs @ ys\<rparr>)) \<and>
    posted (ws_ops (ws_on_write None (w\<lparr>ws_ops := xs @ ys\<rparr>))) = posted (ws_ops w)"
proof -
  have "writing xs = [] \<and> writing ys = [] \<and> (\<exists>q'. ws_queue w = m # q')"
    using assms by (intro writing_one) (auto simp: flowing_def)
  then obtain q' where q: "writing xs = []" "writing ys = []" "ws_queue w = m # q'" by blast
  with assms show ?thesis by (cases q') (auto simp: flowing_def ws_on_write_def Let_def)
qed

lemma flowing_posted:
  assumes "flowing w" and "ws_ops w = xs @ Op_post m # ys" and "ws_queue w = []" and "posted xs = []"
  shows "flowing (ws_on_send m (w\<lparr>ws_ops := xs @ ys\<rparr>)) \<and> ws_queue (ws_on_send m (w\<lparr>ws_ops := xs @ ys\<rparr>)) = [m] \<and>
    posted (ws_ops w) = m # posted (ws_ops (ws_on_send m (w\<lparr>ws_ops := xs @ ys\<rparr>)))"
  using assms by (auto simp: flowing_def ws_on_send_def)

lemma mailbox_drains:
  assumes "sy_live c s = Some w" and "flowing w" and "sy_work c s = None" and "in_flight c s = []"
  shows "\<exists>d w'. sys_run order Q P R J split c (map (Ev_deliver s) (mailbox w)) d \<and> sy_live d s = Some w' \<and>
    mailbox w' = [] \<and> in_flight d s = []"
  using assms
proof (induction "length (ws_queue w) + 2 * length (posted (ws_ops w))" arbitrary: c w rule: less_induct)
  case less
  show ?case
  proof (cases "ws_queue w")
    case (Cons m q)
    with less.prems(2) have "writing (ws_ops w) = m # []" by (simp add: flowing_def)
    from writing_split [OF this] obtain xs ys where ops: "ws_ops w = xs @ Op_write m # ys" by blast
    let ?w = "ws_on_write None (w\<lparr>ws_ops := xs @ ys\<rparr>)"
    from flowing_written [OF less.prems(2) ops] have w: "flowing ?w" "ws_queue w = m # ws_queue ?w"
      "posted (ws_ops ?w) = posted (ws_ops w)" by auto
    then have box: "mailbox w = m # mailbox ?w" by (simp add: mailbox_def)
    from less.hyps [of ?w "set_live s ?w c"] w less.prems(3,4) obtain d w' where
      d: "sys_run order Q P R J split (set_live s ?w c) (map (Ev_deliver s) (mailbox ?w)) d" "sy_live d s = Some w'" "mailbox w' = []" "in_flight d s = []"
      by auto
    from sys_run_trans [OF sys_run_event [OF sys_written [OF less.prems(1,3) ops]] d(1)] d(2-4) show ?thesis by (auto simp: box)
  next
    case Nil
    show ?thesis
    proof (cases "posted (ws_ops w)")
      case Nil
      with \<open>ws_queue w = []\<close> less.prems(1,4) show ?thesis by (auto simp: mailbox_def intro: run_none)
    next
      case (Cons m ms)
      from posted_split [OF this] obtain xs ys where ops: "ws_ops w = xs @ Op_post m # ys" "posted xs = []" by blast
      let ?w = "ws_on_send m (w\<lparr>ws_ops := xs @ ys\<rparr>)"
      from flowing_posted [OF less.prems(2) ops(1) Nil ops(2)] have w: "flowing ?w" "ws_queue ?w = [m]"
        "posted (ws_ops w) = m # posted (ws_ops ?w)" by auto
      then have box: "mailbox w = mailbox ?w" using Nil by (simp add: mailbox_def)
      from less.hyps [of ?w "set_live s ?w c"] w Nil less.prems(3,4) obtain d w' where
        d: "sys_run order Q P R J split (set_live s ?w c) (map (Ev_deliver s) (mailbox ?w)) d" "sy_live d s = Some w'" "mailbox w' = []" "in_flight d s = []"
        by auto
      from sys_run_trans [OF sys_run_silent [OF sys_posted [OF less.prems(1,3) ops]] d(1)] d(2-4) show ?thesis by (auto simp: box)
    qed
  qed
qed

text \<open>What waits for a session: its mailbox and what the publisher has still to send.\<close>

definition waits_for :: "('pq, 'sq, 'r) ws_system \<Rightarrow> sid \<Rightarrow> ws_session \<Rightarrow> string list" where
  "waits_for c s w = ws_queue w @ posted (ws_ops w) @ in_flight c s"

lemma waits_for_mailbox: "waits_for c s w = mailbox w @ in_flight c s"
  by (simp add: waits_for_def mailbox_def)

text \<open>The handler that a session is in comes to its end.\<close>

definition work_known :: "('pq, 'sq, 'r) ws_system \<Rightarrow> sid \<Rightarrow> bool" where
  "work_known c s \<longleftrightarrow> (\<forall>as ty t. sy_work c s = Some as \<longrightarrow> Act_topic ty t \<in> set as \<longrightarrow> t \<in> known_topics (sy_state c))"

definition own_requests :: "sid \<Rightarrow> event set" where
  "own_requests s = range (Ev_subscribe s) \<union> range (Ev_unsubscribe s)"

lemma topic_round_known:
  assumes "t \<in> known_topics st"
  obtains st' where "topic_round Q s ty t st = (Ret (), st')" "known_topics st' = known_topics st"
  using subscribe_topic_known [OF assms, of Q s] unsubscribe_topic_known [OF assms, of Q s] by (cases ty) auto

lemma handler_finishes:
  assumes "sy_live c s = Some w" and "s \<notin> sy_dying c" and "sy_work c s = Some as" and "work_known c s"
    and "Act_erase \<notin> set as" and "Act_join \<notin> set as"
  shows "\<exists>es d. sys_run order Q P R J split c es d \<and> set es \<subseteq> own_requests s \<and> sy_live d = (sy_live c)(s \<mapsto> start_op Op_read w) \<and>
    sy_work d s = None \<and> sy_pub d = sy_pub c \<and> known_topics (sy_state d) = known_topics (sy_state c)"
  using assms
proof (induction as arbitrary: c)
  case Nil
  from sys_run_silent [OF sys_reads_on [OF Nil.prems(1,3)]] show ?case by fastforce
next
  case (Cons a as)
  then obtain ty t where a: "a = Act_topic ty t" by (cases a) auto
  with Cons.prems have "t \<in> known_topics (sy_state c)" by (simp add: work_known_def)
  then obtain st' where st': "topic_round Q s ty t (sy_state c) = (Ret (), st')" "known_topics st' = known_topics (sy_state c)"
    by (rule topic_round_known)
  let ?d = "set_work s (Some as) (set_state st' c)"
  from Cons.prems(3) have step: "sys_step order Q P R J split c (Some (round_event c s ty t)) ?d" unfolding a by (rule sys_round [OF _ st'(1)])
  from Cons.prems st'(2) have "work_known ?d s" by (simp add: work_known_def)
  then have "\<exists>es e. sys_run order Q P R J split ?d es e \<and> set es \<subseteq> own_requests s \<and> sy_live e = (sy_live ?d)(s \<mapsto> start_op Op_read w) \<and>
      sy_work e s = None \<and> sy_pub e = sy_pub ?d \<and> known_topics (sy_state e) = known_topics (sy_state ?d)"
    using Cons.prems by (intro Cons.IH) simp_all
  then obtain es e where
    e: "sys_run order Q P R J split ?d es e" "set es \<subseteq> own_requests s" "sy_live e = (sy_live c)(s \<mapsto> start_op Op_read w)"
      "sy_work e s = None" "sy_pub e = sy_pub c" "known_topics (sy_state e) = known_topics (sy_state c)"
    unfolding system_fields st'(2) by blast
  have "round_event c s ty t \<in> own_requests s" using Cons.prems(2) by (cases ty) (auto simp: round_event_def own_requests_def)
  with sys_run_trans [OF sys_run_event [OF step] e(1)] e(2-6) show ?case by (intro exI [of _ "round_event c s ty t # es"] exI [of _ e]) auto
qed

lemma session_idle:
  assumes "sys_inv c" and "sy_live c s = Some w" and "work_known c s"
  shows "\<exists>es d w'. sys_run order Q P R J split c es d \<and> set es \<subseteq> own_requests s \<and> sy_live d s = Some w' \<and> sy_work d s = None \<and>
    sy_pub d = sy_pub c \<and> known_topics (sy_state d) = known_topics (sy_state c) \<and> flowing w' = flowing w"
proof (cases "sy_work c s")
  case None
  with assms(2) show ?thesis by (intro exI [of _ "[]"] exI [of _ c] exI [of _ w]) (simp add: run_none)
next
  case (Some as)
  from assms(1,2) have "s \<notin> sy_dying c" by (auto simp: sys_inv_def)
  moreover from this work_okD [OF assms(1), of s] Some have "Act_erase \<notin> set as" "Act_join \<notin> set as" by auto
  moreover have "flowing (start_op Op_read w) = flowing w" by (simp add: flowing_def)
  ultimately show ?thesis using handler_finishes [OF assms(2) _ Some assms(3)] by fastforce
qed

text \<open>A session whose writes go on and that is in no handler.\<close>

definition ready :: "('pq, 'sq, 'r) ws_system \<Rightarrow> sid \<Rightarrow> bool" where
  "ready c s \<longleftrightarrow> sys_inv c \<and> sy_work c s = None \<and> (\<exists>w. sy_live c s = Some w \<and> flowing w)"

lemma publisher_idle:
  assumes order: "traversal order" and r: "ready c s" and "\<And>t m. sy_pub c \<noteq> Pub_taken t m"
  shows "\<exists>d. sys_run order Q P R J split c [] d \<and> ready d s \<and> sy_pub d = Pub_waits \<and> sy_state d = sy_state c"
proof (cases "sy_pub c")
  case Pub_waits
  with r show ?thesis by (intro exI [of _ c]) (simp add: run_none)
next
  case (Pub_sends m v)
  let ?d = "c\<lparr>sy_live := fold (lock_and_send m) v (sy_live c), sy_pub := Pub_waits\<rparr>"
  from r have v: "distinct v" by (simp add: ready_def sys_inv_def Pub_sends)
  from r obtain w where w: "sy_live c s = Some w" "flowing w" by (auto simp: ready_def)
  have run: "sys_run order Q P R J split c [] ?d" by (rule publisher_sends [OF Pub_sends])
  moreover have "sy_live ?d s = Some (if s \<in> set v then ws_send m w else w)" using fold_lock_and_send [OF v] w(1) by simp
  moreover have "flowing (ws_send m w)" using w(2) by (simp add: flowing_def ws_send_def)
  moreover have "sys_inv ?d" using sys_run_simulates [OF order run] r by (simp add: ready_def)
  ultimately show ?thesis using r w(2) by (intro exI [of _ ?d]) (simp add: ready_def)
qed (use assms(3) in simp)

lemma publisher_publishes:
  assumes order: "traversal order" and r: "ready c s" and "sy_pub c = Pub_taken t m" and "t \<in> known_topics (sy_state c)"
  shows "\<exists>d. sys_run order Q P R J split c [Ev_publish t m] d \<and> ready d s \<and> sy_pub d = Pub_waits \<and> sy_state d = sy_state c"
proof -
  from symbol_at_registered [OF assms(4)] obtain smb where "symbol_at t (sy_state c) = (Some smb, sy_state c)" by blast
  note step = sys_copied [OF assms(3) this]
  let ?d = "(set_state (sy_state c) c)\<lparr>sy_pub := Pub_sends m (order (sym_sessions smb))\<rparr>"
  have "sys_inv ?d" using sys_step_simulates [OF order step] r by (simp add: ready_def simulates_def)
  with r have "ready ?d s" by (simp add: ready_def)
  from publisher_idle [OF order this, of Q P R J split] obtain e where
    "sys_run order Q P R J split ?d [] e" "ready e s" "sy_pub e = Pub_waits" "sy_state e = sy_state c" by auto
  with sys_run_trans [OF sys_run_event [OF step]] show ?thesis by fastforce
qed

lemma queue_is_published:
  assumes order: "traversal order" and P: "spsc_queue P"
  shows "ready c s \<Longrightarrow> sy_pub c = Pub_waits \<Longrightarrow> sp_contents P (spsc_queue_publish (sy_state c)) = ms \<Longrightarrow>
    fst ` set ms \<subseteq> known_topics (sy_state c) \<Longrightarrow>
    \<exists>d. sys_run order Q P R J split c (map (\<lambda>(t, m). Ev_publish t m) ms) d \<and> ready d s \<and> sy_pub d = Pub_waits \<and>
      sp_contents P (spsc_queue_publish (sy_state d)) = []"
proof (induction ms arbitrary: c)
  case Nil
  then show ?case by (intro exI [of _ c]) (simp add: run_none)
next
  case (Cons x ms)
  obtain t m where x: "x = (t, m)" by (cases x)
  from spsc_queue.pop_first [OF P Cons.prems(3)] obtain q where
    q: "sp_pop P (spsc_queue_publish (sy_state c)) = Some ((t, m), q)" "sp_contents P q = ms" by (auto simp: x)
  let ?d = "(set_state ((sy_state c)\<lparr>spsc_queue_publish := q\<rparr>) c)\<lparr>sy_pub := Pub_taken t m\<rparr>"
  note step = sys_taken [OF Cons.prems(2) q(1)]
  have "sys_inv ?d" using sys_step_simulates [OF order step] Cons.prems(1) by (simp add: ready_def simulates_def)
  then have "ready ?d s" using Cons.prems(1) by (simp add: ready_def)
  from publisher_publishes [OF order this, of t m Q P R J split] Cons.prems(4) obtain e where
    e: "sys_run order Q P R J split ?d [Ev_publish t m] e" "ready e s" "sy_pub e = Pub_waits"
      "sy_state e = (sy_state c)\<lparr>spsc_queue_publish := q\<rparr>" by (auto simp: x)
  from Cons.IH [OF e(2,3)] e(4) q(2) Cons.prems(4) obtain f where
    f: "sys_run order Q P R J split e (map (\<lambda>(t, m). Ev_publish t m) ms) f" "ready f s" "sy_pub f = Pub_waits"
      "sp_contents P (spsc_queue_publish (sy_state f)) = []" by auto
  from sys_run_trans [OF sys_run_trans [OF sys_run_silent [OF step] e(1)] f(1)] f(2-4) show ?case
    by (intro exI [of _ f]) (simp add: x)
qed

section \<open>From Redis to the sessions\<close>

text \<open>What has arrived and is not published yet: the message of the publisher and those in the queue.\<close>

definition on_the_way :: "('pq, string \<times> string) spsc \<Rightarrow> ('pq, 'sq, 'r) ws_system \<Rightarrow> (string \<times> string) list" where
  "on_the_way P c =
     (case sy_pub c of Pub_taken t m \<Rightarrow> [(t, m)] | _ \<Rightarrow> []) @ sp_contents P (spsc_queue_publish (sy_state c))"

lemma topic_round_publish:
  "topic_round Q s ty t st = (Ret (), st') \<Longrightarrow> spsc_queue_publish st' = spsc_queue_publish st"
  by (cases ty) (auto simp: subscribe_topic_def unsubscribe_topic_def symbol_at_def Let_def split: option.splits prod.splits if_splits)

lemma symbol_at_publish: "symbol_at t st = (Some smb, st') \<Longrightarrow> spsc_queue_publish st' = spsc_queue_publish st"
  by (auto simp: symbol_at_def split: option.splits)

lemma subscriber_iteration_publish:
  assumes P: "spsc_queue P" and step: "subscriber_iteration Q P R s = (Ret (), s')"
  shows "sp_contents P (spsc_queue_publish (sb_state s')) =
    sp_contents P (spsc_queue_publish (sb_state s)) @ (case arrival_event P R s of None \<Rightarrow> [] | Some e \<Rightarrow> arrivals [e])"
proof -
  have "spsc_queue_publish (sb_state s') = spsc_queue_publish (sb_state (subscriber_consume P R s))"
    using step by (auto simp: subscriber_iteration_def Let_def split: option.splits prod.splits sum.splits MsgType.splits)
  then show ?thesis
    by (auto simp: subscriber_consume_def arrival_event_def on_message_def spsc_queue.contents_push [OF P] spsc_queue.push_ok_iff [OF P]
        split: prod.split sum.split option.split)
qed

lemma step_on_the_way:
  assumes P: "spsc_queue P"
  shows "sys_step order Q P R J split c lab d \<Longrightarrow>
    on_the_way P c @ arrivals (case lab of None \<Rightarrow> [] | Some e \<Rightarrow> [e]) =
    publications (case lab of None \<Rightarrow> [] | Some e \<Rightarrow> [e]) @ on_the_way P d"
proof (induction rule: sys_step.induct)
  case (sys_accepted c s w xs ys ec w' st')
  from on_accept_effect [OF sys_accepted(4)] show ?case by (auto simp: on_the_way_def shared_join_def)
next
  case (sys_read_failed c s w xs ys ec w' st')
  then show ?case by (auto simp: on_the_way_def ws_on_read_def)
next
  case (sys_round c s ty t as st')
  with topic_round_publish [OF sys_round(2)] show ?case by (cases ty) (auto simp: on_the_way_def round_event_def)
next
  case (sys_taken c topic m q)
  from spsc_queue.pop_SomeD [OF P sys_taken(2)] sys_taken(1) show ?case by (simp add: on_the_way_def)
next
  case (sys_copied c topic m smb st')
  with symbol_at_publish [OF sys_copied(2)] show ?case by (simp add: on_the_way_def)
next
  case (sys_subscriber c sub')
  have "publications (case arrival_event P R (sy_sub c) of None \<Rightarrow> [] | Some e \<Rightarrow> [e]) = []"
    by (auto simp: arrival_event_def split: sum.split option.split)
  with subscriber_iteration_publish [OF P sys_subscriber] show ?case
    by (auto simp: on_the_way_def sy_state_def split: option.splits)
qed (simp_all add: on_the_way_def sy_state_def set_state_def set_live_def set_work_def)

lemma run_on_the_way:
  assumes P: "spsc_queue P"
  shows "sys_run order Q P R J split c es d \<Longrightarrow> on_the_way P c @ arrivals es = publications es @ on_the_way P d"
proof (induction rule: sys_run.induct)
  case (run_step c es d lab e)
  from run_step.IH step_on_the_way [OF P run_step.hyps(2)] show ?case
    by (simp add: arrivals_append publications_append) (metis append.assoc)
qed simp

text \<open>Everything on the way can be published.\<close>

lemma way_is_published:
  assumes order: "traversal order" and P: "spsc_queue P" and r: "ready c s" and "fst ` set (on_the_way P c) \<subseteq> known_topics (sy_state c)"
  shows "\<exists>d. sys_run order Q P R J split c (map (\<lambda>(t, m). Ev_publish t m) (on_the_way P c)) d \<and> ready d s \<and> sy_pub d = Pub_waits \<and>
    sp_contents P (spsc_queue_publish (sy_state d)) = []"
proof (cases "\<exists>t m. sy_pub c = Pub_taken t m")
  case True
  then obtain t m where taken: "sy_pub c = Pub_taken t m" by blast
  with assms(4) have known: "t \<in> known_topics (sy_state c)" by (simp add: on_the_way_def)
  from publisher_publishes [OF order r taken known, of Q P R J split] obtain d where
    d: "sys_run order Q P R J split c [Ev_publish t m] d" "ready d s" "sy_pub d = Pub_waits" "sy_state d = sy_state c" by blast
  with queue_is_published [OF order P d(2,3) refl, of Q R J split] assms(4) taken obtain e where
    e: "sys_run order Q P R J split d (map (\<lambda>(t, m). Ev_publish t m) (sp_contents P (spsc_queue_publish (sy_state c)))) e"
      "ready e s" "sy_pub e = Pub_waits" "sp_contents P (spsc_queue_publish (sy_state e)) = []" by (auto simp: on_the_way_def)
  from sys_run_trans [OF d(1) e(1)] e(2-4) show ?thesis by (intro exI [of _ e]) (simp add: on_the_way_def taken)
next
  case False
  with publisher_idle [OF order r, of Q P R J split] obtain d where
    d: "sys_run order Q P R J split c [] d" "ready d s" "sy_pub d = Pub_waits" "sy_state d = sy_state c" by blast
  have way: "on_the_way P c = sp_contents P (spsc_queue_publish (sy_state d))"
    using False d(4) by (cases "sy_pub c") (auto simp: on_the_way_def)
  from queue_is_published [OF order P d(2,3) refl, of Q R J split] assms(4) d(4) obtain e where
    e: "sys_run order Q P R J split d (map (\<lambda>(t, m). Ev_publish t m) (on_the_way P c)) e"
      "ready e s" "sy_pub e = Pub_waits" "sp_contents P (spsc_queue_publish (sy_state e)) = []" by (auto simp: way)
  from sys_run_trans [OF d(1) e(1)] e(2-4) show ?thesis by auto
qed

lemma requests_only [simp]:
  "set es \<subseteq> own_requests s \<Longrightarrow> publications es = []" "set es \<subseteq> own_requests s \<Longrightarrow> arrivals es = []"
  by (induction es) (auto simp: own_requests_def)

lemma events_only [simp]:
  "publications (map (Ev_deliver s) ms) = []" "arrivals (map (Ev_deliver s) ms) = []"
  "publications (map (\<lambda>(t, m). Ev_publish t m) ws) = ws" "arrivals (map (\<lambda>(t, m). Ev_publish t m) ws) = []"
  by (induction ms; simp)+ (induction ws; auto)+

text \<open>The handler ends, what is on the way is published, and the mailbox drains.\<close>

lemma run_to_the_end:
  assumes order: "traversal order" and P: "spsc_queue P" and inv: "sys_inv c" and "sy_live c s = Some w"
    and "flowing w" and "work_known c s" and "fst ` set (on_the_way P c) \<subseteq> known_topics (sy_state c)"
  shows "\<exists>fs d w'. sys_run order Q P R J split c fs d \<and>
    set fs \<subseteq> range (Ev_deliver s) \<union> own_requests s \<union> range (\<lambda>(t, m). Ev_publish t m) \<and>
    publications fs = on_the_way P c \<and> arrivals fs = [] \<and> sy_live d s = Some w' \<and> waits_for d s w' = []"
proof -
  from session_idle [OF inv assms(4,6)] assms(5) obtain es1 d1 w1 where
    d1: "sys_run order Q P R J split c es1 d1" "set es1 \<subseteq> own_requests s" "sy_live d1 s = Some w1" "sy_work d1 s = None"
      "sy_pub d1 = sy_pub c" "known_topics (sy_state d1) = known_topics (sy_state c)" "flowing w1" by metis
  have "ready d1 s" using sys_run_simulates [OF order d1(1) inv] d1(3,4,7) by (simp add: ready_def)
  moreover have "on_the_way P d1 = on_the_way P c" using run_on_the_way [OF P d1(1)] d1(2) by simp
  ultimately obtain d2 where
    d2: "sys_run order Q P R J split d1 (map (\<lambda>(t, m). Ev_publish t m) (on_the_way P c)) d2" "ready d2 s" "sy_pub d2 = Pub_waits"
    using way_is_published [OF order P, of d1 s Q R J split] assms(7) d1(6) by auto
  then obtain w2 where w2: "sy_live d2 s = Some w2" "flowing w2" "sy_work d2 s = None" "in_flight d2 s = []"
    by (auto simp: ready_def in_flight_def)
  from mailbox_drains [OF this, of order Q P R J split] obtain d w' where
    d: "sys_run order Q P R J split d2 (map (Ev_deliver s) (mailbox w2)) d" "sy_live d s = Some w'" "mailbox w' = []" "in_flight d s = []"
    by blast
  let ?fs = "es1 @ map (\<lambda>(t, m). Ev_publish t m) (on_the_way P c) @ map (Ev_deliver s) (mailbox w2)"
  have "sys_run order Q P R J split c ?fs d" using sys_run_trans [OF d1(1) sys_run_trans [OF d2(1) d(1)]] .
  moreover have "set ?fs \<subseteq> range (Ev_deliver s) \<union> own_requests s \<union> range (\<lambda>(t, m). Ev_publish t m)" using d1(2) by auto
  moreover have "publications ?fs = on_the_way P c" "arrivals ?fs = []"
    using d1(2) by (simp_all add: publications_append arrivals_append)
  ultimately show ?thesis
    using d(2-4) by (intro exI [of _ ?fs] exI [of _ d] exI [of _ w']) (simp add: waits_for_mailbox)
qed

section \<open>Properties\<close>

text \<open>The state the web server starts with.\<close>

lemma new_shared_state_empty:
  assumes "new_shared_state split now pq sq root topics vm = Ret st"
  shows "ws_topics st = (\<lambda>_. {}) \<and> sessions st = {} \<and> spsc_queue_publish st = pq"
  using assms by (auto simp: new_shared_state_def split: option.splits)

lemma sys_run_start:
  assumes "traversal order" and "new_shared_state split now pq sq root topics vm = Ret st"
    and "sys_run order Q P R J split' (new_system redis st) es c"
  shows "sys_inv c \<and> broker_run es empty_broker = Some (sys_broker c)"
proof -
  have "sys_inv (new_system redis st)"
    using new_shared_state_ok [OF assms(2)] new_shared_state_empty [OF assms(2)] by (simp add: sys_inv_new)
  moreover have "sys_broker (new_system redis st) = empty_broker"
    using new_shared_state_empty [OF assms(2)] by (simp add: sys_broker_def empty_broker_def)
  ultimately show ?thesis using sys_run_simulates [OF assms(1,3)] by simp
qed

text \<open>
  A server with one topic and one message to publish. A session is accepted, subscribes and is
  sent the message.
\<close>

definition sample_state :: "((string \<times> string) list, (MsgType \<times> string) list) shared_state" where
  "sample_state =
     \<lparr>doc_root = ''.'', topics_arg = ''ETH'', symbols = [''ETH'' \<mapsto> Some (new_symbol ''ETH'' [] 0)],
      spsc_queue_publish = [(''ETH'', ''42'')], spsc_queue_subscriber = [], sessions = {},
      allowed_origins = [''o''], ws_topics = (\<lambda>_. {})\<rparr>"

lemma sample_state_new:
  "new_shared_state (\<lambda>s. [s]) (\<lambda>_. 0) [(''ETH'', ''42'')] [] ''.'' ''ETH'' (\<lambda>k. Some ''o'') = Ret sample_state"
  by (simp add: new_shared_state_def sample_state_def)

definition sample_events :: "event list" where
  "sample_events = [Ev_open 7, Ev_subscribe 7 ''ETH'', Ev_publish ''ETH'' ''42'']"

lemma sample_run:
  "\<exists>c w. sys_run sorted_list_of_set bounded_queue bounded_queue R (sample_json subscribe_text) (\<lambda>s. [s])
       (new_system redis sample_state) sample_events c \<and>
     sy_live c 7 = Some w \<and> mailbox w = [''42''] \<and> flowing w \<and> ws_topics (sy_state c) 7 = {''ETH''} \<and>
     sy_work c 7 = None \<and> sy_pub c = Pub_waits"
proof -
  let ?run = "sys_run sorted_list_of_set bounded_queue bounded_queue R (sample_json subscribe_text) (\<lambda>s. [s]) (new_system redis sample_state)"
  define w0 where "w0 = ws_run (new_websocket_session 7)"
  define w1 where "w1 = start_op Op_read (new_websocket_session 7)"
  define c1 where "c1 = set_live 7 w0 (set_state (sample_state\<lparr>ws_topics := (\<lambda>_. {})(7 := {})\<rparr>) (new_system redis sample_state))"
  define c2 where "c2 = set_live 7 w1 (set_state (shared_join 7 (sy_state c1)) c1)"
  define st3 where "st3 = (sy_state c2)\<lparr>symbols := [''ETH'' \<mapsto> Some (symbol_join 7 (new_symbol ''ETH'' [] 0))],
    spsc_queue_subscriber := [(SUBSCRIBE, ''ETH'')], ws_topics := (\<lambda>_. {})(7 := {''ETH''})\<rparr>"
  define c3 where "c3 = set_live 7 w1 (set_state st3 c2)"
  define c4 where "c4 = (set_state (st3\<lparr>spsc_queue_publish := []\<rparr>) c3)\<lparr>sy_live := (sy_live c3)(7 \<mapsto> ws_send ''42'' w1)\<rparr>"
  have ops: "ws_ops w0 = [] @ Op_accept # []" "ws_ops w1 = [] @ Op_read # []"
    by (simp_all add: w0_def w1_def ws_run_def new_websocket_session_def)
  have idle: "sy_work c1 7 = None" "sy_work c2 7 = None" "sy_dying c2 = {}" "sy_pub c3 = Pub_waits" "sy_pub c4 = Pub_waits" "sy_work c4 7 = None"
    by (simp_all add: c1_def c2_def c3_def c4_def)
  have run1: "?run [Ev_open 7] c1"
    using sys_run_event [OF sys_open [where c = "new_system redis sample_state" and s = 7]]
    by (simp add: c1_def w0_def sample_state_def)
  have "ws_on_accept None (w0\<lparr>ws_ops := [] @ []\<rparr>, sy_state c1) = (w1, shared_join 7 (sy_state c1))"
    by (simp add: ws_on_accept_def w0_def w1_def ws_run_def new_websocket_session_def start_op_def)
  from sys_run_trans [OF run1 sys_run_silent [OF sys_accepted [OF _ idle(1) ops(1) this]]] have run2: "?run [Ev_open 7] c2"
    by (simp add: c2_def c1_def)
  have "subscribe_topic bounded_queue 7 ''ETH'' (sy_state c2) = (Ret (), st3)"
    by (simp add: subscribe_topic_def symbol_at_def Let_def c2_def c1_def st3_def sample_state_def shared_join_def
        new_symbol_def symbol_join_def queue_capacity_def)
  then have "shared_parse bounded_queue (sample_json subscribe_text) (\<lambda>s. [s]) ''sub'' 7 (sy_state c2) = (Ret (), st3)"
    by (simp add: shared_parse_def parse_subscribe_text io_simps)
  then have "ws_on_read bounded_queue (sample_json subscribe_text) (\<lambda>s. [s]) (Inr ''sub'') (w1\<lparr>ws_ops := [] @ []\<rparr>, sy_state c2) = (Ret (), (w1, st3))"
    by (simp add: ws_on_read_def w1_def start_op_def new_websocket_session_def)
  from sys_run_trans [OF run2 message_handled [OF _ idle(2) ops(2) _ _ this]] have run3: "?run [Ev_open 7, Ev_subscribe 7 ''ETH''] c3"
    by (simp add: c3_def c2_def parse_subscribe_text round_event_def idle(3)[unfolded c2_def] w1_def new_websocket_session_def start_op_def c1_def)
  have state: "sy_state c3 = st3" "sy_live c3 7 = Some w1" by (simp_all add: c3_def)
  have "publish_message sorted_list_of_set (''ETH'', ''42'')
      \<lparr>pb_state = (sy_state c3)\<lparr>spsc_queue_publish := []\<rparr>, pb_sessions = sy_live c3\<rparr> =
    (Ret (), \<lparr>pb_state = st3\<lparr>spsc_queue_publish := []\<rparr>, pb_sessions = (sy_live c3)(7 \<mapsto> ws_send ''42'' w1)\<rparr>)"
    using state by (simp add: publish_message_def symbol_at_def st3_def symbol_join_def new_symbol_def lock_and_send_def)
  note published = this
  have popped: "sp_pop bounded_queue (spsc_queue_publish (sy_state c3)) = Some ((''ETH'', ''42''), [])"
    by (simp add: state st3_def c2_def c1_def shared_join_def sample_state_def)
  from sys_run_trans [OF run3 message_published [OF idle(4) popped published]] have "?run sample_events c4"
    by (simp add: sample_events_def c4_def)
  moreover have "mailbox (ws_send ''42'' w1) = [''42'']" "flowing (ws_send ''42'' w1)"
    by (simp_all add: ws_send_def w1_def mailbox_def flowing_def new_websocket_session_def)
  moreover have "ws_topics (sy_state c4) 7 = {''ETH''}" by (simp add: c4_def st3_def)
  ultimately show ?thesis using idle(5,6) by (intro exI [of _ c4] exI [of _ "ws_send ''42'' w1"]) (simp add: c4_def)
qed


text \<open>A Redis connection that never has a message.\<close>

definition silent_redis :: "unit redis_sub" where
  "silent_redis =
     \<lparr>rsub_consume = (\<lambda>r. (Inr None, r)), rsub_subscribe = (\<lambda>t r. (Inr (), r)), rsub_unsubscribe = (\<lambda>t r. (Inr (), r)),
      rsub_topics = (\<lambda>r. {})\<rparr>"

abbreviation sample_sys_run ::
    "((string \<times> string) list, (MsgType \<times> string) list, unit) ws_system \<Rightarrow> event list \<Rightarrow>
     ((string \<times> string) list, (MsgType \<times> string) list, unit) ws_system \<Rightarrow> bool" where
  "sample_sys_run \<equiv> sys_run sorted_list_of_set bounded_queue bounded_queue silent_redis (sample_json subscribe_text) (\<lambda>s. [s])"

lemma sample_runE:
  obtains c w where "sample_sys_run (new_system () sample_state) sample_events c"
    and "sy_live c 7 = Some w" and "mailbox w = [''42'']" and "flowing w" and "ws_topics (sy_state c) 7 = {''ETH''}" and "sy_work c 7 = None" and "in_flight c 7 = []"
proof -
  from sample_run [of silent_redis "()"] obtain c w where c: "sample_sys_run (new_system () sample_state) sample_events c"
    "sy_live c 7 = Some w" "mailbox w = [''42'']" "flowing w" "ws_topics (sy_state c) 7 = {''ETH''}" "sy_work c 7 = None" "sy_pub c = Pub_waits" by blast
  with that [OF c(1-6)] show thesis by (simp add: in_flight_def)
qed

text \<open>
  C1: the web socket server is a broker. Every run of the sessions, the subscriber's loop and
  the publisher's loop, however the rounds of their handlers interleave, is a run of the abstract broker
  with the same subscriptions, publications and deliveries, in which a session's mailbox is
  its write queue followed by what is posted to its strand and by the message that the publisher has
  copied its pointer for and not sent yet. A topic is published when the publisher copies the pointers.
\<close>
theorem web_sockets_refine_broker:
  assumes "traversal order" and "new_shared_state split now pq sq root topics vm = Ret st"
    and "sys_run order Q P R J split' (new_system redis st) es c"
  shows "broker_run es empty_broker =
    Some \<lparr>br_topics = ws_topics (sy_state c),
          br_mailbox = (\<lambda>s. map_option (\<lambda>w. ws_queue w @ posted (ws_ops w) @ in_flight c s) (sy_live c s))\<rparr>"
  using sys_run_start [OF assms] by (simp add: sys_broker_def mailbox_def)

theorem web_sockets_refine_broker_witness:
  "\<exists>b. broker_run sample_events empty_broker = Some b \<and> br_topics b 7 = {''ETH''} \<and> br_mailbox b 7 = Some [''42'']"
proof -
  obtain c w where run: "sample_sys_run (new_system () sample_state) sample_events c"
    and c: "sy_live c 7 = Some w" "mailbox w = [''42'']" "ws_topics (sy_state c) 7 = {''ETH''}" "in_flight c 7 = []"
    by (rule sample_runE)
  show ?thesis
    unfolding web_sockets_refine_broker [OF sorted_traversal sample_state_new run] using c
    by (simp add: mailbox_def)
qed

text \<open>
  C2: what a session gets, end to end. While a session is connected, the messages it is
  delivered, followed by those that still wait, are the ones that waited before followed by
  the messages published on its topics, in the order of their publication, each once: its
  subscriptions at the time of a publication decide, and no other message is ever delivered. A request
  with several topics takes effect topic by topic, and publications may come between. What is published is
  what the subscriber consumed from Redis and found room for, in this order, each once.
\<close>
theorem published_messages_arrive_in_order:
  assumes "traversal order" and "new_shared_state split now pq sq root topics vm = Ret st"
    and "sys_run order Q P R J split' (new_system redis st) es0 c" and "sy_live c s = Some w"
    and "sys_run order Q P R J split' c es d" and "Ev_gone s \<notin> set es" and "spsc_queue P"
  shows "(\<exists>w'. sy_live d s = Some w' \<and>
      waits_for c s w @ addressed s es (ws_topics (sy_state c) s) = deliveries s es @ waits_for d s w') \<and>
    on_the_way P c @ arrivals es = publications es @ on_the_way P d"
proof -
  from sys_run_start [OF assms(1-3)] have "sys_inv c" by simp
  from sys_run_simulates [OF assms(1,5) this] have "broker_run es (sys_broker c) = Some (sys_broker d)" by simp
  from broker_fifo [OF this _ assms(6), of "waits_for c s w"] assms(4) run_on_the_way [OF assms(7,5)] show ?thesis
    by (auto simp: waits_for_mailbox)
qed

theorem published_messages_arrive_in_order_witness:
  "\<exists>c d w'. sample_sys_run c [Ev_deliver 7 ''42''] d \<and> sy_live d 7 = Some w' \<and> waits_for d 7 w' = []"
proof -
  obtain c w where run: "sample_sys_run (new_system () sample_state) sample_events c"
    and c: "sy_live c 7 = Some w" "mailbox w = [''42'']" "flowing w" "sy_work c 7 = None" "in_flight c 7 = []"
    by (rule sample_runE)
  from mailbox_drains [OF c(1,3-5), of sorted_list_of_set bounded_queue bounded_queue silent_redis "sample_json subscribe_text" "\<lambda>s. [s]"] c(2)
  obtain d where d: "sample_sys_run c [Ev_deliver 7 ''42''] d" by auto
  from published_messages_arrive_in_order [OF sorted_traversal sample_state_new run c(1) d _ bounded_queue_spsc] c(2,5)
  have "\<exists>w'. sy_live d 7 = Some w' \<and> waits_for d 7 w' = []" by (auto simp: waits_for_mailbox [of c])
  with d show ?thesis by blast
qed

text \<open>
  C10: no session pointer dangles. The symbols and the set of sessions hold raw pointers; in every
  reachable state they point to sessions whose destructor has not finished, so the publisher's
  \<open>weak_from_this\<close> and the iteration over a symbol touch no freed object, and a new session, even
  one that reuses the memory of an old one, starts without subscriptions.
\<close>
theorem session_pointers_allocated:
  assumes "traversal order" and "new_shared_state split now pq sq root topics vm = Ret st"
    and "sys_run order Q P R J split' (new_system redis st) es c"
  shows "registered (sy_state c) topic \<subseteq> dom (sy_live c) \<union> sy_dying c \<and>
    sessions (sy_state c) \<subseteq> dom (sy_live c) \<union> sy_dying c \<and>
    (sy_live c s = None \<and> s \<notin> sy_dying c \<longrightarrow> ws_topics (sy_state c) s = {})"
proof -
  from sys_run_start [OF assms] have inv: "sys_inv c" by simp
  from registered_allocated [OF this, of topic] inv show ?thesis
    by (auto simp: sys_inv_def allocated_def)
qed

theorem session_pointers_allocated_witness:
  "\<exists>c. sample_sys_run (new_system () sample_state) sample_events c \<and>
     7 \<in> registered (sy_state c) ''ETH'' \<and> 7 \<in> dom (sy_live c) \<union> sy_dying c"
proof -
  obtain c w where run: "sample_sys_run (new_system () sample_state) sample_events c"
    and c: "sy_live c 7 = Some w" "mailbox w = [''42'']" "flowing w" "ws_topics (sy_state c) 7 = {''ETH''}"
    by (rule sample_runE)
  from sys_run_start [OF sorted_traversal sample_state_new run] have "state_ok (sy_state c)" by (simp add: sys_inv_def)
  then have "7 \<in> registered (sy_state c) ''ETH''" using c(4) by (simp add: state_ok_def)
  with run session_pointers_allocated [OF sorted_traversal sample_state_new run, of "''ETH''" 0] show ?thesis by blast
qed

text \<open>
  C24: no message is stuck. Take a reachable state and a session none of whose writes has failed, and suppose that
  neither the handler it may be in nor a message on the way from Redis names an unknown topic. Then
  there is a run in which nothing more arrives, everything on the way is published, and the session is
  delivered, in order, all that waited for it and what is addressed to it in this run, so that nothing is
  left; no other session is heard of. A write that failed is the only other way to be stuck.
\<close>
theorem waiting_messages_can_be_delivered:
  assumes "traversal order" and "new_shared_state split now pq sq root topics vm = Ret st"
    and "sys_run order Q P R J split' (new_system redis st) es c" and "sy_live c s = Some w" and "spsc_queue P"
  shows "(writing (ws_ops w) = take 1 (ws_queue w) \<and> work_known c s \<and> fst ` set (on_the_way P c) \<subseteq> known_topics (sy_state c) \<longrightarrow>
      (\<exists>fs d w'. sys_run order Q P R J split' c fs d \<and> publications fs = on_the_way P c \<and> arrivals fs = [] \<and> on_the_way P d = [] \<and>
         deliveries s fs = waits_for c s w @ addressed s fs (ws_topics (sy_state c) s) \<and>
         set fs \<subseteq> range (Ev_deliver s) \<union> own_requests s \<union> range (\<lambda>(t, m). Ev_publish t m) \<and>
         sy_live d s = Some w' \<and> waits_for d s w' = [])) \<and>
    (writing (ws_ops w) \<noteq> take 1 (ws_queue w) \<longrightarrow> ws_queue w \<noteq> [] \<and> writing (ws_ops w) = [])"
proof (intro conjI impI)
  from sys_run_start [OF assms(1-3)] have inv: "sys_inv c" by simp
  from live_session_ok [OF this assms(4)] have "session_ok s w" .
  then show "ws_queue w \<noteq> []" "writing (ws_ops w) = []" if "writing (ws_ops w) \<noteq> take 1 (ws_queue w)"
    using that by (auto simp: session_ok_def)
  assume "writing (ws_ops w) = take 1 (ws_queue w) \<and> work_known c s \<and> fst ` set (on_the_way P c) \<subseteq> known_topics (sy_state c)"
  with run_to_the_end [OF assms(1,5) inv assms(4), of Q R J split'] obtain fs d w' where
    fs: "sys_run order Q P R J split' c fs d" "set fs \<subseteq> range (Ev_deliver s) \<union> own_requests s \<union> range (\<lambda>(t, m). Ev_publish t m)"
      "publications fs = on_the_way P c" "arrivals fs = []" "sy_live d s = Some w'" "waits_for d s w' = []"
    by (auto simp: flowing_def)
  then have "Ev_gone s \<notin> set fs" by (auto simp: own_requests_def)
  moreover have "broker_run fs (sys_broker c) = Some (sys_broker d)" using sys_run_simulates [OF assms(1) fs(1) inv] by simp
  ultimately have "deliveries s fs = waits_for c s w @ addressed s fs (ws_topics (sy_state c) s)"
    using broker_fifo [of fs "sys_broker c" "sys_broker d" s "waits_for c s w"] assms(4) fs(5,6) by (simp add: waits_for_mailbox)
  moreover have "on_the_way P d = []" using run_on_the_way [OF assms(5) fs(1)] fs(3,4) by simp
  ultimately show "\<exists>fs d w'. sys_run order Q P R J split' c fs d \<and> publications fs = on_the_way P c \<and> arrivals fs = [] \<and> on_the_way P d = [] \<and>
      deliveries s fs = waits_for c s w @ addressed s fs (ws_topics (sy_state c) s) \<and>
      set fs \<subseteq> range (Ev_deliver s) \<union> own_requests s \<union> range (\<lambda>(t, m). Ev_publish t m) \<and> sy_live d s = Some w' \<and> waits_for d s w' = []"
    using fs by blast
qed

theorem waiting_messages_can_be_delivered_witness:
  "\<exists>c fs d. sample_sys_run (new_system () sample_state) sample_events c \<and> sample_sys_run c fs d \<and> deliveries 7 fs \<noteq> []"
proof -
  obtain c w where run: "sample_sys_run (new_system () sample_state) sample_events c"
    and c: "sy_live c 7 = Some w" "mailbox w = [''42'']" "flowing w" "sy_work c 7 = None" "in_flight c 7 = []"
    by (rule sample_runE)
  have "[(''ETH'', ''42'')] = [(''ETH'', ''42'')] @ on_the_way bounded_queue c"
    using run_on_the_way [OF bounded_queue_spsc run] by (simp add: sample_events_def on_the_way_def [of _ "new_system () sample_state"])
      (simp add: sample_state_def)
  then have "on_the_way bounded_queue c = []" by simp
  with c(3,4) have "writing (ws_ops w) = take 1 (ws_queue w) \<and> work_known c 7 \<and> fst ` set (on_the_way bounded_queue c) \<subseteq> known_topics (sy_state c)"
    by (simp add: flowing_def work_known_def)
  with waiting_messages_can_be_delivered [OF sorted_traversal sample_state_new run c(1) bounded_queue_spsc] obtain fs d where
    "sample_sys_run c fs d" "deliveries 7 fs = waits_for c 7 w @ addressed 7 fs (ws_topics (sy_state c) 7)" by blast
  with run c(2,5) show ?thesis by (intro exI [of _ c] exI [of _ fs] exI [of _ d]) (simp add: waits_for_mailbox)
qed

end
