(* ===== verification/Server_System.thy ===== *)
theory Server_System
  imports Worker_System Web_Socket_Runs
begin

text \<open>
  The server as its clients see it: any number of connections, each with its HTTP session
  (\<open>src/web/http_session.cpp\<close>), the background threads that run the router on the services
  (\<open>Worker_System\<close>), and the web socket system. A connection whose request is an upgrade opens a web
  socket session; one whose request passes to the background has its request, under the number of
  the connection, among those of the threads. The handlers of all parts interleave; what a
  thread does for a request is cut at its calls of the services.
\<close>

section \<open>State and steps\<close>

text \<open>What a request of a client can cause, for the specifications.\<close>

datatype effect = Routed http_request | Opened sid http_request

record ('w, 'j, 'pq, 'sq, 'r) server_system =
  sn_http :: "nat \<Rightarrow> session_state option"
  sn_ws :: "('pq, 'sq, 'r) ws_system"
  sn_work :: "('w, 'j) worker_system"
  sn_log :: "(nat \<times> effect) list"

definition new_server_system ::
    "nat \<Rightarrow> 'w \<Rightarrow> 'r \<Rightarrow> ('pq, 'sq) shared_state \<Rightarrow> ('w, 'j, 'pq, 'sq, 'r) server_system" where
  "new_server_system threads w redis st =
     \<lparr>sn_http = Map.empty, sn_ws = new_system redis st, sn_work = new_worker_system threads w, sn_log = []\<rparr>"

definition set_http ::
    "nat \<Rightarrow> session_state \<Rightarrow> ('w, 'j, 'pq, 'sq, 'r) server_system \<Rightarrow> ('w, 'j, 'pq, 'sq, 'r) server_system" where
  "set_http c s n = n\<lparr>sn_http := (sn_http n)(c \<mapsto> s)\<rparr>"

fun is_background :: "pending \<Rightarrow> bool" where
  "is_background (Pend_background req) = True"
| "is_background _ = False"

definition backgrounds :: "session_state \<Rightarrow> pending list" where
  "backgrounds s = filter is_background (ss_pending s)"

text \<open>
  The end of the posted lambda: it posts \<open>do_write\<close> to the executor of the session's stream, or nothing
  after an exception.
\<close>

definition lambda_returns :: "http_response option \<Rightarrow> session_state \<Rightarrow> session_state" where
  "lambda_returns answer s =
     s\<lparr>ss_pending := filter (\<lambda>p. \<not> is_background p) (ss_pending s) @ (case answer of None \<Rightarrow> [] | Some res \<Rightarrow> [Pend_do_write res])\<rparr>"

fun answer_of :: "'j work_pc option \<Rightarrow> http_response option option" where
  "answer_of (Some (Work_done req answer)) = Some answer"
| "answer_of _ = None"

definition newly_answered :: "('w, 'j) worker_system \<Rightarrow> ('w, 'j) worker_system \<Rightarrow> nat \<Rightarrow> http_response option option" where
  "newly_answered old new c = (if answer_of (wk_request old c) = None then answer_of (wk_request new c) else None)"

definition threads_run :: "('w, 'j) worker_system \<Rightarrow> ('w, 'j, 'pq, 'sq, 'r) server_system \<Rightarrow> ('w, 'j, 'pq, 'sq, 'r) server_system" where
  "threads_run wk n =
     n\<lparr>sn_work := wk,
       sn_http := (\<lambda>c. case newly_answered (sn_work n) wk c of
                        None \<Rightarrow> sn_http n c
                      | Some answer \<Rightarrow> map_option (lambda_returns answer) (sn_http n c))\<rparr>"

text \<open>
  \<open>ws_step\<close> is the web socket system. The handlers of an HTTP session that neither upgrade it nor have to
  do with the background are taken from \<open>session_step\<close> as they are.
\<close>

inductive server_step ::
    "http_params \<Rightarrow> string list \<Rightarrow> http_session \<Rightarrow> ('w, 'j, 'b) router \<Rightarrow>
     (('pq, 'sq, 'r) ws_system \<Rightarrow> event option \<Rightarrow> ('pq, 'sq, 'r) ws_system \<Rightarrow> bool) \<Rightarrow>
     ('w, 'j, 'pq, 'sq, 'r) server_system \<Rightarrow> ('w, 'j, 'pq, 'sq, 'r) server_system \<Rightarrow> bool"
  for P ao h R ws_step where
  connection_accepted:
    "sn_http n c = None \<Longrightarrow> server_step P ao h R ws_step n (set_http c session_run n)"
| http_handler:
    "sn_http n c = Some s \<Longrightarrow> session_step P ao h s t \<Longrightarrow> ss_upgraded t = ss_upgraded s \<Longrightarrow> backgrounds t = backgrounds s \<Longrightarrow>
     server_step P ao h R ws_step n (set_http c t n)"
| upgraded:
    "sn_http n c = Some s \<Longrightarrow> ss_pending s = xs @ Pend_read # ys \<Longrightarrow> on_read P ao h r = Read_upgrade req \<Longrightarrow>
     ws_step (sn_ws n) (Some (Ev_open i)) ws' \<Longrightarrow>
     server_step P ao h R ws_step n
       ((set_http c (s\<lparr>ss_pending := xs @ ys, ss_requests := Suc (ss_requests s), ss_upgraded := True\<rparr>) n)
          \<lparr>sn_ws := ws', sn_log := sn_log n @ [(c, Opened i req)]\<rparr>)"
| posted_to_worker:
    "sn_http n c = Some s \<Longrightarrow> ss_pending s = xs @ Pend_read # ys \<Longrightarrow> on_read P ao h r = Read_background req \<Longrightarrow>
     server_step P ao h R ws_step n
       ((set_http c (s\<lparr>ss_pending := xs @ ys @ [Pend_background req], ss_requests := Suc (ss_requests s)\<rparr>) n)
          \<lparr>sn_work := post_request c req (sn_work n), sn_log := sn_log n @ [(c, Routed req)]\<rparr>)"
| thread_runs:
    "worker_step P R ao (sn_work n) wk \<Longrightarrow> server_step P ao h R ws_step n (threads_run wk n)"
| web_socket_handler:
    "ws_step (sn_ws n) lab ws' \<Longrightarrow> (\<forall>i. lab \<noteq> Some (Ev_open i)) \<Longrightarrow> server_step P ao h R ws_step n (n\<lparr>sn_ws := ws'\<rparr>)"

inductive server_reachable ::
    "http_params \<Rightarrow> string list \<Rightarrow> http_session \<Rightarrow> ('w, 'j, 'b) router \<Rightarrow>
     (('pq, 'sq, 'r) ws_system \<Rightarrow> event option \<Rightarrow> ('pq, 'sq, 'r) ws_system \<Rightarrow> bool) \<Rightarrow>
     ('w, 'j, 'pq, 'sq, 'r) server_system \<Rightarrow> ('w, 'j, 'pq, 'sq, 'r) server_system \<Rightarrow> bool"
  for P ao h R ws_step n0 where
  server_start: "server_reachable P ao h R ws_step n0 n0"
| server_next: "server_reachable P ao h R ws_step n0 n \<Longrightarrow> server_step P ao h R ws_step n m \<Longrightarrow>
    server_reachable P ao h R ws_step n0 m"

section \<open>Requests that may have effects\<close>

definition checked :: "http_params \<Rightarrow> http_session \<Rightarrow> http_request \<Rightarrow> bool" where
  "checked P h req \<longleftrightarrow> hs_disableJWTTokenValidation h = ''true'' \<or> token_accepted P h req"

fun effect_allowed :: "http_params \<Rightarrow> http_session \<Rightarrow> effect \<Rightarrow> bool" where
  "effect_allowed P h (Routed req) \<longleftrightarrow>
     checked P h req \<and> \<not> hp_is_upgrade P req \<and> req_target req \<noteq> ''/health'' \<and>
     req_method req \<in> {Verb_get, Verb_post, Verb_put, Verb_delete, Verb_patch}"
| "effect_allowed P h (Opened i req) \<longleftrightarrow>
     hp_is_upgrade P req \<and> (checked P h req \<or> req_target req = ''/health'' \<or> req_method req = Verb_options)"

text \<open>The request that a state of the background work is about.\<close>

fun work_about :: "http_request \<Rightarrow> 'j work_pc \<Rightarrow> bool" where
  "work_about req (Work_start req') = (req' = req)"
| "work_about req (Work_fund req' p) = (req' = req)"
| "work_about req (Work_duck req' p) = (req' = req)"
| "work_about req (Work_done req' answer) = (req' = req)"
| "work_about req Work_stuck = True"

section \<open>Invariant\<close>

text \<open>
  A connection waits for at most one thing. It waits for the background exactly while its request is
  among those of the threads and not answered, and what it is about to write then is the answer;
  after its effect it reads no more.
\<close>

definition conn_ok :: "(nat \<times> effect) list \<Rightarrow> ('w, 'j) worker_system \<Rightarrow> nat \<Rightarrow> session_state \<Rightarrow> bool" where
  "conn_ok l wk c s \<longleftrightarrow>
     session_inv s \<and> (c \<in> fst ` set l \<longrightarrow> Pend_read \<notin> set (ss_pending s)) \<and>
     (\<forall>req. Pend_background req \<in> set (ss_pending s) \<longrightarrow> (c, Routed req) \<in> set l) \<and>
     (backgrounds s = [] \<longleftrightarrow> wk_request wk c = None \<or> answer_of (wk_request wk c) \<noteq> None) \<and>
     (\<forall>res. Pend_do_write res \<in> set (ss_pending s) \<longrightarrow> answer_of (wk_request wk c) = Some (Some res))"

definition log_ok :: "http_params \<Rightarrow> http_session \<Rightarrow> (nat \<times> effect) list \<Rightarrow> bool" where
  "log_ok P h l \<longleftrightarrow> distinct (map fst l) \<and> (\<forall>(c, e) \<in> set l. effect_allowed P h e)"

text \<open>The requests of the threads are those of the log.\<close>

definition work_logged :: "(nat \<times> effect) list \<Rightarrow> ('w, 'j) worker_system \<Rightarrow> bool" where
  "work_logged l wk \<longleftrightarrow>
     (\<forall>c. (wk_request wk c \<noteq> None) = (\<exists>req. (c, Routed req) \<in> set l)) \<and>
     (\<forall>c req p. (c, Routed req) \<in> set l \<longrightarrow> wk_request wk c = Some p \<longrightarrow> work_about req p)"

definition conns_inv :: "http_params \<Rightarrow> http_session \<Rightarrow> ('w, 'j, 'pq, 'sq, 'r) server_system \<Rightarrow> bool" where
  "conns_inv P h n \<longleftrightarrow>
     log_ok P h (sn_log n) \<and> fst ` set (sn_log n) \<subseteq> dom (sn_http n) \<and> work_logged (sn_log n) (sn_work n) \<and>
     (\<forall>c s. sn_http n c = Some s \<longrightarrow> conn_ok (sn_log n) (sn_work n) c s)"

lemma set_http_fields [simp]:
  "sn_http (set_http c s n) = (sn_http n)(c \<mapsto> s)" "sn_ws (set_http c s n) = sn_ws n"
  "sn_work (set_http c s n) = sn_work n" "sn_log (set_http c s n) = sn_log n"
  by (simp_all add: set_http_def)

lemma threads_run_fields [simp]:
  "sn_ws (threads_run wk n) = sn_ws n" "sn_work (threads_run wk n) = wk" "sn_log (threads_run wk n) = sn_log n"
  by (simp_all add: threads_run_def)

lemma answer_of_iff: "answer_of r = Some answer \<longleftrightarrow> (\<exists>req. r = Some (Work_done req answer))"
  by (cases r rule: answer_of.cases) auto

lemma in_backgrounds: "Pend_background req \<in> set (ss_pending s) \<longleftrightarrow> Pend_background req \<in> set (backgrounds s)"
  by (simp add: backgrounds_def)

lemma session_step_reads: "session_step P ao h s t \<Longrightarrow> Pend_read \<in> set (ss_pending t) \<Longrightarrow> Pend_read \<in> set (ss_pending s)"
  by (induction rule: session_step.induct) auto

text \<open>A handler that has nothing to do with the background does not start a \<open>do_write\<close>.\<close>

lemma session_step_do_write:
  "session_step P ao h s t \<Longrightarrow> session_inv s \<Longrightarrow> backgrounds t = backgrounds s \<Longrightarrow> Pend_do_write res \<in> set (ss_pending t) \<Longrightarrow>
   Pend_do_write res \<in> set (ss_pending s)"
  by (induction rule: session_step.induct) (auto simp: backgrounds_def session_inv_def)

lemma upgrade_allowed: "on_read P ao h r = Read_upgrade req \<Longrightarrow> effect_allowed P h (Opened i req)"
  using on_read_request [of P ao h r req] past_token_check [of P ao h req] by (auto simp: checked_def)

lemma background_allowed: "on_read P ao h r = Read_background req \<Longrightarrow> effect_allowed P h (Routed req)"
  using on_read_request [of P ao h r req] past_token_check [of P ao h req] by (auto simp: checked_def)

text \<open>A pending operation is the only one.\<close>

lemma pending_alone: "session_inv s \<Longrightarrow> ss_pending s = xs @ p # ys \<Longrightarrow> xs = [] \<and> ys = []"
  by (simp add: session_inv_def)

lemma log_ok_snoc:
  "log_ok P h l \<Longrightarrow> c \<notin> fst ` set l \<Longrightarrow> effect_allowed P h e \<Longrightarrow> log_ok P h (l @ [(c, e)])"
  by (auto simp: log_ok_def)

lemma work_logged_none: "work_logged l wk \<Longrightarrow> c \<notin> fst ` set l \<Longrightarrow> wk_request wk c = None"
  unfolding work_logged_def by force

lemma conn_ok_reading:
  assumes "conn_ok l wk c s" and "ss_pending s = xs @ Pend_read # ys"
  shows "session_inv s \<and> ss_requests s = 0 \<and> xs = [] \<and> ys = [] \<and> c \<notin> fst ` set l"
proof -
  have "session_inv s" and unread: "c \<in> fst ` set l \<longrightarrow> Pend_read \<notin> set (ss_pending s)"
    using assms(1) by (simp_all add: conn_ok_def)
  moreover have "Pend_read \<in> set (ss_pending s)" by (simp add: assms(2))
  ultimately show ?thesis
    using pending_alone [OF \<open>session_inv s\<close> assms(2)] by (simp add: session_inv_def)
qed

lemma conn_ok_step:
  assumes "conn_ok l wk c s" and "session_step P ao h s t" and "backgrounds t = backgrounds s"
  shows "conn_ok l wk c t"
  using assms session_step_inv [OF assms(2)] session_step_reads [OF assms(2)] session_step_do_write [OF assms(2) _ assms(3)]
  by (auto simp: conn_ok_def in_backgrounds)

lemma conn_ok_other: "c' \<noteq> c \<Longrightarrow> conn_ok (l @ [(c, e)]) wk c' s = conn_ok l wk c' s"
  by (simp add: conn_ok_def)

lemma conns_inv_known: "conns_inv P h n \<Longrightarrow> sn_http n c = Some s \<Longrightarrow> conn_ok (sn_log n) (sn_work n) c s"
  by (simp add: conns_inv_def)

lemma conns_inv_handler:
  assumes "conns_inv P h n" and "conn_ok (sn_log n) (sn_work n) c s"
  shows "conns_inv P h (set_http c s n)"
  using assms by (auto simp: conns_inv_def)

text \<open>What a step of a thread does to the requests.\<close>

lemma work_next_about: "work_next P R ao p w = (Ret q, w') \<Longrightarrow> work_about req p \<Longrightarrow> work_about req q"
proof (cases p)
  case (Work_start req')
  moreover assume "work_next P R ao p w = (Ret q, w')" "work_about req p"
  ultimately show ?thesis
    by (cases "controller_call R req'") (auto simp: io_return_apply io_bind_Ret_iff work_answer_def)
next
  case (Work_fund req' k)
  moreover assume "work_next P R ao p w = (Ret q, w')" "work_about req p"
  ultimately have "req' = req" "io_catch (io_bind (fund_next (rt_fundamentals R) k) (\<lambda>p'. io_return (fund_work P (rt_json R) ao req' p')))
       (\<lambda>ex. io_return (work_error P ao req' ex)) w = (Ret q, w')" by simp_all
  from this(2,1) show ?thesis
  proof (cases rule: catch_bindE)
    case (1 k')
    with \<open>req' = req\<close> show ?thesis by (cases k') (simp_all add: work_answer_def work_error_def)
  qed (auto simp: work_answer_def work_error_def)
next
  case (Work_duck req' k)
  moreover assume "work_next P R ao p w = (Ret q, w')" "work_about req p"
  ultimately have "req' = req" "io_catch (io_bind (duck_next (rt_duckdb R) k) (\<lambda>p'. io_return (duck_work P (rt_json R) ao req' p')))
       (\<lambda>ex. io_return (work_error P ao req' ex)) w = (Ret q, w')" by simp_all
  from this(2,1) show ?thesis
  proof (cases rule: catch_bindE)
    case (1 k')
    with \<open>req' = req\<close> show ?thesis by (cases k') (simp_all add: work_answer_def work_error_def)
  qed (auto simp: work_answer_def work_error_def)
qed (auto simp: io_return_apply)

lemma worker_step_about:
  assumes "worker_step P R ao s t" and "wk_request s c = Some p" and "work_about req p" and "wk_request t c = Some q"
  shows "work_about req q"
  using assms(1)
proof cases
  case (worker_answers i p' req' answer w')
  with work_next_about [OF worker_answers(4)] assms(2-4) show ?thesis by (auto split: if_splits)
qed (use assms(2-4) work_next_about in \<open>auto split: if_splits\<close>)

text \<open>An answered request stays answered as it is.\<close>

lemma answered_step:
  assumes "worker_step P R ao s t" and ok: "workers_ok N s" and "answer_of (wk_request s c) = Some answer"
  shows "answer_of (wk_request t c) = Some answer"
proof -
  from assms(3) obtain req where wkc: "wk_request s c = Some (Work_done req answer)" by (auto simp: answer_of_iff)
  have "c \<notin> set (wk_running s)" using running_state [OF ok, of c] wkc by force
  moreover have "Run_coroutine c \<notin> set (wk_queue s)" using coroutine_state [OF ok, of c] wkc by auto
  ultimately show ?thesis using assms(1,3) by (auto elim!: worker_stepE)
qed

lemma work_logged_step:
  assumes "work_logged l wk" and "worker_step P R ao wk wk'"
  shows "work_logged l wk'"
  unfolding work_logged_def
proof (intro conjI allI impI)
  fix c req q
  show "(wk_request wk' c \<noteq> None) = (\<exists>req. (c, Routed req) \<in> set l)"
    using assms(1) wk_request_domain [OF assms(2), of c] by (simp add: work_logged_def)
  assume log: "(c, Routed req) \<in> set l" and q: "wk_request wk' c = Some q"
  with wk_request_domain [OF assms(2), of c] obtain p where p: "wk_request wk c = Some p" by fastforce
  with assms(1) log have "work_about req p" by (auto simp: work_logged_def)
  from worker_step_about [OF assms(2) p this q] show "work_about req q" .
qed

lemma conn_ok_thread:
  assumes ok: "conn_ok l wk c s" and logged: "work_logged l wk" and step: "worker_step P R ao wk wk'" and workers: "workers_ok N wk"
  shows "conn_ok l wk' c (case newly_answered wk wk' c of None \<Rightarrow> s | Some answer \<Rightarrow> lambda_returns answer s)"
proof (cases "newly_answered wk wk' c")
  case None
  have "answer_of (wk_request wk' c) = answer_of (wk_request wk c)"
  proof (cases "answer_of (wk_request wk c)")
    case None
    with \<open>newly_answered wk wk' c = None\<close> show ?thesis by (simp add: newly_answered_def)
  next
    case (Some answer)
    with answered_step [OF step workers Some] show ?thesis by simp
  qed
  with ok wk_request_domain [OF step, of c] None show ?thesis by (simp add: conn_ok_def)
next
  case (Some answer)
  then have open_: "answer_of (wk_request wk c) = None" and answered: "answer_of (wk_request wk' c) = Some answer"
    by (simp_all add: newly_answered_def split: if_splits)
  then have "wk_request wk c \<noteq> None" using wk_request_domain [OF step, of c] by (auto simp: answer_of_iff)
  with open_ ok have "backgrounds s \<noteq> []" by (simp add: conn_ok_def)
  then obtain req where "Pend_background req \<in> set (ss_pending s)"
    by (auto simp: backgrounds_def filter_empty_conv elim: is_background.elims)
  then obtain xs ys where "ss_pending s = xs @ Pend_background req # ys" by (meson split_list)
  with pending_alone [of s xs "Pend_background req" ys] ok have pending: "ss_pending s = [Pend_background req]" by (simp add: conn_ok_def)
  with ok answered show ?thesis
    by (auto simp: Some conn_ok_def lambda_returns_def backgrounds_def session_inv_def split: option.splits)
qed

lemma server_step_conns:
  "server_step P ao h R ws_step n m \<Longrightarrow> conns_inv P h n \<Longrightarrow> workers_ok N (sn_work n) \<Longrightarrow> conns_inv P h m"
proof (induction rule: server_step.induct)
  case (connection_accepted n c)
  then have new: "c \<notin> fst ` set (sn_log n)" by (auto simp: conns_inv_def)
  with connection_accepted(2) have "wk_request (sn_work n) c = None" by (intro work_logged_none) (auto simp: conns_inv_def)
  with new have "conn_ok (sn_log n) (sn_work n) c session_run"
    by (simp add: conn_ok_def session_inv_def session_run_def backgrounds_def)
  with connection_accepted show ?case by (simp add: conns_inv_handler)
next
  case (http_handler n c s t)
  from conn_ok_step [OF conns_inv_known [OF http_handler(5,1)] http_handler(2,4)] http_handler(5)
  show ?case by (rule conns_inv_handler [rotated])
next
  case (upgraded n c s xs ys r req i ws')
  from conns_inv_known [OF upgraded(5,1)] have ok: "conn_ok (sn_log n) (sn_work n) c s" .
  note reading = conn_ok_reading [OF this upgraded(2)]
  let ?t = "s\<lparr>ss_pending := xs @ ys, ss_requests := Suc (ss_requests s), ss_upgraded := True\<rparr>"
  let ?l = "sn_log n @ [(c, Opened i req)]"
  from upgraded(5) reading have "wk_request (sn_work n) c = None" by (intro work_logged_none) (auto simp: conns_inv_def)
  with reading have "conn_ok ?l (sn_work n) c ?t" by (simp add: conn_ok_def session_inv_def backgrounds_def)
  moreover have "work_logged ?l (sn_work n)" using upgraded(5) by (simp add: conns_inv_def work_logged_def)
  moreover have "log_ok P h ?l"
    using upgraded(5) reading upgrade_allowed [OF upgraded(3), of i] by (intro log_ok_snoc) (auto simp: conns_inv_def)
  ultimately show ?case using upgraded(1,5) by (auto simp: conns_inv_def conn_ok_other)
next
  case (posted_to_worker n c s xs ys r req)
  from conns_inv_known [OF posted_to_worker(4,1)] have ok: "conn_ok (sn_log n) (sn_work n) c s" .
  note reading = conn_ok_reading [OF this posted_to_worker(2)]
  let ?t = "s\<lparr>ss_pending := xs @ ys @ [Pend_background req], ss_requests := Suc (ss_requests s)\<rparr>"
  let ?l = "sn_log n @ [(c, Routed req)]" and ?wk = "post_request c req (sn_work n)"
  from posted_to_worker(4) have logged: "work_logged (sn_log n) (sn_work n)" by (simp add: conns_inv_def)
  have unlogged: "(c, e) \<notin> set (sn_log n)" for e using reading by force
  have "conn_ok ?l ?wk c ?t" using reading by (simp add: conn_ok_def session_inv_def backgrounds_def)
  moreover have "conn_ok ?l ?wk c' s'" if "c' \<noteq> c" "sn_http n c' = Some s'" for c' s'
    using conns_inv_known [OF posted_to_worker(4) that(2)] that(1) by (simp add: conn_ok_def)
  moreover have "work_logged ?l ?wk"
    using logged unlogged unfolding work_logged_def by auto
  moreover have "log_ok P h ?l"
    using posted_to_worker(4) reading background_allowed [OF posted_to_worker(3)] by (intro log_ok_snoc) (auto simp: conns_inv_def)
  ultimately show ?case using posted_to_worker(1,4) by (auto simp: conns_inv_def)
next
  case (thread_runs n wk)
  from thread_runs(2) have logged: "work_logged (sn_log n) (sn_work n)" by (simp add: conns_inv_def)
  have "conn_ok (sn_log n) wk c s" if "sn_http (threads_run wk n) c = Some s" for c s
  proof -
    from that obtain s0 where s0: "sn_http n c = Some s0"
      "s = (case newly_answered (sn_work n) wk c of None \<Rightarrow> s0 | Some answer \<Rightarrow> lambda_returns answer s0)"
      by (auto simp: threads_run_def split: option.splits)
    from conn_ok_thread [OF conns_inv_known [OF thread_runs(2) s0(1)] logged thread_runs(1,3)] show ?thesis by (simp add: s0(2))
  qed
  moreover have "dom (sn_http (threads_run wk n)) = dom (sn_http n)"
    by (auto simp: threads_run_def split: option.splits)
  ultimately show ?case
    using thread_runs(2) work_logged_step [OF logged thread_runs(1)] by (auto simp: conns_inv_def)
next
  case (web_socket_handler n lab ws')
  then show ?case by (simp add: conns_inv_def)
qed

text \<open>The threads run as before, on the requests that the sessions post.\<close>

lemma server_step_threads:
  "server_step P ao h R ws_step n m \<Longrightarrow> conns_inv P h n \<Longrightarrow> worker_reaches P R ao wk0 (sn_work n) \<Longrightarrow>
   worker_reaches P R ao wk0 (sn_work m)"
proof (induction rule: server_step.induct)
  case (posted_to_worker n c s xs ys r req)
  from conn_ok_reading [OF conns_inv_known [OF posted_to_worker(4,1)] posted_to_worker(2)] posted_to_worker(4)
  have "wk_request (sn_work n) c = None" by (intro work_logged_none) (auto simp: conns_inv_def)
  from reaches_post [OF posted_to_worker(5) this] show ?case by simp
next
  case (thread_runs n wk)
  from reaches_step [OF thread_runs(3,1)] show ?case by simp
qed simp_all

text \<open>The web socket part runs as before, and only sessions that were opened have part in it.\<close>

lemma broker_opens:
  "broker_step e b = Some b' \<Longrightarrow> br_mailbox b' i \<noteq> None \<Longrightarrow> e = Ev_open i \<or> br_mailbox b i \<noteq> None"
  by (cases e) (auto split: if_splits option.splits list.splits)

lemma simulates_live:
  assumes "simulates c lab d"
  shows "sy_live d i \<noteq> None \<Longrightarrow> lab = Some (Ev_open i) \<or> sy_live c i \<noteq> None"
    and "lab = Some (Ev_deliver i m) \<Longrightarrow> sy_live c i \<noteq> None"
proof -
  assume live: "sy_live d i \<noteq> None"
  show "lab = Some (Ev_open i) \<or> sy_live c i \<noteq> None"
  proof (cases lab)
    case None
    with assms have "sys_broker d = sys_broker c" by (simp add: simulates_def)
    then have "br_mailbox (sys_broker d) i = br_mailbox (sys_broker c) i" by simp
    with live show ?thesis by auto
  next
    case (Some e)
    with assms have "broker_step e (sys_broker c) = Some (sys_broker d)" by (simp add: simulates_def)
    from broker_opens [OF this, of i] live Some show ?thesis by auto
  qed
next
  assume "lab = Some (Ev_deliver i m)"
  with assms have "broker_step (Ev_deliver i m) (sys_broker c) = Some (sys_broker d)" by (simp add: simulates_def)
  from broker_delivers_connected [OF this] show "sy_live c i \<noteq> None" by auto
qed

definition opened_ids :: "(nat \<times> effect) list \<Rightarrow> sid set" where
  "opened_ids l = {i. \<exists>c req. (c, Opened i req) \<in> set l}"

definition ws_history ::
    "(('pq, 'sq, 'r) ws_system \<Rightarrow> event list \<Rightarrow> bool) \<Rightarrow> ('w, 'j, 'pq, 'sq, 'r) server_system \<Rightarrow> bool" where
  "ws_history run n \<longleftrightarrow>
     dom (sy_live (sn_ws n)) \<subseteq> opened_ids (sn_log n) \<and>
     (\<exists>es. run (sn_ws n) es \<and> (\<forall>i m. Ev_deliver i m \<in> set es \<longrightarrow> i \<in> opened_ids (sn_log n)))"

lemma opened_ids_snoc: "opened_ids (l @ [(c, e)]) = opened_ids l \<union> (case e of Routed req \<Rightarrow> {} | Opened i req \<Rightarrow> {i})"
  by (auto simp: opened_ids_def split: effect.splits)

lemma ws_history_step:
  assumes "traversal order" and "new_shared_state split now pq sq root topics vm = Ret st"
    and "ws_history (\<lambda>c es. sys_run order Q Pq Rr J split' (new_system redis st) es c) n"
    and "sys_step order Q Pq Rr J split' (sn_ws n) lab ws'" and "sn_ws m = ws'"
    and "opened_ids (sn_log n) \<subseteq> opened_ids (sn_log m)"
    and "\<forall>i. lab = Some (Ev_open i) \<longrightarrow> i \<in> opened_ids (sn_log m)"
  shows "ws_history (\<lambda>c es. sys_run order Q Pq Rr J split' (new_system redis st) es c) m"
proof -
  let ?run = "\<lambda>c es. sys_run order Q Pq Rr J split' (new_system redis st) es c"
  from assms(3) obtain es where run: "?run (sn_ws n) es"
    and es: "\<forall>i m. Ev_deliver i m \<in> set es \<longrightarrow> i \<in> opened_ids (sn_log n)"
    and live: "dom (sy_live (sn_ws n)) \<subseteq> opened_ids (sn_log n)" by (auto simp: ws_history_def)
  from sys_run_start [OF assms(1,2) run] have "sys_inv (sn_ws n)" by simp
  from sys_step_simulates [OF assms(1,4) this] have sim: "simulates (sn_ws n) lab ws'" .
  have "dom (sy_live ws') \<subseteq> opened_ids (sn_log m)"
    using simulates_live(1) [OF sim] live assms(6,7) by blast
  moreover have "?run ws' (es @ (case lab of None \<Rightarrow> [] | Some l \<Rightarrow> [l]))"
    by (rule run_step [OF run assms(4)])
  moreover have "\<forall>i x. Ev_deliver i x \<in> set (es @ (case lab of None \<Rightarrow> [] | Some l \<Rightarrow> [l])) \<longrightarrow> i \<in> opened_ids (sn_log m)"
    using es simulates_live(2) [OF sim] live assms(6) by (cases lab) auto
  ultimately show ?thesis using assms(5) unfolding ws_history_def by blast
qed

lemma server_step_history:
  assumes "traversal order" and "new_shared_state split now pq sq root topics vm = Ret st"
  shows "server_step P ao h R (sys_step order Q Pq Rr J split') n m \<Longrightarrow>
    ws_history (\<lambda>c es. sys_run order Q Pq Rr J split' (new_system redis st) es c) n \<Longrightarrow>
    ws_history (\<lambda>c es. sys_run order Q Pq Rr J split' (new_system redis st) es c) m"
proof (induction rule: server_step.induct)
  case (upgraded n c s xs ys r req i ws')
  show ?case
    by (rule ws_history_step [OF assms upgraded(5,4)]) (auto simp: opened_ids_snoc)
next
  case (web_socket_handler n lab ws')
  show ?case
    by (rule ws_history_step [OF assms web_socket_handler(3,1)]) (use web_socket_handler(2) in auto)
qed (simp_all add: ws_history_def opened_ids_snoc)

lemma server_reachable_inv:
  assumes "traversal order" and "new_shared_state split now pq sq root topics vm = Ret st"
  shows "server_reachable P ao h R (sys_step order Q Pq Rr J split') (new_server_system N w redis st) n \<Longrightarrow>
    conns_inv P h n \<and> worker_reaches P R ao (new_worker_system N w) (sn_work n) \<and>
    ws_history (\<lambda>c es. sys_run order Q Pq Rr J split' (new_system redis st) es c) n"
proof (induction rule: server_reachable.induct)
  case server_start
  have "sys_run order Q Pq Rr J split' (new_system redis st) [] (new_system redis st)" by (rule run_none)
  then show ?case
    by (auto simp: new_server_system_def conns_inv_def log_ok_def work_logged_def ws_history_def reaches_start
        intro!: exI [of _ "[]"])
next
  case (server_next n m)
  then have "worker_reaches P R ao (new_worker_system N w) (sn_work n)" by simp
  from worker_reaches_ok [OF this workers_ok_new] have "workers_ok N (sn_work n)" .
  with server_next server_step_conns [OF server_next(2)] server_step_threads [OF server_next(2)]
    server_step_history [OF assms server_next(2)] show ?case by blast
qed

section \<open>Properties\<close>

text \<open>
  C3: only checked requests have effects, whatever the interleaving of connections, background
  threads and web sockets. Everything a connection causes is in the log, at most one entry per
  connection: a request is handed to the threads when it is no upgrade, has one of five methods,
  is not the health check, and its token is accepted unless validation is off; a web socket
  is opened for an upgrade that passes the check, or whose target is the health check or
  method OPTIONS. The threads have these requests and no other, and the services behind the router
  have seen an interleaving of their calls; every live web socket session was opened so, and so was
  every session that ever got a message.
\<close>
theorem only_checked_requests_have_effects:
  assumes "traversal order" and "new_shared_state split now pq sq root topics vm = Ret st"
    and "server_reachable P ao h R (sys_step order Q Pq Rr J split') (new_server_system N w redis st) n"
  shows "(\<forall>(c, e) \<in> set (sn_log n). effect_allowed P h e) \<and> distinct (map fst (sn_log n)) \<and>
    (\<forall>c. (wk_request (sn_work n) c \<noteq> None) = (\<exists>req. (c, Routed req) \<in> set (sn_log n))) \<and>
    (\<exists>is. call_steps (work_program P R ao) (new_call_system w) is (wk_calls (sn_work n))) \<and>
    (\<forall>i. sy_live (sn_ws n) i \<noteq> None \<longrightarrow> (\<exists>c req. (c, Opened i req) \<in> set (sn_log n))) \<and>
    (\<exists>es. sys_run order Q Pq Rr J split' (new_system redis st) es (sn_ws n) \<and>
      (\<forall>i m. Ev_deliver i m \<in> set es \<longrightarrow> (\<exists>c req. (c, Opened i req) \<in> set (sn_log n))))"
proof -
  from server_reachable_inv [OF assms] have inv: "conns_inv P h n"
    "worker_reaches P R ao (new_worker_system N w) (sn_work n)"
    "ws_history (\<lambda>c es. sys_run order Q Pq Rr J split' (new_system redis st) es c) n" by simp_all
  from inv(1) have "log_ok P h (sn_log n)" and "work_logged (sn_log n) (sn_work n)" by (simp_all add: conns_inv_def)
  moreover have "\<exists>is. call_steps (work_program P R ao) (new_call_system w) is (wk_calls (sn_work n))"
    using worker_reaches_calls [OF inv(2) workers_ok_new] call_steps_none by (metis new_worker_system_fields(8))
  moreover from inv(3) have "\<forall>i. sy_live (sn_ws n) i \<noteq> None \<longrightarrow> i \<in> opened_ids (sn_log n)"
    and "\<exists>es. sys_run order Q Pq Rr J split' (new_system redis st) es (sn_ws n) \<and>
      (\<forall>i m. Ev_deliver i m \<in> set es \<longrightarrow> i \<in> opened_ids (sn_log n))"
    by (auto simp: ws_history_def dom_def)
  ultimately show ?thesis unfolding log_ok_def work_logged_def opened_ids_def mem_Collect_eq by blast
qed

text \<open>
  C4: what a connection is about to send for a request of the background is the answer of the threads to this
  request, and a connection whose request has no answer yet waits for it, with its session kept
  alive by the posted lambda: it waits for ever when the request hangs. For a fund the response
  has status 500 and the text of an exception, or status 200 and the JSON of a model whose URL is
  presigned for the object of this fund and no other, and the object is in the store unless a put of
  it was refused, whatever the other requests are.
\<close>
theorem connections_get_their_answers:
  assumes "traversal order" and "new_shared_state split now pq sq root topics vm = Ret st"
    and "server_reachable P ao h R (sys_step order Q Pq Rr J split') (new_server_system N w redis st) n"
    and "url_laws R cache stored signs" and "cache_ok (cache w) (stored w) signs {}"
    and "(c, Routed req) \<in> set (sn_log n)" and "sn_http n c = Some s"
  shows "(Pend_do_write res \<in> set (ss_pending s) \<longrightarrow>
      wk_request (sn_work n) c = Some (Work_done req (Some res)) \<and>
      (controller_call R req = Call_fundamentals m \<longrightarrow>
        (\<exists>url. res = fund_answer P (rt_json R) ao req m url \<and> signs FUNDAMENTALS_BUCKET_NAME (fundamentals_location (pm_sravzid m)) url \<and>
           ((FUNDAMENTALS_BUCKET_NAME, fundamentals_location (pm_sravzid m)) \<in> stored (wk_world (sn_work n)) \<or>
            fundamentals_location (pm_sravzid m) \<in> refused_puts (fund_states (cs_seen (wk_calls (sn_work n)))))) \<or>
        (\<exists>e. res = error_answer P ao req e))) \<and>
    ((\<forall>answer. wk_request (sn_work n) c \<noteq> Some (Work_done req answer)) \<longrightarrow>
      ss_pending s = [Pend_background req] \<and> session_alive s)"
proof -
  from server_reachable_inv [OF assms(1-3)] have inv: "conns_inv P h n"
    "worker_reaches P R ao (new_worker_system N w) (sn_work n)" by simp_all
  from conns_inv_known [OF inv(1) assms(7)] have ok: "conn_ok (sn_log n) (sn_work n) c s" .
  from inv(1) have logged: "work_logged (sn_log n) (sn_work n)" and once: "distinct (map fst (sn_log n))"
    by (simp_all add: conns_inv_def log_ok_def)
  have about: "req' = req" if "wk_request (sn_work n) c = Some (Work_done req' answer)" for req' answer
    using logged assms(6) that unfolding work_logged_def by (metis work_about.simps(4))
  have written: "wk_request (sn_work n) c = Some (Work_done req (Some res))" if "Pend_do_write res \<in> set (ss_pending s)"
    using ok that about by (auto simp: conn_ok_def answer_of_iff)
  have unanswered: "ss_pending s = [Pend_background req] \<and> session_alive s"
    if "\<forall>answer. wk_request (sn_work n) c \<noteq> Some (Work_done req answer)"
  proof -
    have "answer_of (wk_request (sn_work n) c) = None" using that about by (cases "answer_of (wk_request (sn_work n) c)") (auto simp: answer_of_iff)
    moreover have "wk_request (sn_work n) c \<noteq> None" using logged assms(6) unfolding work_logged_def by blast
    ultimately have "backgrounds s \<noteq> []" using ok by (simp add: conn_ok_def)
    then obtain req' where req': "Pend_background req' \<in> set (ss_pending s)"
      by (auto simp: backgrounds_def filter_empty_conv elim: is_background.elims)
    then obtain xs ys where "ss_pending s = xs @ Pend_background req' # ys" by (meson split_list)
    with pending_alone [of s xs "Pend_background req'" ys] ok have "ss_pending s = [Pend_background req']" by (simp add: conn_ok_def)
    moreover have "(c, Routed req') \<in> set (sn_log n)" using ok req' by (simp add: conn_ok_def)
    with once assms(6) have "req' = req" by (metis effect.inject(1) eq_key_imp_eq_value)
    ultimately show ?thesis by (simp add: session_alive_def)
  qed
  have fund: "(\<exists>url. res = fund_answer P (rt_json R) ao req m url \<and> signs FUNDAMENTALS_BUCKET_NAME (fundamentals_location (pm_sravzid m)) url \<and>
           ((FUNDAMENTALS_BUCKET_NAME, fundamentals_location (pm_sravzid m)) \<in> stored (wk_world (sn_work n)) \<or>
            fundamentals_location (pm_sravzid m) \<in> refused_puts (fund_states (cs_seen (wk_calls (sn_work n)))))) \<or>
        (\<exists>e. res = error_answer P ao req e)"
    if "wk_request (sn_work n) c = Some (Work_done req (Some res))" "controller_call R req = Call_fundamentals m"
    using fund_answered [OF assms(4,5) inv(2) that] by simp
  from written fund unanswered show ?thesis by blast
qed

definition sample_patch :: http_request where
  "sample_patch = sample_request\<lparr>req_method := Verb_patch, req_target := ''/mdb/x''\<rparr>"

definition fund_request :: http_request where
  "fund_request = sample_request\<lparr>req_target := ''/fundamentals''\<rparr>"

text \<open>The server with the router of \<open>Background_System\<close> and one thread.\<close>

type_synonym sample_server =
  "(string \<Rightarrow> string option, jval, (string \<times> string) list, (MsgType \<times> string) list, unit) server_system"

abbreviation sample_server_step :: "sample_server \<Rightarrow> sample_server \<Rightarrow> bool" where
  "sample_server_step \<equiv> server_step sample_params [] sample_session table_router
     (sys_step sorted_list_of_set bounded_queue bounded_queue silent_redis (sample_json subscribe_text) (\<lambda>s. [s]))"

abbreviation sample_server_reachable :: "sample_server \<Rightarrow> bool" where
  "sample_server_reachable \<equiv> server_reachable sample_params [] sample_session table_router
     (sys_step sorted_list_of_set bounded_queue bounded_queue silent_redis (sample_json subscribe_text) (\<lambda>s. [s]))
     (new_server_system 1 Map.empty () sample_state)"

lemma sample_checked:
  "on_read sample_params [] sample_session (Read_ok sample_patch) = Read_background sample_patch"
  "on_read sample_params [] sample_session (Read_ok fund_request) = Read_background fund_request"
  by (simp_all add: on_read_def validate_jwt_token_def handle_request_def substr_def
      sample_params_def sample_session_def sample_request_def sample_patch_def fund_request_def)

definition posted_server :: "http_request \<Rightarrow> sample_server" where
  "posted_server req =
     (set_http 0 (session_run\<lparr>ss_pending := [Pend_background req], ss_requests := 1\<rparr>) (new_server_system 1 Map.empty () sample_state))
       \<lparr>sn_work := post_request 0 req (new_worker_system 1 Map.empty), sn_log := [(0, Routed req)]\<rparr>"

lemma posted_server_reached:
  assumes "on_read sample_params [] sample_session (Read_ok req) = Read_background req"
  shows "sample_server_reachable (posted_server req)"
proof -
  let ?n0 = "new_server_system 1 Map.empty () sample_state :: sample_server"
  let ?n1 = "set_http 0 session_run ?n0"
  have "sample_server_step ?n0 ?n1" by (rule connection_accepted) (simp add: new_server_system_def)
  from server_next [OF server_start this] have r1: "sample_server_reachable ?n1" .
  have "sn_http ?n1 0 = Some session_run" "ss_pending session_run = [] @ Pend_read # []" by (simp_all add: session_run_def)
  from posted_to_worker [where R = table_router, OF this assms(1)]
  have "sample_server_step ?n1 (posted_server req)"
    by (simp add: posted_server_def new_server_system_def set_http_def session_run_def)
  from server_next [OF r1 this] show ?thesis .
qed

lemma fund_request_call: "controller_call table_router fund_request = Call_fundamentals shelf_fund"
  by (simp add: controller_call_def table_router_def fund_request_def sample_request_def shelf_fund_def)

lemma sample_patch_call: "controller_call table_router sample_patch = Call_other"
  by (simp add: controller_call_def table_router_def sample_patch_def sample_request_def)

theorem only_checked_requests_have_effects_witness:
  "\<exists>n. sample_server_reachable n \<and> sn_log n = [(0, Routed sample_patch)] \<and>
     effect_allowed sample_params sample_session (Routed sample_patch) \<and> wk_request (sn_work n) 0 \<noteq> None"
proof -
  have n: "sample_server_reachable (posted_server sample_patch)"
    by (rule posted_server_reached) (rule sample_checked)
  have "sn_log (posted_server sample_patch) = [(0, Routed sample_patch)]" by (simp add: posted_server_def)
  with only_checked_requests_have_effects [OF sorted_traversal sample_state_new n] n show ?thesis by auto
qed

text \<open>The thread runs the request for a fund, whose object is in the store, to its answer.\<close>

lemma server_runs_thread:
  assumes "sample_server_reachable n" and "worker_step sample_params table_router [] (sn_work n) wk"
  shows "sample_server_reachable (threads_run wk n)"
  by (rule server_next [OF assms(1) thread_runs [OF assms(2)]])

lemma threads_run_same:
  "answer_of (wk_request wk 0) = None \<Longrightarrow> sn_http (threads_run wk n) 0 = sn_http n 0"
  by (simp add: threads_run_def newly_answered_def)

lemma server_fund_step:
  assumes n: "sample_server_reachable n" "sn_http n 0 = Some s" "wk_running (sn_work n) = [0]"
      "wk_request (sn_work n) 0 = Some p" "\<not> work_final p"
    and call: "work_next sample_params table_router [] p (wk_world (sn_work n)) = (Ret q, w')" "\<not> work_final q" "\<not> work_waits q"
  shows "\<exists>m. sample_server_reachable m \<and> sn_http m 0 = Some s \<and> wk_running (sn_work m) = [0] \<and> wk_request (sn_work m) 0 = Some q \<and>
    sn_log m = sn_log n \<and> wk_world (sn_work m) = w'"
proof -
  let ?wk = "wk_moved 0 q w' (sn_work n)"
  have "worker_step sample_params table_router [] (sn_work n) ?wk"
    by (rule worker_goes_on [OF _ n(4) call]) (simp add: n(3))
  from server_runs_thread [OF n(1) this] have "sample_server_reachable (threads_run ?wk n)" .
  moreover have "answer_of (wk_request ?wk 0) = None" using call(2) by (cases q) simp_all
  ultimately show ?thesis
    by (intro exI [of _ "threads_run ?wk n"]) (simp add: n(2,3) threads_run_same)
qed

lemma fund_next_full:
  "work_next sample_params table_router [] (Work_start fund_request) w = (Ret (Work_fund fund_request (At_get shelf_fund)), w)"
  "work_next sample_params table_router [] (Work_fund fund_request (At_get m)) w = (Ret (Work_fund fund_request (At_check m)), w)"
  "work_next sample_params table_router [] (Work_fund fund_request (At_check m)) w = (Ret (Work_fund fund_request (At_presign m True)), w)"
  "work_next sample_params table_router [] (Work_fund fund_request (At_presign m there)) w = (Ret (Work_fund fund_request (At_cache m ''u'')), w)"
  "status m = Status_ok \<Longrightarrow> work_next sample_params table_router [] (Work_fund fund_request (At_cache m ''u'')) w =
     (Ret (Work_done fund_request (Some (fund_answer sample_params (rt_json table_router) [] fund_request m ''u''))), w)"
  by (simp add: fund_request_call io_return_apply)
    (simp_all add: table_router_def map_deps_def RedisClient_get_def RedisClient_set_with_expiry_def objectExists_def
      generatePresignedUrl_def fund_answer_def work_answer_def io_catch_def io_bind_def io_return_def)

definition fund_response :: http_response where
  "fund_response = fund_answer sample_params (rt_json table_router) [] fund_request shelf_fund ''u''"

lemma fund_answered_to_connection:
  "\<exists>n s. sample_server_reachable n \<and> sn_log n = [(0, Routed fund_request)] \<and> sn_http n 0 = Some s \<and> ss_pending s = [Pend_do_write fund_response]"
proof -
  let ?n0 = "posted_server fund_request"
  let ?s = "session_run\<lparr>ss_pending := [Pend_background fund_request], ss_requests := 1\<rparr>"
  have r0: "sample_server_reachable ?n0" by (rule posted_server_reached) (rule sample_checked)
  let ?wk = "(sn_work ?n0)\<lparr>wk_queue := [], wk_free := wk_free (sn_work ?n0) - 1, wk_running := wk_running (sn_work ?n0) @ [0]\<rparr>"
  have "worker_step sample_params table_router [] (sn_work ?n0) ?wk" by (rule route_starts) (simp_all add: posted_server_def)
  from server_runs_thread [OF r0 this] have "sample_server_reachable (threads_run ?wk ?n0)" .
  moreover have "sn_http (threads_run ?wk ?n0) 0 = Some ?s" by (subst threads_run_same) (simp_all add: posted_server_def)
  ultimately obtain n1 where n1: "sample_server_reachable n1" "sn_http n1 0 = Some ?s" "wk_running (sn_work n1) = [0]"
    "wk_request (sn_work n1) 0 = Some (Work_start fund_request)" "sn_log n1 = [(0, Routed fund_request)]"
    by (auto simp: posted_server_def intro: that [of "threads_run ?wk ?n0"])
  from server_fund_step [OF n1(1-4) _ fund_next_full(1)] obtain n2 where n2: "sample_server_reachable n2" "sn_http n2 0 = Some ?s"
    "wk_running (sn_work n2) = [0]" "wk_request (sn_work n2) 0 = Some (Work_fund fund_request (At_get shelf_fund))" "sn_log n2 = sn_log n1" by auto
  from server_fund_step [OF n2(1-4) _ fund_next_full(2)] obtain n3 where n3: "sample_server_reachable n3" "sn_http n3 0 = Some ?s"
    "wk_running (sn_work n3) = [0]" "wk_request (sn_work n3) 0 = Some (Work_fund fund_request (At_check shelf_fund))" "sn_log n3 = sn_log n2" by auto
  from server_fund_step [OF n3(1-4) _ fund_next_full(3)] obtain n4 where n4: "sample_server_reachable n4" "sn_http n4 0 = Some ?s"
    "wk_running (sn_work n4) = [0]" "wk_request (sn_work n4) 0 = Some (Work_fund fund_request (At_presign shelf_fund True))" "sn_log n4 = sn_log n3" by auto
  from server_fund_step [OF n4(1-4) _ fund_next_full(4)] obtain n5 where n5: "sample_server_reachable n5" "sn_http n5 0 = Some ?s"
    "wk_running (sn_work n5) = [0]" "wk_request (sn_work n5) 0 = Some (Work_fund fund_request (At_cache shelf_fund ''u''))" "sn_log n5 = sn_log n4" by auto
  have "status shelf_fund = Status_ok" using controller_call_status(1) [OF fund_request_call] .
  note last = fund_next_full(5) [OF this, folded fund_response_def, of "wk_world (sn_work n5)"]
  let ?done = "(wk_moved 0 (Work_done fund_request (Some fund_response)) (wk_world (sn_work n5)) (sn_work n5))
      \<lparr>wk_running := remove1 0 (wk_running (sn_work n5)), wk_free := Suc (wk_free (sn_work n5))\<rparr>"
  have "worker_step sample_params table_router [] (sn_work n5) ?done"
    by (rule worker_answers [OF _ n5(4) last]) (simp add: n5(3))
  from server_runs_thread [OF n5(1) this] have "sample_server_reachable (threads_run ?done n5)" .
  moreover have "sn_http (threads_run ?done n5) 0 = Some (lambda_returns (Some fund_response) ?s)"
    by (simp add: threads_run_def newly_answered_def n5(2,4))
  ultimately show ?thesis
    using n1(5) n2(5) n3(5) n4(5) n5(5)
    by (intro exI [of _ "threads_run ?done n5"] exI [of _ "lambda_returns (Some fund_response) ?s"]) (simp add: lambda_returns_def)
qed

theorem connections_get_their_answers_witness:
  "\<exists>n s. sample_server_reachable n \<and> sn_http n 0 = Some s \<and> Pend_do_write fund_response \<in> set (ss_pending s) \<and>
     wk_request (sn_work n) 0 = Some (Work_done fund_request (Some fund_response))"
proof -
  from fund_answered_to_connection obtain n s where n: "sample_server_reachable n" "sn_log n = [(0, Routed fund_request)]"
    "sn_http n 0 = Some s" "ss_pending s = [Pend_do_write fund_response]" by blast
  have "cache_ok Map.empty UNIV (\<lambda>b k url. url = ''u'') {}" by (simp add: cache_ok_def)
  moreover have "(0, Routed fund_request) \<in> set (sn_log n)" by (simp add: n(2))
  ultimately show ?thesis
    using connections_get_their_answers [OF sorted_traversal sample_state_new n(1) table_url_laws _ _ n(3)] n by auto
qed

end
