(* ===== verification/Ws_Vendor.thy ===== *)
theory Ws_Vendor
  imports Backend_Utils Json_Lib "HOL-Library.Multiset" "HOL-Library.Sublist"
begin

text \<open>
  \<open>src/ws_vendor.cpp\<close>: the client that reads quotes from a vendor's web socket and publishes
  each on the Redis channel of its symbol. Its handlers form a chain (resolve, connect, TLS
  handshake, web socket handshake, write, read, read, ...) that runs on several threads of one
  \<open>io_context\<close>; every thread has its own read buffer and Redis connection in \<open>threadsInfo_\<close>.

  \<open>vs_pending\<close> is the asynchronous operation in flight; the results of the operations are
  arguments of the handlers. Redis and the number of the running thread are parameters.
\<close>

section \<open>State\<close>

type_synonym tid = nat

record 'r ThreadInfo =
  ti_buffer :: string
  ti_redis :: "'r option" \<comment> \<open>\<open>None\<close> is the null pointer of the default constructor\<close>

datatype vendor_op =
    V_resolve string string
  | V_connect
  | V_ssl_handshake
  | V_handshake string string
  | V_write string
  | V_read tid \<comment> \<open>into the buffer of this thread\<close>

record 'r vendor_session =
  vs_host :: string
  vs_text :: string
  vs_endpoint :: string
  vs_threadsInfo :: "tid \<Rightarrow> 'r ThreadInfo option"
  vs_pending :: "vendor_op option"
  vs_errors :: "string list"
  vs_published :: "(string \<times> string) list" \<comment> \<open>channel and message, for the specifications\<close>
  vs_refused :: "(string \<times> string) list" \<comment> \<open>those whose command threw, for the specifications\<close>

definition default_ThreadInfo :: "'r ThreadInfo" where
  "default_ThreadInfo = \<lparr>ti_buffer = [], ti_redis = None\<rparr>"

definition vendor_fail :: "string \<Rightarrow> string \<Rightarrow> 'r vendor_session \<Rightarrow> 'r vendor_session" where
  "vendor_fail ec where_text s = s\<lparr>vs_errors := vs_errors s @ [where_text @ '': '' @ ec]\<rparr>"

text \<open>\<open>std::map::insert\<close> keeps an entry that exists.\<close>

definition register_thread ::
    "environment \<Rightarrow> connection_options \<Rightarrow> (connection_options \<Rightarrow> 'r) \<Rightarrow> tid \<Rightarrow> 'r vendor_session \<Rightarrow> 'r vendor_session outcome" where
  "register_thread E opts0 connect t s =
     out_bind (GetRedisConnectionOptions E opts0) (\<lambda>opts.
       Ret (case vs_threadsInfo s t of
              Some info \<Rightarrow> s
            | None \<Rightarrow> s\<lparr>vs_threadsInfo := (vs_threadsInfo s)
                         (t \<mapsto> \<lparr>ti_buffer = [], ti_redis = Some (connect opts)\<rparr>)\<rparr>))"

definition new_vendor_session ::
    "environment \<Rightarrow> connection_options \<Rightarrow> (connection_options \<Rightarrow> 'r) \<Rightarrow> tid \<Rightarrow> 'r vendor_session outcome" where
  "new_vendor_session E opts0 connect t =
     register_thread E opts0 connect t
       \<lparr>vs_host = [], vs_text = [], vs_endpoint = [], vs_threadsInfo = Map.empty, vs_pending = None,
        vs_errors = [], vs_published = [], vs_refused = []\<rparr>"

section \<open>Handlers\<close>

definition vendor_run :: "string \<Rightarrow> string \<Rightarrow> string \<Rightarrow> string \<Rightarrow> 'r vendor_session \<Rightarrow> 'r vendor_session" where
  "vendor_run host port text_to_send endpoint s =
     s\<lparr>vs_host := host, vs_text := text_to_send, vs_endpoint := endpoint, vs_pending := Some (V_resolve host port)\<rparr>"

definition on_resolve :: "string option \<Rightarrow> 'r vendor_session \<Rightarrow> 'r vendor_session" where
  "on_resolve ec s =
     (case ec of Some e \<Rightarrow> vendor_fail e ''resolve'' s | None \<Rightarrow> s\<lparr>vs_pending := Some V_connect\<rparr>)"

text \<open>\<open>sni\<close> is the error of setting the server name, \<open>port\<close> the port of the endpoint.\<close>

definition on_connect :: "string option \<Rightarrow> string option \<Rightarrow> nat \<Rightarrow> 'r vendor_session \<Rightarrow> 'r vendor_session" where
  "on_connect ec sni port s =
     (case ec of
        Some e \<Rightarrow> vendor_fail e ''connect'' s
      | None \<Rightarrow>
          (case sni of
             Some e \<Rightarrow> vendor_fail e ''connect'' s
           | None \<Rightarrow> s\<lparr>vs_host := vs_host s @ '':'' @ to_string port, vs_pending := Some V_ssl_handshake\<rparr>))"

definition on_ssl_handshake :: "string option \<Rightarrow> 'r vendor_session \<Rightarrow> 'r vendor_session" where
  "on_ssl_handshake ec s =
     (case ec of
        Some e \<Rightarrow> vendor_fail e ''ssl_handshake'' s
      | None \<Rightarrow> s\<lparr>vs_pending := Some (V_handshake (vs_host s) (vs_endpoint s))\<rparr>)"

definition on_handshake :: "string option \<Rightarrow> 'r vendor_session \<Rightarrow> 'r vendor_session" where
  "on_handshake ec s =
     (case ec of
        Some e \<Rightarrow> vendor_fail e ''handshake'' s
      | None \<Rightarrow> s\<lparr>vs_pending := Some (V_write (vs_text s))\<rparr>)"

text \<open>\<open>threadsInfo_[id]\<close>: a thread without an entry gets a default one.\<close>

definition thread_entry :: "tid \<Rightarrow> 'r vendor_session \<Rightarrow> 'r ThreadInfo" where
  "thread_entry t s = (case vs_threadsInfo s t of Some info \<Rightarrow> info | None \<Rightarrow> default_ThreadInfo)"

definition set_entry :: "tid \<Rightarrow> 'r ThreadInfo \<Rightarrow> 'r vendor_session \<Rightarrow> 'r vendor_session" where
  "set_entry t info s = s\<lparr>vs_threadsInfo := (vs_threadsInfo s)(t \<mapsto> info)\<rparr>"

definition start_read :: "tid \<Rightarrow> 'r vendor_session \<Rightarrow> 'r vendor_session" where
  "start_read t s = (set_entry t (thread_entry t s) s)\<lparr>vs_pending := Some (V_read t)\<rparr>"

definition vendor_on_write :: "tid \<Rightarrow> string option \<Rightarrow> 'r vendor_session \<Rightarrow> 'r vendor_session" where
  "vendor_on_write t ec s =
     (case ec of Some e \<Rightarrow> vendor_fail e ''write'' s | None \<Rightarrow> start_read t s)"

text \<open>The channel of a message: the field \<open>s\<close> of the object it denotes.\<close>

definition message_symbol :: "'j json_lib \<Rightarrow> string \<Rightarrow> exn + string" where
  "message_symbol J message =
     (case js_parse J \<lparr>allow_comments = True, allow_trailing_commas = True\<rparr> message of
        Inl e \<Rightarrow> Inl e
      | Inr val \<Rightarrow>
     (case js_as_object J val of
        Inl e \<Rightarrow> Inl e
      | Inr obj \<Rightarrow> (case js_at J obj ''s'' of Inl e \<Rightarrow> Inl e | Inr v \<Rightarrow> js_to_string J v)))"

text \<open>
  \<open>publish channel message\<close> is the Redis command. The null pointer of an unregistered thread is
  dereferenced after the message was parsed.
\<close>

definition vendor_on_read ::
    "'j json_lib \<Rightarrow> (string \<Rightarrow> string \<Rightarrow> 'r \<Rightarrow> (exn + unit) \<times> 'r) \<Rightarrow> tid \<Rightarrow> string option \<Rightarrow>
     ('r vendor_session, unit) io" where
  "vendor_on_read J publish t ec s =
     (case ec of
        Some e \<Rightarrow> (Ret (), vendor_fail e ''read'' s)
      | None \<Rightarrow>
          (let info = thread_entry t s; message = ti_buffer info
           in case message_symbol J message of
                Inl e \<Rightarrow> (Ret (), start_read t (set_entry t (info\<lparr>ti_buffer := []\<rparr>) s))
              | Inr channel \<Rightarrow>
                  (case ti_redis info of
                     None \<Rightarrow> (Abort, set_entry t info s)
                   | Some redis \<Rightarrow>
                       (case publish channel message redis of
                          (Inl e, r) \<Rightarrow>
                            (Ret (), start_read t (set_entry t \<lparr>ti_buffer = [], ti_redis = Some r\<rparr>
                                       (s\<lparr>vs_refused := vs_refused s @ [(channel, message)]\<rparr>)))
                        | (Inr u, r) \<Rightarrow>
                            (Ret (), start_read t (set_entry t \<lparr>ti_buffer = [], ti_redis = Some r\<rparr>
                                       (s\<lparr>vs_published := vs_published s @ [(channel, message)]\<rparr>)))))))"

section \<open>A sequence of reads\<close>

text \<open>
  The message of a completed read is in the buffer that the pending operation reads into; the
  handler runs on some thread of the pool.
\<close>

definition vendor_deliver :: "string \<Rightarrow> 'r vendor_session \<Rightarrow> 'r vendor_session" where
  "vendor_deliver m s =
     (case vs_pending s of
        Some (V_read t) \<Rightarrow> set_entry t ((thread_entry t s)\<lparr>ti_buffer := ti_buffer (thread_entry t s) @ m\<rparr>) s
      | _ \<Rightarrow> s)"

fun vendor_reads ::
    "'j json_lib \<Rightarrow> (string \<Rightarrow> string \<Rightarrow> 'r \<Rightarrow> (exn + unit) \<times> 'r) \<Rightarrow> (tid \<times> string) list \<Rightarrow>
     ('r vendor_session, unit) io" where
  "vendor_reads J publish [] = io_return ()"
| "vendor_reads J publish ((t, m) # events) = (\<lambda>s.
     io_seq (vendor_on_read J publish t None) (vendor_reads J publish events) (vendor_deliver m s))"

text \<open>The threads of the process: the main thread and \<open>threads - 1\<close> others, all registered.\<close>

definition ws_vendor_threads :: "int \<Rightarrow> tid list" where
  "ws_vendor_threads threads = [0..<Suc (nat (threads - 1))]"

fun register_threads ::
    "environment \<Rightarrow> connection_options \<Rightarrow> (connection_options \<Rightarrow> 'r) \<Rightarrow> tid list \<Rightarrow> 'r vendor_session \<Rightarrow> 'r vendor_session outcome" where
  "register_threads E opts0 connect [] s = Ret s"
| "register_threads E opts0 connect (t # ts) s =
     out_bind (register_thread E opts0 connect t s) (register_threads E opts0 connect ts)"

definition ws_vendor ::
    "environment \<Rightarrow> connection_options \<Rightarrow> (connection_options \<Rightarrow> 'r) \<Rightarrow> string \<Rightarrow> string \<Rightarrow> string \<Rightarrow> string \<Rightarrow> int \<Rightarrow>
     'r vendor_session outcome" where
  "ws_vendor E opts0 connect host port text_to_send endpoint threads =
     out_bind (new_vendor_session E opts0 connect 0) (\<lambda>s.
       register_threads E opts0 connect (tl (ws_vendor_threads threads))
         (vendor_run host port text_to_send endpoint s))"

section \<open>Lemmas\<close>

definition buffer_of :: "'r vendor_session \<Rightarrow> tid \<Rightarrow> string" where
  "buffer_of s t = ti_buffer (thread_entry t s)"

definition as_published :: "'j json_lib \<Rightarrow> string \<Rightarrow> (string \<times> string) list" where
  "as_published J m = (case message_symbol J m of Inl e \<Rightarrow> [] | Inr c \<Rightarrow> [(c, m)])"

text \<open>A state between two handlers: a read is pending into an empty buffer, all threads are registered.\<close>

definition reading :: "tid set \<Rightarrow> tid \<Rightarrow> 'r vendor_session \<Rightarrow> bool" where
  "reading T t0 s \<longleftrightarrow>
     finite T \<and> t0 \<in> T \<and> vs_pending s = Some (V_read t0) \<and> buffer_of s t0 = [] \<and>
     (\<forall>t \<in> T. \<exists>r. ti_redis (thread_entry t s) = Some r)"

definition publish_total :: "(string \<Rightarrow> string \<Rightarrow> 'r \<Rightarrow> (exn + unit) \<times> 'r) \<Rightarrow> bool" where
  "publish_total publish \<longleftrightarrow> (\<forall>c m r. \<exists>r'. publish c m r = (Inr (), r'))"

definition ignores_empty :: "'j json_lib \<Rightarrow> bool" where
  "ignores_empty J \<longleftrightarrow> (\<exists>e. js_parse J \<lparr>allow_comments = True, allow_trailing_commas = True\<rparr> [] = Inl e)"

lemma thread_entry_set [simp]: "thread_entry t (set_entry t' info s) = (if t = t' then info else thread_entry t s)"
  by (simp add: thread_entry_def set_entry_def)

lemma thread_entry_other [simp]:
  "thread_entry t (s\<lparr>vs_pending := p\<rparr>) = thread_entry t s"
  "thread_entry t (s\<lparr>vs_published := ps\<rparr>) = thread_entry t s"
  "thread_entry t (s\<lparr>vs_refused := ps\<rparr>) = thread_entry t s"
  by (simp_all add: thread_entry_def)

lemma set_entry_fields [simp]:
  "vs_pending (set_entry t info s) = vs_pending s"
  "vs_published (set_entry t info s) = vs_published s"
  "vs_refused (set_entry t info s) = vs_refused s"
  by (simp_all add: set_entry_def)

lemma start_read_fields [simp]:
  "thread_entry t (start_read t' s) = thread_entry t s"
  "vs_pending (start_read t' s) = Some (V_read t')"
  "vs_published (start_read t' s) = vs_published s"
  "vs_refused (start_read t' s) = vs_refused s"
  by (auto simp: start_read_def)

text \<open>
  One read: the message goes to the buffer of \<open>t0\<close> and the buffer of \<open>t\<close> is published, or refused when
  the command throws.
\<close>

lemma read_step:
  fixes m :: string
  assumes s: "reading T t0 s" and t: "t \<in> T"
  defines "B \<equiv> (buffer_of s)(t0 := m)"
  obtains s' acc rej where "vendor_on_read J publish t None (vendor_deliver m s) = (Ret (), s')" and "reading T t s'"
    and "vs_published s' = vs_published s @ acc" and "vs_refused s' = vs_refused s @ rej" and "buffer_of s' = B(t := [])"
    and "acc = as_published J (B t) \<and> rej = [] \<or> acc = [] \<and> rej = as_published J (B t)" and "publish_total publish \<Longrightarrow> rej = []"
proof -
  let ?d = "vendor_deliver m s"
  from s have d: "buffer_of ?d = B" "vs_published ?d = vs_published s" "vs_refused ?d = vs_refused s"
    "\<forall>u. ti_redis (thread_entry u ?d) = ti_redis (thread_entry u s)"
    by (auto simp: reading_def vendor_deliver_def buffer_of_def B_def fun_eq_iff)
  from s t d(4) obtain r where r: "ti_redis (thread_entry t ?d) = Some r" by (auto simp: reading_def)
  have msg: "ti_buffer (thread_entry t ?d) = B t" using d(1) by (simp add: buffer_of_def fun_eq_iff)
  have others: "\<forall>u \<in> T. \<exists>r. ti_redis (thread_entry u ?d) = Some r" using s d(4) by (simp add: reading_def)
  have buf: "buffer_of s' = B(t := [])"
    if "\<forall>u. ti_buffer (thread_entry u s') = (if u = t then [] else ti_buffer (thread_entry u ?d))" for s' :: "'r vendor_session"
    using that d(1) by (auto simp: buffer_of_def fun_eq_iff)
  show thesis
  proof (cases "message_symbol J (B t)")
    case (Inl e)
    let ?s' = "start_read t (set_entry t ((thread_entry t ?d)\<lparr>ti_buffer := []\<rparr>) ?d)"
    show thesis
    proof (rule that [of ?s' "[]" "[]"])
      show "vendor_on_read J publish t None ?d = (Ret (), ?s')"
        unfolding vendor_on_read_def Let_def option.case msg Inl by simp
      show "reading T t ?s'" using s t others by (auto simp: reading_def buffer_of_def)
      show "buffer_of ?s' = B(t := [])" by (rule buf) simp
    qed (simp_all add: d(2,3) as_published_def Inl)
  next
    case (Inr c)
    obtain x r' where p: "publish c (B t) r = (x, r')" by fastforce
    let ?entry = "\<lparr>ti_buffer = [], ti_redis = Some r'\<rparr>"
    show thesis
    proof (cases x)
      case (Inl e)
      let ?s' = "start_read t (set_entry t ?entry (?d\<lparr>vs_refused := vs_refused ?d @ [(c, B t)]\<rparr>))"
      show thesis
      proof (rule that [of ?s' "[]" "[(c, B t)]"])
        show "vendor_on_read J publish t None ?d = (Ret (), ?s')"
          unfolding vendor_on_read_def Let_def option.case msg Inr sum.case r p Inl by simp
        show "reading T t ?s'" using s t others by (auto simp: reading_def buffer_of_def)
        show "buffer_of ?s' = B(t := [])" by (rule buf) simp
        show "publish_total publish \<Longrightarrow> [(c, B t)] = []" using p Inl by (metis Inl_Inr_False fst_conv publish_total_def)
      qed (simp_all add: d(2,3) as_published_def Inr)
    next
      case (Inr u)
      let ?s' = "start_read t (set_entry t ?entry (?d\<lparr>vs_published := vs_published ?d @ [(c, B t)]\<rparr>))"
      show thesis
      proof (rule that [of ?s' "[(c, B t)]" "[]"])
        show "vendor_on_read J publish t None ?d = (Ret (), ?s')"
          unfolding vendor_on_read_def Let_def option.case msg \<open>message_symbol J (B t) = Inr c\<close> sum.case r p Inr by simp
        show "reading T t ?s'" using s t others by (auto simp: reading_def buffer_of_def)
        show "buffer_of ?s' = B(t := [])" by (rule buf) simp
      qed (simp_all add: d(2,3) as_published_def \<open>message_symbol J (B t) = Inr c\<close>)
    qed
  qed
qed

lemma one_thread_reads:
  "reading {t} t s \<Longrightarrow>
    \<exists>s' acc rej. vendor_reads J publish (map (Pair t) ms) s = (Ret (), s') \<and>
      vs_published s' = vs_published s @ acc \<and> vs_refused s' = vs_refused s @ rej \<and>
      subseq acc (concat (map (as_published J) ms)) \<and> (rej = [] \<longrightarrow> acc = concat (map (as_published J) ms)) \<and>
      (publish_total publish \<longrightarrow> rej = [])"
proof (induction ms arbitrary: s)
  case Nil
  then show ?case by (simp add: io_return_apply)
next
  case (Cons m ms)
  from read_step [OF Cons.prems, where t = t and m = m and J = J and publish = publish, unfolded fun_upd_same] obtain s1 acc rej where
    s1: "vendor_on_read J publish t None (vendor_deliver m s) = (Ret (), s1)" "reading {t} t s1"
      "vs_published s1 = vs_published s @ acc" "vs_refused s1 = vs_refused s @ rej"
      "acc = as_published J m \<and> rej = [] \<or> acc = [] \<and> rej = as_published J m" "publish_total publish \<Longrightarrow> rej = []"
    by blast
  from Cons.IH [OF s1(2)] obtain s' acc' rej' where
    s': "vendor_reads J publish (map (Pair t) ms) s1 = (Ret (), s')"
      "vs_published s' = vs_published s1 @ acc'" "vs_refused s' = vs_refused s1 @ rej'"
      "subseq acc' (concat (map (as_published J) ms))" "rej' = [] \<longrightarrow> acc' = concat (map (as_published J) ms)"
      "publish_total publish \<longrightarrow> rej' = []" by blast
  have "subseq (acc @ acc') (as_published J m @ concat (map (as_published J) ms))"
    using s1(5) s'(4) by (intro list_emb_append_mono) auto
  with s1 s' show ?case
    by (intro exI [of _ s'] exI [of _ "acc @ acc'"] exI [of _ "rej @ rej'"]) (auto simp: io_seq_Ret)
qed

lemma sum_upd:
  fixes f :: "string \<Rightarrow> 'b multiset"
  assumes "finite T" "t \<in> T"
  shows "(\<Sum>u\<in>T. f ((B(t := y)) u)) + f (B t) = (\<Sum>u\<in>T. f (B u)) + f y"
proof -
  have "(\<Sum>u\<in>T - {t}. f ((B(t := y)) u)) = (\<Sum>u\<in>T - {t}. f (B u))" by (rule sum.cong) auto
  with assms show ?thesis by (simp add: sum.remove [of T t])
qed

text \<open>The messages that sit in a buffer.\<close>

definition held_back :: "'j json_lib \<Rightarrow> tid set \<Rightarrow> 'r vendor_session \<Rightarrow> (string \<times> string) multiset" where
  "held_back J T s = (\<Sum>t\<in>T. mset (as_published J (buffer_of s t)))"

lemma many_threads_reads:
  assumes empty: "ignores_empty J"
  shows "reading T t0 s \<Longrightarrow> fst ` set events \<subseteq> T \<Longrightarrow>
    \<exists>s'. vendor_reads J publish events s = (Ret (), s') \<and>
      mset (vs_published s') + mset (vs_refused s') + held_back J T s' =
      mset (vs_published s) + mset (vs_refused s) + held_back J T s + mset (concat (map (as_published J \<circ> snd) events)) \<and>
      (publish_total publish \<longrightarrow> vs_refused s' = vs_refused s)"
proof (induction events arbitrary: s t0)
  case Nil
  then show ?case by (simp add: io_return_apply)
next
  case (Cons ev events)
  obtain t m where ev: "ev = (t, m)" by (cases ev)
  from Cons.prems ev have t: "t \<in> T" by simp
  let ?B = "(buffer_of s)(t0 := m)"
  from read_step [OF Cons.prems(1) t, where m = m and J = J and publish = publish] obtain s1 acc rej where
    s1: "vendor_on_read J publish t None (vendor_deliver m s) = (Ret (), s1)" "reading T t s1"
      "vs_published s1 = vs_published s @ acc" "vs_refused s1 = vs_refused s @ rej" "buffer_of s1 = ?B(t := [])"
      "acc = as_published J (?B t) \<and> rej = [] \<or> acc = [] \<and> rej = as_published J (?B t)" "publish_total publish \<Longrightarrow> rej = []"
    by blast
  from s1(6) have split: "mset acc + mset rej = mset (as_published J (?B t))" by auto
  have nil: "as_published J [] = []"
    using empty by (auto simp: ignores_empty_def as_published_def message_symbol_def)
  from Cons.prems(1) have fin: "finite T" "t0 \<in> T" "buffer_of s t0 = []" by (auto simp: reading_def)
  have "held_back J T s + mset (as_published J m) = (\<Sum>u\<in>T. mset (as_published J (?B u)))"
    using sum_upd [OF fin(1,2), of "\<lambda>x. mset (as_published J x)" "buffer_of s" m] by (simp add: held_back_def fin(3) nil)
  moreover have "held_back J T s1 + mset (as_published J (?B t)) = (\<Sum>u\<in>T. mset (as_published J (?B u)))"
    using sum_upd [OF fin(1) t, of "\<lambda>x. mset (as_published J x)" ?B "[]"] by (simp add: held_back_def s1(5) nil)
  ultimately have swap: "held_back J T s1 + (mset acc + mset rej) = held_back J T s + mset (as_published J m)"
    unfolding split by simp
  have "mset (vs_published s1) + mset (vs_refused s1) + held_back J T s1 =
      mset (vs_published s) + mset (vs_refused s) + (held_back J T s1 + (mset acc + mset rej))"
    unfolding s1(3,4) mset_append by (simp only: ac_simps)
  also have "\<dots> = mset (vs_published s) + mset (vs_refused s) + held_back J T s + mset (as_published J m)"
    unfolding swap by (simp only: ac_simps)
  finally have one: "mset (vs_published s1) + mset (vs_refused s1) + held_back J T s1 = \<dots>" .
  from Cons.prems(2) have "fst ` set events \<subseteq> T" by simp
  from Cons.IH [OF s1(2) this] obtain s' where
    rest: "vendor_reads J publish events s1 = (Ret (), s')"
    "mset (vs_published s') + mset (vs_refused s') + held_back J T s' =
      mset (vs_published s1) + mset (vs_refused s1) + held_back J T s1 + mset (concat (map (as_published J \<circ> snd) events))"
    "publish_total publish \<longrightarrow> vs_refused s' = vs_refused s1" by blast
  moreover have "vendor_reads J publish (ev # events) s = (Ret (), s')"
    using s1(1) rest(1) by (simp add: ev io_seq_Ret)
  ultimately show ?case using one s1(4,7) by (intro exI [of _ s']) (simp add: ev ac_simps comp_def)
qed

section \<open>Properties\<close>

text \<open>
  With one thread the client relays in order: of any sequence of messages, those that are objects
  with a string field \<open>s\<close> are published, unchanged, on the channel of that field, in the order they
  arrived and each once, except the ones whose command throws, which are lost; when none throws
  nothing is missing.
\<close>
theorem single_thread_relays_in_order:
  assumes "reading {t} t s"
  shows "\<exists>s' acc rej. vendor_reads J publish (map (Pair t) ms) s = (Ret (), s') \<and>
     vs_published s' = vs_published s @ acc \<and> vs_refused s' = vs_refused s @ rej \<and>
     subseq acc (concat (map (as_published J) ms)) \<and> (rej = [] \<longrightarrow> acc = concat (map (as_published J) ms)) \<and>
     (publish_total publish \<longrightarrow> rej = [])"
  by (rule one_thread_reads [OF assms])

text \<open>Two registered threads; a read of thread 0 is pending.\<close>

definition two_threads :: "unit vendor_session" where
  "two_threads =
     \<lparr>vs_host = ''v'', vs_text = [], vs_endpoint = [],
      vs_threadsInfo = [0 \<mapsto> \<lparr>ti_buffer = [], ti_redis = Some ()\<rparr>, 1 \<mapsto> \<lparr>ti_buffer = [], ti_redis = Some ()\<rparr>],
      vs_pending = Some (V_read 0), vs_errors = [], vs_published = [], vs_refused = []\<rparr>"

definition quote_texts :: "string \<Rightarrow> jval option" where
  "quote_texts m =
     (if m = ''q1'' then Some (JObject [(''s'', JString ''A'')]) else if m = ''q2'' then Some (JObject [(''s'', JString ''B'')])
      else if m = ''q3'' then Some (JObject [(''s'', JString ''C'')]) else None)"

definition quote_json :: "jval json_lib" where
  "quote_json = sample_json quote_texts"

definition accept_publish :: "string \<Rightarrow> string \<Rightarrow> unit \<Rightarrow> (exn + unit) \<times> unit" where
  "accept_publish c m r = (Inr (), ())"

lemma two_threads_reading: "reading {0} 0 two_threads" "reading {0, 1} 0 two_threads"
  by (simp_all add: reading_def two_threads_def buffer_of_def thread_entry_def)

lemma accept_publish_total: "publish_total accept_publish"
  by (simp add: publish_total_def accept_publish_def)

lemma quote_published:
  "as_published quote_json ''q1'' = [(''A'', ''q1'')]" "as_published quote_json ''q2'' = [(''B'', ''q2'')]"
  "as_published quote_json ''q3'' = [(''C'', ''q3'')]" "as_published quote_json ''x'' = []" "as_published quote_json [] = []"
  by (simp_all add: as_published_def message_symbol_def quote_json_def sample_json_def quote_texts_def)

theorem single_thread_relays_in_order_witness:
  "\<exists>s'. vendor_reads quote_json accept_publish (map (Pair 0) [''q1'', ''x'', ''q2'']) two_threads = (Ret (), s') \<and>
     vs_published s' = [(''A'', ''q1''), (''B'', ''q2'')]"
  using single_thread_relays_in_order [OF two_threads_reading(1), of quote_json accept_publish "[''q1'', ''x'', ''q2'']"]
    accept_publish_total by (auto simp: quote_published two_threads_def)

text \<open>
  C38: with several threads the per-thread buffers hold messages back. After any sequence of reads whose
  handlers run on registered threads, the messages that arrived and name a channel (those that parse as an object with
  a string field \<open>s\<close>; the others are dropped), together with the ones that were in the buffers before, are
  the published messages, the refused ones, whose Redis command threw and which are lost, and the ones that
  now sit in the buffers, each once. When no command throws none is refused. What a buffer holds is
  published only when a handler runs on its thread again, so the order is not kept.
\<close>
theorem many_threads_hold_messages_back:
  assumes "ignores_empty J" and "reading T t0 s" and "fst ` set events \<subseteq> T"
  shows "\<exists>s'. vendor_reads J publish events s = (Ret (), s') \<and>
     mset (vs_published s') + mset (vs_refused s') + held_back J T s' =
     mset (vs_published s) + mset (vs_refused s) + held_back J T s + mset (concat (map (as_published J \<circ> snd) events)) \<and>
     (publish_total publish \<longrightarrow> vs_refused s' = vs_refused s)"
  by (rule many_threads_reads [OF assms])

lemma ignores_empty_quote: "ignores_empty quote_json"
  by (simp add: ignores_empty_def quote_json_def sample_json_def quote_texts_def)

text \<open>A connection that refuses one of the messages.\<close>

definition refuse_q1 :: "string \<Rightarrow> string \<Rightarrow> unit \<Rightarrow> (exn + unit) \<times> unit" where
  "refuse_q1 c m r = (if m = ''q1'' then Inl (Library_exception ''connection lost'') else Inr (), ())"

theorem many_threads_hold_messages_back_witness:
  "(\<exists>s'. vendor_reads quote_json accept_publish [(1, ''q1''), (1, ''q2''), (0, ''q3'')] two_threads = (Ret (), s') \<and>
     mset (vs_published s') + held_back quote_json {0, 1} s' = {#(''A'', ''q1''), (''B'', ''q2''), (''C'', ''q3'')#}) \<and>
   (\<exists>s'. vendor_reads quote_json refuse_q1 [(1, ''q1''), (1, ''q2''), (0, ''q3'')] two_threads = (Ret (), s') \<and>
     mset (vs_published s') + mset (vs_refused s') + held_back quote_json {0, 1} s' =
       {#(''A'', ''q1''), (''B'', ''q2''), (''C'', ''q3'')#})"
proof -
  have none: "held_back quote_json {0, 1} two_threads = {#}"
    by (simp add: held_back_def buffer_of_def thread_entry_def two_threads_def quote_published)
  have start: "vs_published two_threads = []" "vs_refused two_threads = []" by (simp_all add: two_threads_def)
  note run = many_threads_hold_messages_back [OF ignores_empty_quote two_threads_reading(2),
      of "[(1, ''q1''), (1, ''q2''), (0, ''q3'')]"]
  from run [of accept_publish] run [of refuse_q1] accept_publish_total show ?thesis
    by (auto simp: quote_published none start simp del: One_nat_def vendor_reads.simps)
qed

text \<open>
  Two threads reorder quotes. The handlers of three reads run on the threads 1, 1 and 0: the
  second message is published first, the first one after it, and the third stays in a buffer.
\<close>
theorem two_threads_reorder:
  "\<exists>s'. vendor_reads quote_json accept_publish [(1, ''q1''), (1, ''q2''), (0, ''q3'')] two_threads = (Ret (), s') \<and>
     vs_published s' = [(''B'', ''q2''), (''A'', ''q1'')] \<and> buffer_of s' 1 = ''q3''"
proof -
  have m: "message_symbol quote_json ''q1'' = Inr ''A''" "message_symbol quote_json ''q2'' = Inr ''B''"
    "message_symbol quote_json ''q3'' = Inr ''C''" "isl (message_symbol quote_json [])"
    by (simp_all add: message_symbol_def quote_json_def sample_json_def quote_texts_def)
  then obtain e where e: "message_symbol quote_json [] = Inl e" by (cases "message_symbol quote_json []") auto
  show ?thesis
    by (simp add: io_seq_def io_bind_def io_return_def vendor_deliver_def vendor_on_read_def start_read_def set_entry_def
        thread_entry_def two_threads_def m e accept_publish_def buffer_of_def Let_def)
qed

end
