(* ===== verification/Redis_Uploader.thy ===== *)
theory Redis_Uploader
  imports Subscriber
begin

text \<open>
  \<open>src/redis_subscriber.cpp\<close> and \<open>src/redis_uploader.cpp\<close>: the process that copies ticks from
  Redis channels into Redis time series. Three loops run on a pool of three threads and are
  joined by two bounded queues: \<open>subscribe\<close> pushes every message, \<open>parse\<close> drops the ones that
  are malformed or older than the newest one, and \<open>publish\<close> collects points and stores
  them with one \<open>TS.MADD\<close> command per batch.

  \<open>log_info\<close> says whether the severity filter lets records of level \<open>info\<close> through: only
  then are the operands of the log statements evaluated, and those can throw.
\<close>

section \<open>State\<close>

record 'j point_lib =
  pt_json :: "'j json_lib"
  pt_to_long :: "'j \<Rightarrow> exn + int" \<comment> \<open>\<open>boost::json::value_to<long>\<close>\<close>

record ('mq, 'jq, 'r) uploader =
  topics_list :: string
  redis_consumer :: 'r
  redis_publisher :: 'r
  spsc_queue_parse :: 'mq
  spsc_queue_points :: 'jq

definition REDIS_BATCH_SIZE :: int where
  "REDIS_BATCH_SIZE = 10"

definition new_uploader :: "string \<Rightarrow> 'r \<Rightarrow> 'mq \<Rightarrow> 'jq \<Rightarrow> ('mq, 'jq, 'r) uploader" where
  "new_uploader topics redis mq jq =
     \<lparr>topics_list = topics, redis_consumer = redis, redis_publisher = redis,
      spsc_queue_parse = mq, spsc_queue_points = jq\<rparr>"

text \<open>The member copy of the waiting loop of \<open>include/sravz.hpp\<close>.\<close>

definition get_message_with_backoff_member ::
    "('q, 'a) spsc \<Rightarrow> (nat \<Rightarrow> 'q \<Rightarrow> 'q) \<Rightarrow> 'q \<Rightarrow> ('a \<times> 'q \<times> nat list) option" where
  "get_message_with_backoff_member Q sleep q = backoff_loop 5 Q sleep 0 q []"

lemma backoff_member_same: "get_message_with_backoff_member = get_message_with_backoff"
  by (intro ext) (simp add: get_message_with_backoff_member_def get_message_with_backoff_def EXPONENTIAL_BACKOFF_LIMIT_def)

text \<open>A queue that has a message gives it at once.\<close>

lemma no_waiting:
  "sp_pop Q q = Some (m, q') \<Longrightarrow> get_message_with_backoff_member Q sleep q = Some (m, q', [])"
  by (simp add: get_message_with_backoff_member_def backoff_loop.simps)

section \<open>subscribe\<close>

fun subscribe_topics :: "'r redis_sub \<Rightarrow> string list \<Rightarrow> (('mq, 'jq, 'r) uploader, unit) io" where
  "subscribe_topics R [] = io_return ()"
| "subscribe_topics R (topic # topics) = (\<lambda>u.
     case rsub_subscribe R topic (redis_consumer u) of
       (Inl e, r) \<Rightarrow> (Throw e, u\<lparr>redis_consumer := r\<rparr>)
     | (Inr x, r) \<Rightarrow> subscribe_topics R topics (u\<lparr>redis_consumer := r\<rparr>))"

definition consume_message ::
    "('mq, string) spsc \<Rightarrow> 'r redis_sub \<Rightarrow> ('mq, 'jq, 'r) uploader \<Rightarrow> ('mq, 'jq, 'r) uploader" where
  "consume_message Q R u =
     (case rsub_consume R (redis_consumer u) of
        (Inl e, r) \<Rightarrow> u\<lparr>redis_consumer := r\<rparr>
      | (Inr None, r) \<Rightarrow> u\<lparr>redis_consumer := r\<rparr>
      | (Inr (Some (channel, msg)), r) \<Rightarrow>
          u\<lparr>redis_consumer := r, spsc_queue_parse := snd (sp_push Q msg (spsc_queue_parse u))\<rparr>)"

text \<open>The loop has no exit; \<open>n\<close> bounds the rounds that are looked at.\<close>

definition uploader_subscribe ::
    "nat \<Rightarrow> ('mq, string) spsc \<Rightarrow> 'r redis_sub \<Rightarrow> (string \<Rightarrow> string list) \<Rightarrow> (('mq, 'jq, 'r) uploader, unit) io" where
  "uploader_subscribe n Q R split u =
     io_seq (subscribe_topics R (split (topics_list u)))
       (\<lambda>u'. (Ret (), (consume_message Q R ^^ n) u')) u"

section \<open>parse\<close>

text \<open>The new timestamp, and an exception, nothing (\<open>continue\<close>) or the object to push.\<close>

definition parse_point ::
    "'j point_lib \<Rightarrow> bool \<Rightarrow> int \<Rightarrow> string \<Rightarrow> int \<times> (exn + 'j option)" where
  "parse_point L log_info last_timestamp msg =
     (case js_parse (pt_json L) \<lparr>allow_comments = True, allow_trailing_commas = True\<rparr> msg of
        Inl e \<Rightarrow> (last_timestamp, Inl e)
      | Inr val \<Rightarrow>
     (case js_as_object (pt_json L) val of
        Inl e \<Rightarrow> (last_timestamp, Inl e)
      | Inr obj \<Rightarrow>
     (case js_at (pt_json L) obj ''t'' of
        Inl e \<Rightarrow> (last_timestamp, Inl e)
      | Inr t \<Rightarrow>
     (case pt_to_long L t of
        Inl e \<Rightarrow> (last_timestamp, Inl e)
      | Inr cur_last_timestamp \<Rightarrow>
          if cur_last_timestamp < last_timestamp then (last_timestamp, Inr None)
          else
            (cur_last_timestamp,
             if log_info
             then (case (js_at (pt_json L) obj ''s'', js_at (pt_json L) obj ''p'') of
                     (Inr _, Inr _) \<Rightarrow> Inr (Some obj)
                   | (Inl e, _) \<Rightarrow> Inl e
                   | (_, Inl e) \<Rightarrow> Inl e)
             else Inr (Some obj))))))"

definition parse_iteration ::
    "('mq, string) spsc \<Rightarrow> ('jq, 'j) spsc \<Rightarrow> (nat \<Rightarrow> 'mq \<Rightarrow> 'mq) \<Rightarrow> 'j point_lib \<Rightarrow> bool \<Rightarrow>
     (int \<times> ('mq, 'jq, 'r) uploader, unit) io" where
  "parse_iteration Q P sleep L log_info = (\<lambda>(last_timestamp, u).
     case get_message_with_backoff_member Q sleep (spsc_queue_parse u) of
       None \<Rightarrow> (Blocked, (last_timestamp, u))
     | Some (msg, q, slept) \<Rightarrow>
         (let u1 = u\<lparr>spsc_queue_parse := q\<rparr>
          in case parse_point L log_info last_timestamp msg of
               (newest', Inr (Some obj)) \<Rightarrow>
                 (Ret (), (newest', u1\<lparr>spsc_queue_points := snd (sp_push P obj (spsc_queue_points u1))\<rparr>))
             | (newest', r) \<Rightarrow> (Ret (), (newest', u1))))"

section \<open>publish\<close>

record 'r batch =
  bt_count :: int
  bt_result :: "string list"
  bt_redis :: 'r
  bt_sent :: "string list list" \<comment> \<open>the commands that succeeded, for the specifications\<close>

definition new_batch :: "'r \<Rightarrow> 'r batch" where
  "new_batch redis = \<lparr>bt_count = 0, bt_result = [''TS.MADD''], bt_redis = redis, bt_sent = []\<rparr>"

text \<open>What the three \<open>push_back\<close> calls append, and whether all three were reached.\<close>

definition point_fields :: "'j point_lib \<Rightarrow> 'j \<Rightarrow> string list \<times> bool" where
  "point_fields L obj =
     (let J = pt_json L;
          field_text = (\<lambda>k. case js_at J obj k of Inl e \<Rightarrow> Inl e | Inr v \<Rightarrow> js_to_string J v);
          field_long = (\<lambda>k. case js_at J obj k of Inl e \<Rightarrow> Inl e | Inr v \<Rightarrow> pt_to_long L v)
      in case field_text ''s'' of
           Inl e \<Rightarrow> ([], False)
         | Inr s \<Rightarrow>
        (case field_long ''t'' of
           Inl e \<Rightarrow> ([s], False)
         | Inr t \<Rightarrow>
        (case field_text ''p'' of
           Inl e \<Rightarrow> ([s, int_to_string t], False)
         | Inr p \<Rightarrow> ([s, int_to_string t, p], True))))"

text \<open>
  One object. The log statement stands before the \<open>try\<close> block, so an exception of its operands
  ends the thread.
\<close>

definition publish_point ::
    "'j point_lib \<Rightarrow> (string list \<Rightarrow> 'r \<Rightarrow> (exn + unit) \<times> 'r) \<Rightarrow> bool \<Rightarrow> 'j \<Rightarrow> ('r batch, unit) io" where
  "publish_point L command log_info obj b =
     (if log_info \<and> list_ex (\<lambda>k. isl (js_at (pt_json L) obj k)) [''s'', ''p'', ''t'']
      then (Throw (Out_of_range ''out of range''), b)
      else
        (case point_fields L obj of
           (pushed, complete) \<Rightarrow>
             (let b1 = b\<lparr>bt_result := bt_result b @ pushed\<rparr>
              in if \<not> complete then (Ret (), b1)
                 else if REDIS_BATCH_SIZE \<le> bt_count b1
                 then (case command (bt_result b1) (bt_redis b1) of
                         (Inl e, r) \<Rightarrow> (Ret (), b1\<lparr>bt_redis := r\<rparr>)
                       | (Inr x, r) \<Rightarrow>
                           (Ret (), b1\<lparr>bt_redis := r, bt_count := 0, bt_result := take 1 (bt_result b1),
                                       bt_sent := bt_sent b1 @ [bt_result b1]\<rparr>))
                 else (Ret (), b1\<lparr>bt_count := bt_count b1 + 1\<rparr>))))"

fun publish_points ::
    "'j point_lib \<Rightarrow> (string list \<Rightarrow> 'r \<Rightarrow> (exn + unit) \<times> 'r) \<Rightarrow> bool \<Rightarrow> 'j list \<Rightarrow> ('r batch, unit) io" where
  "publish_points L command log_info [] = io_return ()"
| "publish_points L command log_info (obj # objs) =
     io_seq (publish_point L command log_info obj) (publish_points L command log_info objs)"

definition publish_iteration ::
    "('jq, 'j) spsc \<Rightarrow> (nat \<Rightarrow> 'jq \<Rightarrow> 'jq) \<Rightarrow> 'j point_lib \<Rightarrow> (string list \<Rightarrow> 'r \<Rightarrow> (exn + unit) \<times> 'r) \<Rightarrow> bool \<Rightarrow>
     ('jq \<times> 'r batch, unit) io" where
  "publish_iteration P sleep L command log_info = (\<lambda>(q, b).
     case get_message_with_backoff_member P sleep q of
       None \<Rightarrow> (Blocked, (q, b))
     | Some (obj, q', slept) \<Rightarrow>
         (case publish_point L command log_info obj b of (out, b') \<Rightarrow> (out, (q', b'))))"

section \<open>run\<close>

text \<open>\<open>run\<close> posts the three loops to the executor, and the process gives them three threads.\<close>

datatype uploader_loop = Subscribe_loop | Parse_loop | Publish_loop

definition uploader_run :: "uploader_loop list" where
  "uploader_run = [Subscribe_loop, Parse_loop, Publish_loop]"

record uploader_process =
  ur_threads :: nat
  ur_posted :: "uploader_loop list"
  ur_signals :: "string list"

definition redis_uploader :: uploader_process where
  "redis_uploader = \<lparr>ur_threads = 3, ur_posted = uploader_run, ur_signals = [''SIGINT'', ''SIGTERM'']\<rparr>"

section \<open>Lemmas on parsing\<close>

definition timestamp :: "'j point_lib \<Rightarrow> 'j \<Rightarrow> exn + int" where
  "timestamp L obj = (case js_at (pt_json L) obj ''t'' of Inl e \<Rightarrow> Inl e | Inr t \<Rightarrow> pt_to_long L t)"

text \<open>The objects that a sequence of messages pushes.\<close>

fun parsed :: "'j point_lib \<Rightarrow> bool \<Rightarrow> int \<Rightarrow> string list \<Rightarrow> 'j list" where
  "parsed L log_info newest [] = []"
| "parsed L log_info newest (msg # msgs) =
     (case parse_point L log_info newest msg of
        (newest', Inr (Some obj)) \<Rightarrow> obj # parsed L log_info newest' msgs
      | (newest', r) \<Rightarrow> parsed L log_info newest' msgs)"

lemma parse_point_mono: "newest \<le> fst (parse_point L log_info newest msg)"
  by (auto simp: parse_point_def split: sum.split)

lemma parse_point_pushes:
  "parse_point L log_info newest msg = (newest', Inr (Some obj)) \<Longrightarrow> timestamp L obj = Inr newest'"
  by (auto simp: parse_point_def timestamp_def split: sum.splits if_splits)

lemma parsed_stamps:
  "\<exists>ts. map (timestamp L) (parsed L log_info newest msgs) = map Inr ts \<and> sorted ts \<and> (\<forall>t \<in> set ts. newest \<le> t)"
proof (induction msgs arbitrary: newest)
  case (Cons msg msgs)
  obtain newest' r where pp: "parse_point L log_info newest msg = (newest', r)" by (cases "parse_point L log_info newest msg")
  with parse_point_mono [of newest L log_info msg] have le: "newest \<le> newest'" by simp
  from Cons.IH [of newest'] obtain ts where
    ts: "map (timestamp L) (parsed L log_info newest' msgs) = map Inr ts" "sorted ts" "\<forall>t \<in> set ts. newest' \<le> t" by blast
  show ?case
  proof (cases "\<exists>obj. r = Inr (Some obj)")
    case True
    then obtain obj where r: "r = Inr (Some obj)" ..
    with parse_point_pushes [of L log_info newest msg newest' obj] pp
    have "timestamp L obj = Inr newest'" by simp
    with pp r ts le show ?thesis by (intro exI [of _ "newest' # ts"]) auto
  next
    case False
    then have "parsed L log_info newest (msg # msgs) = parsed L log_info newest' msgs"
      by (auto simp: pp split: sum.split option.split)
    with ts le show ?thesis by (intro exI [of _ ts]) auto
  qed
qed (intro exI [of _ "[]"], simp)

section \<open>Lemmas on batches\<close>

definition good_point :: "'j point_lib \<Rightarrow> 'j \<Rightarrow> bool" where
  "good_point L obj \<longleftrightarrow> snd (point_fields L obj)"

lemma good_point_log:
  "good_point L obj \<Longrightarrow> list_ex (\<lambda>k. isl (js_at (pt_json L) obj k)) [''s'', ''p'', ''t''] = False"
  by (auto simp: good_point_def point_fields_def Let_def isl_def split: sum.splits)

lemma good_point_fields: "good_point L obj \<Longrightarrow> length (fst (point_fields L obj)) = 3"
  by (auto simp: good_point_def point_fields_def Let_def split: sum.splits)

text \<open>
  The operands of the log statement: with the same severity filter, \<open>parse\<close> pushes only objects for which they can
  be evaluated, so the statement never ends the thread of \<open>publish\<close>.
\<close>

definition loggable :: "'j point_lib \<Rightarrow> 'j \<Rightarrow> bool" where
  "loggable L obj \<longleftrightarrow> \<not> list_ex (\<lambda>k. isl (js_at (pt_json L) obj k)) [''s'', ''p'', ''t'']"

lemma parse_point_loggable:
  "parse_point L log_info newest msg = (newest', Inr (Some obj)) \<Longrightarrow> log_info \<longrightarrow> loggable L obj"
  by (auto simp: parse_point_def loggable_def isl_def split: sum.splits if_splits)

lemma parsed_loggable: "obj \<in> set (parsed L log_info newest msgs) \<Longrightarrow> log_info \<longrightarrow> loggable L obj"
proof (induction msgs arbitrary: newest)
  case (Cons msg msgs)
  obtain newest' x where pp: "parse_point L log_info newest msg = (newest', x)" by fastforce
  with Cons parse_point_loggable [of L log_info newest msg newest'] show ?case
    by (auto split: sum.splits option.splits)
qed simp

lemma publish_point_returns: "log_info \<longrightarrow> loggable L obj \<Longrightarrow> \<exists>b'. publish_point L command log_info obj b = (Ret (), b')"
  by (auto simp: publish_point_def loggable_def Let_def split: prod.split sum.split)

text \<open>
  Whatever the points are, what was stored and what is pending are the fields that their \<open>push_back\<close> calls
  appended, in order and each once.
\<close>

definition kept :: "'j point_lib \<Rightarrow> 'j list \<Rightarrow> 'r batch \<Rightarrow> bool" where
  "kept L done_objs b \<longleftrightarrow>
     bt_result b \<noteq> [] \<and> concat (map tl (bt_sent b)) @ tl (bt_result b) = concat (map (\<lambda>obj. fst (point_fields L obj)) done_objs)"

lemma new_batch_kept: "kept L [] (new_batch r)"
  by (simp add: kept_def new_batch_def)

lemma publish_point_kept:
  assumes "publish_point L command log_info obj b = (Ret (), b')" and "kept L done_objs b"
  shows "kept L (done_objs @ [obj]) b'"
proof -
  obtain x xs where b: "bt_result b = x # xs" using assms(2) by (cases "bt_result b") (auto simp: kept_def)
  from assms b show ?thesis
    by (auto simp: publish_point_def kept_def Let_def split: prod.splits sum.splits if_splits)
qed

text \<open>The step for a good point: one more point is pending, or a command succeeds or fails.\<close>

lemma publish_point_good:
  assumes "good_point L obj"
  defines "args \<equiv> fst (point_fields L obj)"
  shows "publish_point L command log_info obj b =
    (if REDIS_BATCH_SIZE \<le> bt_count b
     then (case command (bt_result b @ args) (bt_redis b) of
             (Inl e, r) \<Rightarrow> (Ret (), b\<lparr>bt_result := bt_result b @ args, bt_redis := r\<rparr>)
           | (Inr x, r) \<Rightarrow>
               (Ret (), b\<lparr>bt_count := 0, bt_result := take 1 (bt_result b @ args), bt_redis := r,
                          bt_sent := bt_sent b @ [bt_result b @ args]\<rparr>))
     else (Ret (), b\<lparr>bt_count := bt_count b + 1, bt_result := bt_result b @ args\<rparr>))"
proof -
  from assms obtain pushed where f: "point_fields L obj = (pushed, True)"
    by (cases "point_fields L obj") (simp add: good_point_def)
  show ?thesis
    unfolding publish_point_def good_point_log [OF assms(1)] args_def f Let_def
    by (simp split: prod.split sum.split)
qed

definition batch_inv :: "'j point_lib \<Rightarrow> 'j list \<Rightarrow> 'r batch \<Rightarrow> bool" where
  "batch_inv L done_objs b \<longleftrightarrow>
     take 1 (bt_result b) = [''TS.MADD''] \<and> 0 \<le> bt_count b \<and> bt_count b \<le> REDIS_BATCH_SIZE \<and>
     concat (map tl (bt_sent b)) @ tl (bt_result b) = concat (map (\<lambda>obj. fst (point_fields L obj)) done_objs) \<and>
     (\<exists>n. length (bt_result b) = 3 * n + 1 \<and> bt_count b \<le> int n) \<and>
     (\<forall>c \<in> set (bt_sent b). hd c = ''TS.MADD'' \<and> 34 \<le> length c \<and> length c mod 3 = 1)"

lemma take_1_append: "take 1 xs = [x] \<Longrightarrow> take 1 (xs @ ys) = [x] \<and> hd (xs @ ys) = x \<and> tl (xs @ ys) = tl xs @ ys"
  by (cases xs) auto

lemma batch_inv_step:
  assumes inv: "batch_inv L done_objs b" and good: "good_point L obj"
  shows "\<exists>b'. publish_point L command log_info obj b = (Ret (), b') \<and> batch_inv L (done_objs @ [obj]) b'"
proof -
  define args where "args = fst (point_fields L obj)"
  have len: "length args = 3" using good_point_fields [OF good] by (simp add: args_def)
  from inv obtain n where n: "length (bt_result b) = 3 * n + 1" "bt_count b \<le> int n" by (auto simp: batch_inv_def)
  from inv have hd1: "take 1 (bt_result b) = [''TS.MADD'']" by (simp add: batch_inv_def)
  from n len have n': "length (bt_result b @ args) = 3 * Suc n + 1" by simp
  show ?thesis
  proof (cases "REDIS_BATCH_SIZE \<le> bt_count b")
    case False
    have "batch_inv L (done_objs @ [obj]) (b\<lparr>bt_count := bt_count b + 1, bt_result := bt_result b @ args\<rparr>)"
      unfolding batch_inv_def using inv False n' n(2) take_1_append [OF hd1, of args]
      by (auto simp: batch_inv_def args_def intro!: exI [of _ "Suc n"])
    with False show ?thesis unfolding publish_point_good [OF good] args_def by simp
  next
    case True
    obtain x r where c: "command (bt_result b @ args) (bt_redis b) = (x, r)" by (cases "command (bt_result b @ args) (bt_redis b)")
    show ?thesis
    proof (cases x)
      case (Inl e)
      have "batch_inv L (done_objs @ [obj]) (b\<lparr>bt_result := bt_result b @ args, bt_redis := r\<rparr>)"
        unfolding batch_inv_def using inv n' n(2) take_1_append [OF hd1, of args]
        by (auto simp: batch_inv_def args_def intro!: exI [of _ "Suc n"])
      with True c Inl show ?thesis unfolding publish_point_good [OF good] args_def by simp
    next
      case (Inr u)
      have "34 \<le> length (bt_result b @ args)" "length (bt_result b @ args) mod 3 = 1"
        using n' n(2) True by (auto simp: REDIS_BATCH_SIZE_def)
      then have "batch_inv L (done_objs @ [obj]) (b\<lparr>bt_count := 0, bt_result := take 1 (bt_result b @ args),
          bt_redis := r, bt_sent := bt_sent b @ [bt_result b @ args]\<rparr>)"
        unfolding batch_inv_def using inv take_1_append [OF hd1, of args]
        by (auto simp: batch_inv_def args_def REDIS_BATCH_SIZE_def intro!: exI [of _ 0])
      with True c Inr show ?thesis unfolding publish_point_good [OF good] args_def by simp
    qed
  qed
qed

lemma batch_inv_points:
  "batch_inv L done_objs b \<Longrightarrow> list_all (good_point L) objs \<Longrightarrow>
   \<exists>b'. publish_points L command log_info objs b = (Ret (), b') \<and> batch_inv L (done_objs @ objs) b'"
proof (induction objs arbitrary: done_objs b)
  case Nil
  then show ?case by (simp add: io_return_apply)
next
  case (Cons obj objs)
  then obtain b1 where b1: "publish_point L command log_info obj b = (Ret (), b1)" "batch_inv L (done_objs @ [obj]) b1"
    using batch_inv_step [OF Cons.prems(1), of obj command log_info] by auto
  from Cons.IH [OF b1(2)] Cons.prems(2) b1(1) show ?case by (auto simp: io_seq_Ret)
qed

lemma new_batch_inv: "batch_inv L [] (new_batch r)"
  by (simp add: batch_inv_def new_batch_def REDIS_BATCH_SIZE_def)

text \<open>When every command succeeds, the batches have a fixed size.\<close>

definition full_batches :: "'j list \<Rightarrow> 'r batch \<Rightarrow> bool" where
  "full_batches done_objs b \<longleftrightarrow>
     take 1 (bt_result b) = [''TS.MADD''] \<and>
     (\<exists>n \<le> 10. bt_count b = int n \<and> length (bt_result b) = 3 * n + 1 \<and>
        length done_objs = 11 * length (bt_sent b) + n) \<and>
     (\<forall>c \<in> set (bt_sent b). length c = 34)"

lemma full_batches_step:
  assumes inv: "full_batches done_objs b" and good: "good_point L obj"
    and total: "\<forall>args r. \<exists>r'. command args r = (Inr (), r')"
  shows "\<exists>b'. publish_point L command log_info obj b = (Ret (), b') \<and> full_batches (done_objs @ [obj]) b'"
proof -
  define args where "args = fst (point_fields L obj)"
  have len: "length args = 3" using good_point_fields [OF good] by (simp add: args_def)
  from inv obtain n where n: "n \<le> 10" "bt_count b = int n" "length (bt_result b) = 3 * n + 1"
    "length done_objs = 11 * length (bt_sent b) + n" by (auto simp: full_batches_def)
  from inv have hd1: "take 1 (bt_result b) = [''TS.MADD'']" by (simp add: full_batches_def)
  note hd2 = take_1_append [OF hd1, of args]
  show ?thesis
  proof (cases "n = 10")
    case True
    from total obtain r where c: "command (bt_result b @ args) (bt_redis b) = (Inr (), r)" by blast
    have "full_batches (done_objs @ [obj]) (b\<lparr>bt_count := 0, bt_result := take 1 (bt_result b @ args),
          bt_redis := r, bt_sent := bt_sent b @ [bt_result b @ args]\<rparr>)"
      unfolding full_batches_def using inv n len True hd2 by (auto simp: full_batches_def)
    then show ?thesis
      unfolding publish_point_good [OF good] args_def [symmetric] using n True c by (simp add: REDIS_BATCH_SIZE_def)
  next
    case False
    have "full_batches (done_objs @ [obj]) (b\<lparr>bt_count := bt_count b + 1, bt_result := bt_result b @ args\<rparr>)"
      unfolding full_batches_def using inv n len False hd2
      by (auto simp: full_batches_def intro!: exI [of _ "Suc n"])
    then show ?thesis
      unfolding publish_point_good [OF good] args_def [symmetric] using n False by (simp add: REDIS_BATCH_SIZE_def)
  qed
qed

lemma full_batches_points:
  assumes total: "\<forall>args r. \<exists>r'. command args r = (Inr (), r')"
  shows "full_batches done_objs b \<Longrightarrow> list_all (good_point L) objs \<Longrightarrow>
   \<exists>b'. publish_points L command log_info objs b = (Ret (), b') \<and> full_batches (done_objs @ objs) b'"
proof (induction objs arbitrary: done_objs b)
  case Nil
  then show ?case by (simp add: io_return_apply)
next
  case (Cons obj objs)
  then obtain b1 where b1: "publish_point L command log_info obj b = (Ret (), b1)" "full_batches (done_objs @ [obj]) b1"
    using full_batches_step [OF Cons.prems(1) _ total, of L obj log_info] by auto
  from Cons.IH [OF b1(2)] Cons.prems(2) b1(1) show ?case by (auto simp: io_seq_Ret)
qed

text \<open>
  What Redis documents about \<open>TS.MADD\<close>: a command whose arguments are not triples is rejected.
\<close>

definition rejects_bad_arity :: "(string list \<Rightarrow> 'r \<Rightarrow> (exn + unit) \<times> 'r) \<Rightarrow> bool" where
  "rejects_bad_arity command \<longleftrightarrow> (\<forall>args r. length args mod 3 \<noteq> 1 \<longrightarrow> (\<exists>e. fst (command args r) = Inl e))"

text \<open>
  The strings that points append, modulo the three of a triple. While the argument list has an incomplete
  triple, no command succeeds and nothing is taken out of it.
\<close>

definition leftover :: "'j point_lib \<Rightarrow> 'j list \<Rightarrow> nat" where
  "leftover L objs = length (concat (map (\<lambda>obj. fst (point_fields L obj)) objs)) mod 3"

lemma leftover_good: "list_all (good_point L) objs \<Longrightarrow> leftover L (xs @ objs) = leftover L xs"
proof (induction objs arbitrary: xs)
  case (Cons obj objs)
  then have "leftover L ((xs @ [obj]) @ objs) = leftover L (xs @ [obj])" by (intro Cons.IH) simp
  moreover have "leftover L (xs @ [obj]) = leftover L xs"
    using good_point_fields [of L obj] Cons.prems by (simp add: leftover_def)
  ultimately show ?case unfolding append_assoc append_Cons append_Nil by (rule trans)
qed simp

lemma misaligned_step:
  assumes rej: "rejects_bad_arity command" and "log_info \<longrightarrow> loggable L obj"
    and "length (bt_result b @ fst (point_fields L obj)) mod 3 \<noteq> 1"
  shows "\<exists>b'. publish_point L command log_info obj b = (Ret (), b') \<and> bt_sent b' = bt_sent b \<and>
    bt_result b' = bt_result b @ fst (point_fields L obj)"
proof -
  obtain e r where "command (bt_result b @ fst (point_fields L obj)) (bt_redis b) = (Inl e, r)"
    using rej assms(3) unfolding rejects_bad_arity_def by (metis prod.collapse)
  with assms(2) show ?thesis
    by (cases "point_fields L obj") (simp add: publish_point_def loggable_def Let_def)
qed

lemma misaligned_stuck:
  assumes rej: "rejects_bad_arity command"
  shows "\<forall>obj \<in> set objs. log_info \<longrightarrow> loggable L obj \<Longrightarrow> length (bt_result b) mod 3 = (1 + leftover L done_objs) mod 3 \<Longrightarrow>
    \<forall>k \<le> length objs. leftover L (done_objs @ take k objs) \<noteq> 0 \<Longrightarrow>
    \<exists>b'. publish_points L command log_info objs b = (Ret (), b') \<and> bt_sent b' = bt_sent b \<and>
      bt_result b' = bt_result b @ concat (map (\<lambda>obj. fst (point_fields L obj)) objs)"
proof (induction objs arbitrary: b done_objs)
  case Nil
  then show ?case by (simp add: io_return_apply)
next
  case (Cons obj objs)
  let ?args = "fst (point_fields L obj)"
  have more: "length (bt_result b @ ?args) mod 3 = (1 + leftover L (done_objs @ [obj])) mod 3"
    using Cons.prems(2)
      mod_add_cong [of "length (bt_result b)" 3 _ "length ?args" "length ?args"] by (simp add: leftover_def mod_simps)
  from Cons.prems(3) have "leftover L (done_objs @ take 1 (obj # objs)) \<noteq> 0" by (metis One_nat_def Suc_leI length_greater_0_conv list.distinct(1))
  then have "leftover L (done_objs @ [obj]) \<noteq> 0" by simp
  moreover have "leftover L (done_objs @ [obj]) < 3" by (simp add: leftover_def)
  ultimately have "(1 + leftover L (done_objs @ [obj])) mod 3 \<noteq> 1"
    by (cases "leftover L (done_objs @ [obj]) = 1"; cases "leftover L (done_objs @ [obj]) = 2") auto
  with more have "length (bt_result b @ ?args) mod 3 \<noteq> 1" by simp
  from misaligned_step [OF rej _ this, of log_info] Cons.prems(1) obtain b1 where
    b1: "publish_point L command log_info obj b = (Ret (), b1)" "bt_sent b1 = bt_sent b" "bt_result b1 = bt_result b @ ?args" by auto
  have "\<forall>k \<le> length objs. leftover L ((done_objs @ [obj]) @ take k objs) \<noteq> 0"
  proof (intro allI impI)
    fix k assume "k \<le> length objs"
    then have "leftover L (done_objs @ take (Suc k) (obj # objs)) \<noteq> 0" using Cons.prems(3) by (metis Suc_le_mono length_Cons)
    then show "leftover L ((done_objs @ [obj]) @ take k objs) \<noteq> 0" by simp
  qed
  from Cons.IH [OF _ _ this, of b1] Cons.prems(1) more b1 show ?case by (auto simp: io_seq_Ret)
qed

lemma publish_points_append:
  "publish_points L command log_info (xs @ ys) =
     io_seq (publish_points L command log_info xs) (publish_points L command log_info ys)"
  by (induction xs) (simp_all add: io_seq_def io_bind_assoc)

section \<open>Properties\<close>

text \<open>
  The parser delivers an increasing stream. Whatever messages arrive, the points it hands
  to the publisher carry timestamps in non-decreasing order and none is negative.
\<close>
theorem uploader_timestamps_sorted:
  "\<exists>ts. map (timestamp L) (parsed L log_info 0 msgs) = map Inr ts \<and> sorted ts \<and> (\<forall>t \<in> set ts. 0 \<le> t)"
  by (rule parsed_stamps)

definition tick :: "string \<Rightarrow> int \<Rightarrow> string \<Rightarrow> jval" where
  "tick s t p = JObject [(''s'', JString s), (''t'', JInt t), (''p'', JString p)]"

definition tick_texts :: "string \<Rightarrow> jval option" where
  "tick_texts m = (if m = ''m1'' then Some (tick ''A'' 5 ''1.0'') else if m = ''m2'' then Some (tick ''A'' 3 ''1.1'')
     else if m = ''m3'' then Some (tick ''A'' 8 ''1.2'') else None)"

definition sample_points :: "jval point_lib" where
  "sample_points = \<lparr>pt_json = sample_json tick_texts, pt_to_long = js_to_int (sample_json tick_texts)\<rparr>"

theorem uploader_timestamps_sorted_witness:
  "\<exists>ts. map (timestamp sample_points) (parsed sample_points True 0 [''m1'', ''m2'', ''m3'']) = map Inr ts \<and> sorted ts \<and>
     parsed sample_points True 0 [''m1'', ''m2'', ''m3''] = [tick ''A'' 5 ''1.0'', tick ''A'' 8 ''1.2'']"
proof -
  have "parsed sample_points True 0 [''m1'', ''m2'', ''m3''] = [tick ''A'' 5 ''1.0'', tick ''A'' 8 ''1.2'']"
    by (simp add: parse_point_def sample_points_def sample_json_def tick_texts_def tick_def)
  with uploader_timestamps_sorted [of sample_points True "[''m1'', ''m2'', ''m3'']"] show ?thesis by blast
qed

text \<open>
  No point is lost, repeated or reordered by the batching, also when commands fail: after any
  sequence of well-typed points the arguments of the commands that succeeded, followed by the
  pending ones, are exactly the fields of the points in order, and every command has at least
  eleven complete triples.
\<close>
theorem uploader_loses_no_point:
  assumes "list_all (good_point L) objs"
  shows "\<exists>b. publish_points L command log_info objs (new_batch r) = (Ret (), b) \<and>
     concat (map tl (bt_sent b)) @ tl (bt_result b) = concat (map (\<lambda>obj. fst (point_fields L obj)) objs) \<and>
     (\<forall>c \<in> set (bt_sent b). hd c = ''TS.MADD'' \<and> 34 \<le> length c \<and> length c mod 3 = 1)"
  using batch_inv_points [OF new_batch_inv assms, of command log_info r] by (auto simp: batch_inv_def)

lemma tick_good: "good_point sample_points (tick s t p) \<and> fst (point_fields sample_points (tick s t p)) = [s, int_to_string t, p]"
  by (simp add: good_point_def point_fields_def sample_points_def sample_json_def tick_def)

theorem uploader_loses_no_point_witness:
  "\<exists>b. publish_points sample_points (\<lambda>args r. (Inr (), r)) True (replicate 12 (tick ''A'' 5 ''1.0'')) (new_batch ()) = (Ret (), b) \<and>
     concat (map tl (bt_sent b)) @ tl (bt_result b) = concat (replicate 12 [''A'', int_to_string 5, ''1.0''])"
proof -
  have "list_all (good_point sample_points) (replicate 12 (tick ''A'' 5 ''1.0''))"
    by (simp add: list_all_iff tick_good)
  from uploader_loses_no_point [OF this, of "\<lambda>args r. (Inr (), r)" True "()"] show ?thesis
    by (auto simp: tick_good map_replicate_const)
qed

text \<open>
  The size of a batch. When every command succeeds, each of them stores eleven points (34
  arguments), not the ten of \<open>REDIS_BATCH_SIZE\<close>, and fewer than eleven points are pending.
\<close>
theorem uploader_batches_of_eleven:
  assumes "list_all (good_point L) objs" and "\<forall>args r. \<exists>r'. command args r = (Inr (), r')"
  shows "\<exists>b. publish_points L command log_info objs (new_batch r) = (Ret (), b) \<and>
     length (bt_sent b) = length objs div 11 \<and> (\<forall>c \<in> set (bt_sent b). length c = 34) \<and>
     length (tl (bt_result b)) = 3 * (length objs mod 11)"
proof -
  have "full_batches [] (new_batch r)" by (simp add: full_batches_def new_batch_def)
  from full_batches_points [OF assms(2) this assms(1), of log_info] obtain b n where
    b: "publish_points L command log_info objs (new_batch r) = (Ret (), b)"
    "n \<le> 10" "length (bt_result b) = 3 * n + 1" "length objs = 11 * length (bt_sent b) + n"
    "\<forall>c \<in> set (bt_sent b). length c = 34"
    by (auto simp: full_batches_def)
  then have "length objs div 11 = length (bt_sent b)" "length objs mod 11 = n" by auto
  with b show ?thesis by auto
qed

theorem uploader_batches_of_eleven_witness:
  "\<exists>b. publish_points sample_points (\<lambda>args r. (Inr (), r)) True (replicate 25 (tick ''A'' 5 ''1.0'')) (new_batch ()) = (Ret (), b) \<and>
     length (bt_sent b) = 2 \<and> length (tl (bt_result b)) = 9"
proof -
  have "list_all (good_point sample_points) (replicate 25 (tick ''A'' 5 ''1.0''))"
    by (simp add: list_all_iff tick_good)
  from uploader_batches_of_eleven [OF this, of "\<lambda>args r. (Inr (), r)" True "()"] show ?thesis by auto
qed

text \<open>
  C36: one point whose price is not a JSON string stops the upload. Its symbol and timestamp stay in the
  argument list when the third field throws. From then on, as long as the list holds an incomplete triple,
  every \<open>TS.MADD\<close> is rejected, nothing is stored and the list only grows: that is so for ever when all later points
  are well typed, and otherwise until the strings of later ill-typed points have made their number a multiple of
  three again, which two more points of this kind do; what holds after that is not claimed. The points are any
  that \<open>parse\<close> has pushed, with any level of the log.
\<close>
theorem half_point_stops_upload:
  assumes "rejects_bad_arity command" and "set (before @ obj # after) \<subseteq> set (parsed L log_info 0 msgs)"
    and "list_all (good_point L) before" and "point_fields L obj = ([s, t], False)"
  shows "((\<forall>k \<le> length after. leftover L (obj # take k after) \<noteq> 0) \<longrightarrow>
      (\<exists>b1 b2. publish_points L command log_info before (new_batch r) = (Ret (), b1) \<and>
        publish_points L command log_info (before @ obj # after) (new_batch r) = (Ret (), b2) \<and>
        bt_sent b2 = bt_sent b1 \<and>
        bt_result b2 = bt_result b1 @ [s, t] @ concat (map (\<lambda>obj. fst (point_fields L obj)) after))) \<and>
    (list_all (good_point L) after \<longrightarrow> (\<forall>k \<le> length after. leftover L (obj # take k after) \<noteq> 0))"
proof
  have half: "leftover L [obj] = 2" by (simp add: leftover_def assms(4))
  from batch_inv_points [OF new_batch_inv assms(3), of command log_info r] obtain b1 where
    b1: "publish_points L command log_info before (new_batch r) = (Ret (), b1)" "batch_inv L before b1" by auto
  then obtain n where "length (bt_result b1) = 3 * n + 1" by (auto simp: batch_inv_def)
  then have aligned: "length (bt_result b1) mod 3 = 1" by simp
  have loggable: "\<forall>x \<in> set (obj # after). log_info \<longrightarrow> loggable L x"
    using assms(2) parsed_loggable [of _ L log_info 0 msgs] by auto
  show "(\<forall>k \<le> length after. leftover L (obj # take k after) \<noteq> 0) \<longrightarrow>
      (\<exists>b1 b2. publish_points L command log_info before (new_batch r) = (Ret (), b1) \<and>
        publish_points L command log_info (before @ obj # after) (new_batch r) = (Ret (), b2) \<and>
        bt_sent b2 = bt_sent b1 \<and>
        bt_result b2 = bt_result b1 @ [s, t] @ concat (map (\<lambda>obj. fst (point_fields L obj)) after))"
  proof
    assume left: "\<forall>k \<le> length after. leftover L (obj # take k after) \<noteq> 0"
    have "length (bt_result b1 @ fst (point_fields L obj)) mod 3 \<noteq> 1"
      using aligned by (simp add: assms(4)) presburger
    from misaligned_step [OF assms(1) _ this, of log_info] loggable obtain b where
      b: "publish_point L command log_info obj b1 = (Ret (), b)" "bt_sent b = bt_sent b1" "bt_result b = bt_result b1 @ [s, t]"
      by (auto simp: assms(4))
    have "length (bt_result b) mod 3 = (1 + leftover L [obj]) mod 3"
      using aligned by (simp add: b(3) half) presburger
    from misaligned_stuck [OF assms(1) _ this, of after log_info] loggable left b b1 show
      "\<exists>b1 b2. publish_points L command log_info before (new_batch r) = (Ret (), b1) \<and>
        publish_points L command log_info (before @ obj # after) (new_batch r) = (Ret (), b2) \<and>
        bt_sent b2 = bt_sent b1 \<and>
        bt_result b2 = bt_result b1 @ [s, t] @ concat (map (\<lambda>obj. fst (point_fields L obj)) after)"
      by (auto simp: publish_points_append io_seq_Ret)
  qed
  show "list_all (good_point L) after \<longrightarrow> (\<forall>k \<le> length after. leftover L (obj # take k after) \<noteq> 0)"
  proof (intro impI allI)
    fix k assume "list_all (good_point L) after"
    then have "list_all (good_point L) (take k after)" by (auto simp: list_all_iff dest: in_set_takeD)
    from leftover_good [OF this, of "[obj]"] half show "leftover L (obj # take k after) \<noteq> 0" by simp
  qed
qed

definition arity_redis :: "string list \<Rightarrow> unit \<Rightarrow> (exn + unit) \<times> unit" where
  "arity_redis args r = (if length args mod 3 = 1 then (Inr (), r) else (Inl (Library_exception ''wrong number of arguments''), r))"

text \<open>A vendor that sends one price as a number.\<close>

definition half_tick :: jval where
  "half_tick = JObject [(''s'', JString ''A''), (''t'', JInt 5), (''p'', JInt 1)]"

definition half_texts :: "string \<Rightarrow> jval option" where
  "half_texts m = (if m = ''m1'' then Some (tick ''A'' 5 ''1.0'') else if m = ''m2'' then Some half_tick else None)"

definition half_points :: "jval point_lib" where
  "half_points = \<lparr>pt_json = sample_json half_texts, pt_to_long = js_to_int (sample_json half_texts)\<rparr>"

theorem half_point_stops_upload_witness:
  "\<exists>b. publish_points half_points arity_redis True ([] @ half_tick # replicate 100 (tick ''A'' 5 ''1.0'')) (new_batch ()) = (Ret (), b) \<and>
       bt_sent b = [] \<and> length (bt_result b) = 303 \<and> leftover half_points [half_tick, half_tick, half_tick] = 0"
proof -
  have rej: "rejects_bad_arity arity_redis" by (simp add: rejects_bad_arity_def arity_redis_def)
  have good: "good_point half_points (tick ''A'' 5 ''1.0'')" "fst (point_fields half_points (tick ''A'' 5 ''1.0'')) = [''A'', int_to_string 5, ''1.0'']"
    by (simp_all add: good_point_def point_fields_def half_points_def sample_json_def tick_def)
  then have goods: "list_all (good_point half_points) (replicate 100 (tick ''A'' 5 ''1.0''))"
    by (simp add: list_all_iff)
  have none: "list_all (good_point half_points) []" by simp
  have half: "point_fields half_points half_tick = ([''A'', int_to_string 5], False)"
    by (simp add: point_fields_def half_points_def sample_json_def half_tick_def)
  have "parsed half_points True 0 [''m1'', ''m2''] = [tick ''A'' 5 ''1.0'', half_tick]"
    by (simp add: parse_point_def half_points_def sample_json_def half_texts_def half_tick_def tick_def)
  then have "set ([] @ half_tick # replicate 100 (tick ''A'' 5 ''1.0'')) \<subseteq> set (parsed half_points True 0 [''m1'', ''m2''])" by auto
  from half_point_stops_upload [OF rej this none half, of "()"] goods show ?thesis
    by (auto simp: half leftover_def io_return_apply new_batch_def good length_concat sum_list_replicate comp_def)
qed

end
