(* ===== verification/Uploader_System.thy ===== *)
theory Uploader_System
  imports Redis_Uploader "HOL-Library.Sublist"
begin

text \<open>
  The three loops of the uploader (\<open>src/redis_subscriber.cpp\<close>) running at the same time: \<open>subscribe\<close>
  takes messages from Redis, \<open>parse\<close> makes points of them and \<open>publish\<close> stores the points. Each
  loop has its own local variables and they share two bounded queues; one round of one loop
  is one step, in any order. A loop that finds its queue empty sleeps, which changes nothing.
\<close>

section \<open>State and steps\<close>

record ('mq, 'jq, 'r) upload_system =
  us_uploader :: "('mq, 'jq, 'r) uploader"
  us_last_timestamp :: int \<comment> \<open>local to \<open>parse\<close>\<close>
  us_batch :: "'r batch" \<comment> \<open>local to \<open>publish\<close>\<close>

definition new_upload_system :: "('mq, 'jq, 'r) uploader \<Rightarrow> 'r \<Rightarrow> ('mq, 'jq, 'r) upload_system" where
  "new_upload_system u r = \<lparr>us_uploader = u, us_last_timestamp = 0, us_batch = new_batch r\<rparr>"

text \<open>
  What a step is about: a message from Redis and whether its push succeeded, a message taken by
  \<open>parse\<close> with the point it makes and whether the push of that succeeded, a point taken by \<open>publish\<close>.
\<close>

datatype 'j upload_event = Consumed string bool | Parsed string "('j \<times> bool) option" | Published 'j

definition parsed_event ::
    "('jq, 'j) spsc \<Rightarrow> 'j point_lib \<Rightarrow> bool \<Rightarrow> ('mq, 'jq, 'r) upload_system \<Rightarrow> string \<Rightarrow> 'j upload_event" where
  "parsed_event P L log_info c m =
     Parsed m (case snd (parse_point L log_info (us_last_timestamp c) m) of
                 Inr (Some obj) \<Rightarrow> Some (obj, fst (sp_push P obj (spsc_queue_points (us_uploader c))))
               | _ \<Rightarrow> None)"

inductive upload_step ::
    "('mq, string) spsc \<Rightarrow> ('jq, 'j) spsc \<Rightarrow> 'r redis_sub \<Rightarrow> 'j point_lib \<Rightarrow> bool \<Rightarrow>
     (string list \<Rightarrow> 'r \<Rightarrow> (exn + unit) \<times> 'r) \<Rightarrow>
     ('mq, 'jq, 'r) upload_system \<Rightarrow> 'j upload_event option \<Rightarrow> ('mq, 'jq, 'r) upload_system \<Rightarrow> bool"
  for Q P R L log_info command where
  consume_some:
    "fst (rsub_consume R (redis_consumer (us_uploader c))) = Inr (Some (channel, m)) \<Longrightarrow>
     upload_step Q P R L log_info command c (Some (Consumed m (fst (sp_push Q m (spsc_queue_parse (us_uploader c))))))
       (c\<lparr>us_uploader := consume_message Q R (us_uploader c)\<rparr>)"
| consume_nothing:
    "\<forall>m. fst (rsub_consume R (redis_consumer (us_uploader c))) \<noteq> Inr (Some m) \<Longrightarrow>
     upload_step Q P R L log_info command c None (c\<lparr>us_uploader := consume_message Q R (us_uploader c)\<rparr>)"
| parse_one:
    "sp_pop Q (spsc_queue_parse (us_uploader c)) = Some (m, q) \<Longrightarrow>
     parse_iteration Q P (\<lambda>_ q. q) L log_info (us_last_timestamp c, us_uploader c) = (Ret (), (newest, u)) \<Longrightarrow>
     upload_step Q P R L log_info command c (Some (parsed_event P L log_info c m))
       (c\<lparr>us_last_timestamp := newest, us_uploader := u\<rparr>)"
| publish_one:
    "sp_pop P (spsc_queue_points (us_uploader c)) = Some (obj, q) \<Longrightarrow>
     publish_iteration P (\<lambda>_ q. q) L command log_info (spsc_queue_points (us_uploader c), us_batch c) = (Ret (), (q', b)) \<Longrightarrow>
     upload_step Q P R L log_info command c (Some (Published obj))
       (c\<lparr>us_uploader := (us_uploader c)\<lparr>spsc_queue_points := q'\<rparr>, us_batch := b\<rparr>)"

inductive upload_run ::
    "('mq, string) spsc \<Rightarrow> ('jq, 'j) spsc \<Rightarrow> 'r redis_sub \<Rightarrow> 'j point_lib \<Rightarrow> bool \<Rightarrow>
     (string list \<Rightarrow> 'r \<Rightarrow> (exn + unit) \<times> 'r) \<Rightarrow>
     ('mq, 'jq, 'r) upload_system \<Rightarrow> 'j upload_event list \<Rightarrow> ('mq, 'jq, 'r) upload_system \<Rightarrow> bool"
  for Q P R L log_info command where
  upload_start: "upload_run Q P R L log_info command c [] c"
| upload_next: "upload_run Q P R L log_info command c es d \<Longrightarrow> upload_step Q P R L log_info command d e f \<Longrightarrow>
    upload_run Q P R L log_info command c (es @ (case e of None \<Rightarrow> [] | Some x \<Rightarrow> [x])) f"

section \<open>Histories\<close>

text \<open>The messages from Redis, those whose push succeeded, and those that \<open>parse\<close> took.\<close>

definition consumed :: "'j upload_event list \<Rightarrow> string list" where
  "consumed es = concat (map (\<lambda>e. case e of Consumed m ok \<Rightarrow> [m] | _ \<Rightarrow> []) es)"

definition accepted :: "'j upload_event list \<Rightarrow> string list" where
  "accepted es = concat (map (\<lambda>e. case e of Consumed m ok \<Rightarrow> if ok then [m] else [] | _ \<Rightarrow> []) es)"

definition taken :: "'j upload_event list \<Rightarrow> string list" where
  "taken es = concat (map (\<lambda>e. case e of Parsed m r \<Rightarrow> [m] | _ \<Rightarrow> []) es)"

text \<open>The points that \<open>parse\<close> pushed successfully, and those that \<open>publish\<close> took.\<close>

definition pushed :: "'j upload_event list \<Rightarrow> 'j list" where
  "pushed es = concat (map (\<lambda>e. case e of Parsed m (Some (obj, ok)) \<Rightarrow> if ok then [obj] else [] | _ \<Rightarrow> []) es)"

definition published :: "'j upload_event list \<Rightarrow> 'j list" where
  "published es = concat (map (\<lambda>e. case e of Published obj \<Rightarrow> [obj] | _ \<Rightarrow> []) es)"

definition lossless :: "'j upload_event list \<Rightarrow> bool" where
  "lossless es \<longleftrightarrow>
     list_all (\<lambda>e. case e of Consumed m ok \<Rightarrow> ok | Parsed m (Some (obj, ok)) \<Rightarrow> ok | _ \<Rightarrow> True) es"

named_theorems history_simps

lemmas [history_simps] = consumed_def accepted_def taken_def pushed_def published_def lossless_def

lemma histories_append [simp]:
  "consumed (es @ fs) = consumed es @ consumed fs" "taken (es @ fs) = taken es @ taken fs"
  "lossless (es @ fs) \<longleftrightarrow> lossless es \<and> lossless fs"
  by (simp_all add: history_simps)

lemma histories_published [simp]:
  "consumed (map Published objs) = []" "taken (map Published objs) = []" "lossless (map Published objs)"
  by (simp_all add: history_simps list_all_iff comp_def)

lemma accepted_subseq: "subseq (accepted es) (consumed es)"
  by (induction es) (auto simp: history_simps split: upload_event.split)

lemma accepted_lossless: "lossless es \<Longrightarrow> accepted es = consumed es"
  by (induction es) (auto simp: history_simps split: upload_event.splits)

text \<open>The newest timestamp after a sequence of messages.\<close>

definition newest_after :: "'j point_lib \<Rightarrow> bool \<Rightarrow> int \<Rightarrow> string list \<Rightarrow> int" where
  "newest_after L log_info newest msgs = fold (\<lambda>m newest. fst (parse_point L log_info newest m)) msgs newest"

lemma parsed_snoc:
  "parsed L log_info newest (msgs @ [m]) = parsed L log_info newest msgs @
     (case snd (parse_point L log_info (newest_after L log_info newest msgs) m) of Inr (Some obj) \<Rightarrow> [obj] | _ \<Rightarrow> [])"
proof (induction msgs arbitrary: newest)
  case Nil
  then show ?case by (simp add: newest_after_def split: prod.split sum.split option.split)
next
  case (Cons msg msgs)
  obtain newest' r where "parse_point L log_info newest msg = (newest', r)" by (cases "parse_point L log_info newest msg")
  with Cons show ?case by (simp add: newest_after_def split: sum.split option.split)
qed

section \<open>The invariant\<close>

definition upload_inv ::
    "('mq, string) spsc \<Rightarrow> ('jq, 'j) spsc \<Rightarrow> 'j point_lib \<Rightarrow> bool \<Rightarrow> ('mq, 'jq, 'r) upload_system \<Rightarrow> 'j upload_event list \<Rightarrow> bool" where
  "upload_inv Q P L log_info c es \<longleftrightarrow>
     accepted es = taken es @ sp_contents Q (spsc_queue_parse (us_uploader c)) \<and>
     pushed es = published es @ sp_contents P (spsc_queue_points (us_uploader c)) \<and>
     us_last_timestamp c = newest_after L log_info 0 (taken es) \<and>
     subseq (pushed es) (parsed L log_info 0 (taken es)) \<and>
     (lossless es \<longrightarrow> pushed es = parsed L log_info 0 (taken es)) \<and>
     kept L (published es) (us_batch c)"

text \<open>The points in the queue came out of \<open>parse\<close>, so logging them cannot fail.\<close>

lemma waiting_loggable:
  assumes "upload_inv Q P L log_info c es" and "obj \<in> set (sp_contents P (spsc_queue_points (us_uploader c)))"
  shows "log_info \<longrightarrow> loggable L obj"
proof -
  have "obj \<in> set (pushed es)" using assms by (simp add: upload_inv_def)
  with assms(1) have "obj \<in> set (parsed L log_info 0 (taken es))" by (auto simp: upload_inv_def dest: list_emb_set)
  then show ?thesis by (rule parsed_loggable)
qed

text \<open>A round of \<open>parse\<close> on a waiting message, spelled out.\<close>

lemma parse_round:
  assumes "sp_pop Q (spsc_queue_parse u) = Some (m, q)"
    and "parse_iteration Q P sleep L log_info (newest, u) = (Ret (), (newest', u'))"
  shows "newest' = fst (parse_point L log_info newest m) \<and> spsc_queue_parse u' = q \<and>
    spsc_queue_points u' =
      (case snd (parse_point L log_info newest m) of
         Inr (Some obj) \<Rightarrow> snd (sp_push P obj (spsc_queue_points u)) | _ \<Rightarrow> spsc_queue_points u)"
  using assms(2)
  by (cases "parse_point L log_info newest m")
    (auto simp: parse_iteration_def no_waiting [OF assms(1)] Let_def split: sum.splits option.splits)

lemma consume_round:
  assumes "rsub_consume R (redis_consumer u) = (x, r)"
  shows "spsc_queue_points (consume_message Q R u) = spsc_queue_points u \<and>
    spsc_queue_parse (consume_message Q R u) =
      (case x of Inr (Some (channel, m)) \<Rightarrow> snd (sp_push Q m (spsc_queue_parse u)) | _ \<Rightarrow> spsc_queue_parse u)"
  using assms by (auto simp: consume_message_def split: sum.split option.split)

lemma pushed_contents:
  assumes "spsc_queue Q"
  shows "sp_contents Q (snd (sp_push Q x q)) = sp_contents Q q @ (if fst (sp_push Q x q) then [x] else [])"
  using spsc_queue.contents_push [OF assms, of x q] spsc_queue.push_ok_iff [OF assms, of x q] by auto

lemma upload_step_inv:
  assumes Q: "spsc_queue Q" and P: "spsc_queue P"
    and step: "upload_step Q P R L log_info command c e d" and inv: "upload_inv Q P L log_info c es"
  shows "upload_inv Q P L log_info d (es @ (case e of None \<Rightarrow> [] | Some x \<Rightarrow> [x]))"
  using step
proof cases
  case (consume_some channel m)
  then obtain r where "rsub_consume R (redis_consumer (us_uploader c)) = (Inr (Some (channel, m)), r)"
    by (cases "rsub_consume R (redis_consumer (us_uploader c))") auto
  from consume_round [OF this, of Q] inv show ?thesis
    unfolding consume_some by (auto simp: upload_inv_def history_simps pushed_contents [OF Q])
next
  case consume_nothing
  obtain x r where "rsub_consume R (redis_consumer (us_uploader c)) = (x, r)"
    by (cases "rsub_consume R (redis_consumer (us_uploader c))")
  from consume_round [OF this, of Q] consume_nothing(3) this inv show ?thesis
    unfolding consume_nothing by (auto simp: upload_inv_def split: sum.splits option.splits)
next
  case (parse_one m q newest u)
  note round = parse_round [OF parse_one(3,4)]
  from spsc_queue.pop_SomeD [OF Q parse_one(3)] have front: "sp_contents Q (spsc_queue_parse (us_uploader c)) = m # sp_contents Q q" .
  have last: "us_last_timestamp c = newest_after L log_info 0 (taken es)" using inv by (simp add: upload_inv_def)
  have more: "taken (es @ [parsed_event P L log_info c m]) = taken es @ [m]"
    "accepted (es @ [parsed_event P L log_info c m]) = accepted es"
    "published (es @ [parsed_event P L log_info c m]) = published es"
    by (simp_all add: history_simps parsed_event_def)
  have newest: "newest_after L log_info 0 (taken es @ [m]) = newest"
    using round last by (simp add: newest_after_def)
  show ?thesis
  proof (cases "\<exists>obj. snd (parse_point L log_info (us_last_timestamp c) m) = Inr (Some obj)")
    case True
    then obtain obj where obj: "snd (parse_point L log_info (us_last_timestamp c) m) = Inr (Some obj)" ..
    have pushes: "pushed (es @ [parsed_event P L log_info c m]) =
        pushed es @ (if fst (sp_push P obj (spsc_queue_points (us_uploader c))) then [obj] else [])"
      "lossless (es @ [parsed_event P L log_info c m]) \<longleftrightarrow> lossless es \<and> fst (sp_push P obj (spsc_queue_points (us_uploader c)))"
      by (simp_all add: history_simps parsed_event_def obj)
    have queue: "sp_contents P (spsc_queue_points u) = sp_contents P (spsc_queue_points (us_uploader c)) @
        (if fst (sp_push P obj (spsc_queue_points (us_uploader c))) then [obj] else [])"
      using round obj by (simp add: pushed_contents [OF P])
    have all: "parsed L log_info 0 (taken es @ [m]) = parsed L log_info 0 (taken es) @ [obj]"
      by (simp add: parsed_snoc last [symmetric] obj)
    have base: "subseq (pushed es) (parsed L log_info 0 (taken es))" using inv unfolding upload_inv_def by blast
    from list_emb_append_mono [OF base, of "[obj]" "[obj]"] subseq_rev_drop_many [OF base, of "[obj]"]
    have sub: "subseq (pushed es @ [obj]) (parsed L log_info 0 (taken es) @ [obj])"
      "subseq (pushed es) (parsed L log_info 0 (taken es) @ [obj])" by simp_all
    show ?thesis
      unfolding parse_one(1,2) option.case upload_inv_def more pushes all
      using inv [unfolded upload_inv_def] round front newest queue sub
      by (cases "fst (sp_push P obj (spsc_queue_points (us_uploader c)))") auto
  next
    case False
    then have pushes: "pushed (es @ [parsed_event P L log_info c m]) = pushed es"
      "lossless (es @ [parsed_event P L log_info c m]) \<longleftrightarrow> lossless es"
      by (auto simp: history_simps parsed_event_def split: sum.splits option.splits)
    have same: "parsed L log_info 0 (taken es @ [m]) = parsed L log_info 0 (taken es)"
      using False by (auto simp: parsed_snoc last [symmetric] split: sum.splits option.splits)
    have queue: "spsc_queue_points u = spsc_queue_points (us_uploader c)"
      using round False by (auto split: sum.splits option.splits)
    show ?thesis
      unfolding parse_one(1,2) option.case upload_inv_def more pushes same
      using inv [unfolded upload_inv_def] round front newest queue by auto
  qed
next
  case (publish_one obj q q' b)
  from spsc_queue.pop_SomeD [OF P publish_one(3)] have front: "sp_contents P (spsc_queue_points (us_uploader c)) = obj # sp_contents P q" .
  have "publish_point L command log_info obj (us_batch c) = (Ret (), b)" and "q' = q"
    using publish_one(4) by (auto simp: publish_iteration_def no_waiting [OF publish_one(3)] split: prod.splits)
  moreover have "kept L (published es) (us_batch c)" using inv by (simp add: upload_inv_def)
  ultimately have b: "kept L (published es @ [obj]) b" "q' = q" by (simp_all add: publish_point_kept)
  show ?thesis
    unfolding publish_one(1,2) using inv front b
    by (auto simp: upload_inv_def history_simps)
qed

lemma upload_run_inv:
  assumes "spsc_queue Q" and "spsc_queue P"
  shows "upload_run Q P R L log_info command c es d \<Longrightarrow> upload_inv Q P L log_info c [] \<Longrightarrow> upload_inv Q P L log_info d es"
proof (induction rule: upload_run.induct)
  case (upload_next c es d e f)
  show ?case by (rule upload_step_inv [OF assms upload_next.hyps(2) upload_next.IH [OF upload_next.prems]])
qed simp

lemma new_upload_inv:
  "sp_contents Q (spsc_queue_parse u) = [] \<Longrightarrow> sp_contents P (spsc_queue_points u) = [] \<Longrightarrow>
   upload_inv Q P L log_info (new_upload_system u r) []"
  by (simp add: upload_inv_def new_upload_system_def history_simps newest_after_def new_batch_kept)

section \<open>Draining\<close>

lemma upload_run_trans:
  "upload_run Q P R L log_info command d fs e \<Longrightarrow> upload_run Q P R L log_info command c es d \<Longrightarrow>
   upload_run Q P R L log_info command c (es @ fs) e"
proof (induction rule: upload_run.induct)
  case (upload_next c fs d e f)
  from upload_run.upload_next [OF upload_next.IH [OF upload_next.prems] upload_next.hyps(2)] show ?case by simp
qed simp

lemma upload_run_one:
  "upload_step Q P R L log_info command c (Some e) d \<Longrightarrow> upload_run Q P R L log_info command c [e] d"
  using upload_next [OF upload_start, of Q P R L log_info command c "Some e" d] by simp

text \<open>The publisher alone can empty the queue of points.\<close>

lemma points_drain:
  assumes P: "spsc_queue P"
  shows "sp_contents P (spsc_queue_points (us_uploader c)) = objs \<Longrightarrow> \<forall>obj \<in> set objs. log_info \<longrightarrow> loggable L obj \<Longrightarrow>
    \<exists>d. upload_run Q P R L log_info command c (map Published objs) d \<and> sp_contents P (spsc_queue_points (us_uploader d)) = [] \<and>
      spsc_queue_parse (us_uploader d) = spsc_queue_parse (us_uploader c) \<and> redis_consumer (us_uploader d) = redis_consumer (us_uploader c)"
proof (induction objs arbitrary: c)
  case Nil
  then show ?case by (auto intro: upload_start)
next
  case (Cons obj objs)
  from spsc_queue.pop_first [OF P Cons.prems(1)] obtain q where
    q: "sp_pop P (spsc_queue_points (us_uploader c)) = Some (obj, q)" "sp_contents P q = objs" by blast
  from Cons.prems(2) publish_point_returns [of log_info L obj command "us_batch c"] obtain b where
    b: "publish_point L command log_info obj (us_batch c) = (Ret (), b)" by auto
  let ?c = "c\<lparr>us_uploader := (us_uploader c)\<lparr>spsc_queue_points := q\<rparr>, us_batch := b\<rparr>"
  have "publish_iteration P (\<lambda>_ q. q) L command log_info (spsc_queue_points (us_uploader c), us_batch c) = (Ret (), (q, b))"
    by (simp add: publish_iteration_def no_waiting [OF q(1)] b)
  from upload_run_one [OF publish_one [OF q(1) this]]
  have one: "upload_run Q P R L log_info command c [Published obj] ?c" .
  from Cons.IH [of ?c] q(2) Cons.prems(2) obtain d where
    "upload_run Q P R L log_info command ?c (map Published objs) d" "sp_contents P (spsc_queue_points (us_uploader d)) = []"
    "spsc_queue_parse (us_uploader d) = spsc_queue_parse (us_uploader c)" "redis_consumer (us_uploader d) = redis_consumer (us_uploader c)"
    by auto
  with upload_run_trans [OF this(1) one] show ?case by (intro exI [of _ d]) simp
qed

text \<open>So can the parser and the publisher together, and no push fails meanwhile.\<close>

lemma messages_drain:
  assumes Q: "spsc_queue Q" and P: "spsc_queue P"
  shows "sp_contents Q (spsc_queue_parse (us_uploader c)) = msgs \<Longrightarrow> sp_contents P (spsc_queue_points (us_uploader c)) = [] \<Longrightarrow>
    \<exists>es d. upload_run Q P R L log_info command c es d \<and> lossless es \<and> consumed es = [] \<and>
      sp_contents Q (spsc_queue_parse (us_uploader d)) = [] \<and> sp_contents P (spsc_queue_points (us_uploader d)) = [] \<and>
      redis_consumer (us_uploader d) = redis_consumer (us_uploader c)"
proof (induction msgs arbitrary: c)
  case Nil
  then show ?case
    by (intro exI [of _ "[]"] exI [of _ c]) (simp add: upload_start history_simps)
next
  case (Cons m msgs)
  from spsc_queue.pop_first [OF Q Cons.prems(1)] obtain q where
    q: "sp_pop Q (spsc_queue_parse (us_uploader c)) = Some (m, q)" "sp_contents Q q = msgs" by blast
  obtain newest r where pp: "parse_point L log_info (us_last_timestamp c) m = (newest, r)"
    by (cases "parse_point L log_info (us_last_timestamp c) m")
  have "\<exists>u. parse_iteration Q P (\<lambda>_ q. q) L log_info (us_last_timestamp c, us_uploader c) = (Ret (), (newest, u)) \<and>
      redis_consumer u = redis_consumer (us_uploader c)"
    by (auto simp: parse_iteration_def no_waiting [OF q(1)] pp Let_def split: sum.split option.split)
  then obtain u where u: "parse_iteration Q P (\<lambda>_ q. q) L log_info (us_last_timestamp c, us_uploader c) = (Ret (), (newest, u))"
    and conn: "redis_consumer u = redis_consumer (us_uploader c)" by blast
  let ?c = "c\<lparr>us_last_timestamp := newest, us_uploader := u\<rparr>" and ?e = "parsed_event P L log_info c m"
  define objs where "objs = (case r of Inr (Some obj) \<Rightarrow> [obj] | _ \<Rightarrow> [])"
  have room: "length (sp_contents P (spsc_queue_points (us_uploader c))) < queue_capacity"
    using Cons.prems(2) by (simp add: queue_capacity_def)
  from parse_round [OF q(1) u] have waiting: "spsc_queue_parse u = q" "sp_contents P (spsc_queue_points u) = objs"
    using Cons.prems(2) room spsc_queue.push_ok_iff [OF P]
    by (auto simp: objs_def pp pushed_contents [OF P] split: sum.split option.split)
  have goods: "\<forall>obj \<in> set objs. log_info \<longrightarrow> loggable L obj"
    using parse_point_loggable [of L log_info "us_last_timestamp c" m newest] pp
    by (auto simp: objs_def split: sum.splits option.splits)
  have event: "lossless [?e]" "consumed [?e] = []"
    using room spsc_queue.push_ok_iff [OF P]
    by (auto simp: history_simps parsed_event_def split: sum.split option.split)
  from points_drain [OF P, of ?c objs log_info L Q R command] waiting goods conn obtain d where
    d: "upload_run Q P R L log_info command ?c (map Published objs) d" "sp_contents P (spsc_queue_points (us_uploader d)) = []"
      "spsc_queue_parse (us_uploader d) = q" "redis_consumer (us_uploader d) = redis_consumer (us_uploader c)" by auto
  from upload_run_trans [OF d(1) upload_run_one [OF parse_one [OF q(1) u]]]
  have run1: "upload_run Q P R L log_info command c ([?e] @ map Published objs) d" .
  from Cons.IH [OF _ d(2)] d(3,4) q(2) obtain es f where
    f: "upload_run Q P R L log_info command d es f" "lossless es" "consumed es = []"
      "sp_contents Q (spsc_queue_parse (us_uploader f)) = []" "sp_contents P (spsc_queue_points (us_uploader f)) = []"
      "redis_consumer (us_uploader f) = redis_consumer (us_uploader c)" by auto
  from upload_run_trans [OF f(1) run1] f(2-6) event show ?case
    by (intro exI [of _ "([?e] @ map Published objs) @ es"] exI [of _ f]) (simp del: append_Cons append_Nil)
qed

text \<open>From every state that satisfies the invariant both queues can be emptied.\<close>

lemma system_drain:
  assumes "spsc_queue Q" and "spsc_queue P" and inv: "upload_inv Q P L log_info c es"
  shows "\<exists>fs d. upload_run Q P R L log_info command c fs d \<and> lossless fs \<and> consumed fs = [] \<and>
    sp_contents Q (spsc_queue_parse (us_uploader d)) = [] \<and> sp_contents P (spsc_queue_points (us_uploader d)) = [] \<and>
    redis_consumer (us_uploader d) = redis_consumer (us_uploader c)"
proof -
  have "\<forall>obj \<in> set (sp_contents P (spsc_queue_points (us_uploader c))). log_info \<longrightarrow> loggable L obj"
    using waiting_loggable [OF inv] by blast
  from points_drain [OF assms(2) refl this, of Q R command] obtain d1 where
    d1: "upload_run Q P R L log_info command c (map Published (sp_contents P (spsc_queue_points (us_uploader c)))) d1"
      "sp_contents P (spsc_queue_points (us_uploader d1)) = []" "redis_consumer (us_uploader d1) = redis_consumer (us_uploader c)" by blast
  from messages_drain [OF assms(1,2) refl d1(2), of R L log_info command] obtain gs d where
    d: "upload_run Q P R L log_info command d1 gs d" "lossless gs" "consumed gs = []"
      "sp_contents Q (spsc_queue_parse (us_uploader d)) = []" "sp_contents P (spsc_queue_points (us_uploader d)) = []"
      "redis_consumer (us_uploader d) = redis_consumer (us_uploader c)" unfolding d1(3) by blast
  with upload_run_trans [OF d(1) d1(1)] show ?thesis
    by (intro exI [of _ "map Published (sp_contents P (spsc_queue_points (us_uploader c))) @ gs"] exI [of _ d]) simp
qed

text \<open>After a run without a failed push that ends with empty queues, everything is stored or pending.\<close>

lemma drained_args:
  assumes "upload_inv Q P L log_info d es" and "lossless es"
    and "sp_contents Q (spsc_queue_parse (us_uploader d)) = []" and "sp_contents P (spsc_queue_points (us_uploader d)) = []"
  shows "concat (map tl (bt_sent (us_batch d))) @ tl (bt_result (us_batch d)) =
    concat (map (\<lambda>obj. fst (point_fields L obj)) (parsed L log_info 0 (consumed es)))"
proof -
  from assms accepted_lossless [OF assms(2)] have "taken es = consumed es" "published es = parsed L log_info 0 (consumed es)"
    by (auto simp: upload_inv_def)
  with assms(1) show ?thesis by (simp add: upload_inv_def kept_def)
qed

section \<open>Properties\<close>

text \<open>
  C12: the three loops in any interleaving. In every reachable state of the uploader the messages
  that were queued are those that were parsed followed by those that wait, in the order Redis
  gave them; the points that were queued are those that were published followed by those that
  wait, and are among the points of the parsed messages, in order; the arguments of the
  successful commands and of the pending one are the fields of exactly the published points,
  each once, whatever commands failed (of an ill-typed point the fields before the one that threw, see
  \<open>half_point_stops_upload\<close>). Only a push into a full queue loses anything: without one nothing is
  missing at any stage.
\<close>
theorem uploader_loops_interleaved:
  assumes "spsc_queue Q" and "spsc_queue P"
    and "sp_contents Q (spsc_queue_parse u) = []" and "sp_contents P (spsc_queue_points u) = []"
    and "upload_run Q P R L log_info command (new_upload_system u r) es c"
  shows "accepted es = taken es @ sp_contents Q (spsc_queue_parse (us_uploader c)) \<and> subseq (accepted es) (consumed es) \<and>
    pushed es = published es @ sp_contents P (spsc_queue_points (us_uploader c)) \<and> subseq (pushed es) (parsed L log_info 0 (taken es)) \<and>
    (lossless es \<longrightarrow> accepted es = consumed es \<and> pushed es = parsed L log_info 0 (taken es)) \<and>
    concat (map tl (bt_sent (us_batch c))) @ tl (bt_result (us_batch c)) =
      concat (map (\<lambda>obj. fst (point_fields L obj)) (published es))"
  using upload_run_inv [OF assms(1,2,5) new_upload_inv [OF assms(3,4)]] accepted_subseq [of es] accepted_lossless [of es]
  unfolding upload_inv_def kept_def by blast

text \<open>A connection on which the same message arrives again and again.\<close>

definition echo_redis :: "string \<Rightarrow> unit redis_sub" where
  "echo_redis m =
     \<lparr>rsub_consume = (\<lambda>r. (Inr (Some (''A'', m)), r)), rsub_subscribe = (\<lambda>t r. (Inr (), r)),
      rsub_unsubscribe = (\<lambda>t r. (Inr (), r)), rsub_topics = (\<lambda>r. {})\<rparr>"

lemma sample_upload_run:
  "\<exists>c. upload_run bounded_queue bounded_queue (echo_redis ''m1'') sample_points True (\<lambda>args r. (Inr (), r))
     (new_upload_system (new_uploader ''A'' () [] []) ()) [Consumed ''m1'' True] c"
  using upload_run_one [OF consume_some [of "echo_redis ''m1''" "new_upload_system (new_uploader ''A'' () [] []) ()" "''A''" "''m1''"
      bounded_queue bounded_queue sample_points True "\<lambda>args r. (Inr (), r)"]]
  by (auto simp: echo_redis_def new_upload_system_def new_uploader_def queue_capacity_def)

theorem uploader_loops_interleaved_witness:
  "\<exists>c. upload_run bounded_queue bounded_queue (echo_redis ''m1'') sample_points True (\<lambda>args r. (Inr (), r))
     (new_upload_system (new_uploader ''A'' () [] []) ()) [Consumed ''m1'' True] c \<and>
     sp_contents bounded_queue (spsc_queue_parse (us_uploader c)) = [''m1'']"
proof -
  obtain c where run: "upload_run bounded_queue bounded_queue (echo_redis ''m1'') sample_points True (\<lambda>args r. (Inr (), r))
     (new_upload_system (new_uploader ''A'' () [] []) ()) [Consumed ''m1'' True] c" using sample_upload_run ..
  have "sp_contents bounded_queue (spsc_queue_parse (new_uploader ''A'' () [] [])) = []"
    "sp_contents bounded_queue (spsc_queue_points (new_uploader ''A'' () [] [])) = []" by (simp_all add: new_uploader_def)
  from uploader_loops_interleaved [OF bounded_queue_spsc bounded_queue_spsc this run] run
  show ?thesis by (auto simp: history_simps)
qed

text \<open>
  C26: what was taken from Redis can be stored. From every reachable state the parser and the
  publisher alone have a run that empties both queues without losing anything; after it, if no
  push had failed before, the stored and pending points are exactly those of all messages
  that Redis gave.
\<close>
theorem uploader_can_catch_up:
  assumes "spsc_queue Q" and "spsc_queue P"
    and "sp_contents Q (spsc_queue_parse u) = []" and "sp_contents P (spsc_queue_points u) = []"
    and "upload_run Q P R L log_info command (new_upload_system u r) es c"
  shows "\<exists>fs d. upload_run Q P R L log_info command c fs d \<and> lossless fs \<and> consumed fs = [] \<and>
    sp_contents Q (spsc_queue_parse (us_uploader d)) = [] \<and> sp_contents P (spsc_queue_points (us_uploader d)) = [] \<and>
    (lossless es \<longrightarrow> concat (map tl (bt_sent (us_batch d))) @ tl (bt_result (us_batch d)) =
      concat (map (\<lambda>obj. fst (point_fields L obj)) (parsed L log_info 0 (consumed es))))"
proof -
  note start = new_upload_inv [OF assms(3,4), of L log_info r]
  from system_drain [OF assms(1,2) upload_run_inv [OF assms(1,2,5) start], of R command] obtain fs d where
    d: "upload_run Q P R L log_info command c fs d" "lossless fs" "consumed fs = []"
      "sp_contents Q (spsc_queue_parse (us_uploader d)) = []" "sp_contents P (spsc_queue_points (us_uploader d)) = []" by blast
  from drained_args [OF upload_run_inv [OF assms(1,2) upload_run_trans [OF d(1) assms(5)] start] _ d(4,5)] d show ?thesis
    by (intro exI [of _ fs] exI [of _ d]) simp
qed

theorem uploader_can_catch_up_witness:
  "\<exists>c fs d. upload_run bounded_queue bounded_queue (echo_redis ''m1'') sample_points True (\<lambda>args r. (Inr (), r))
     (new_upload_system (new_uploader ''A'' () [] []) ()) [Consumed ''m1'' True] c \<and>
     upload_run bounded_queue bounded_queue (echo_redis ''m1'') sample_points True (\<lambda>args r. (Inr (), r)) c fs d \<and>
     concat (map tl (bt_sent (us_batch d))) @ tl (bt_result (us_batch d)) = [''A'', int_to_string 5, ''1.0'']"
proof -
  obtain c where run: "upload_run bounded_queue bounded_queue (echo_redis ''m1'') sample_points True (\<lambda>args r. (Inr (), r))
     (new_upload_system (new_uploader ''A'' () [] []) ()) [Consumed ''m1'' True] c" using sample_upload_run ..
  have "sp_contents bounded_queue (spsc_queue_parse (new_uploader ''A'' () [] [])) = []"
    "sp_contents bounded_queue (spsc_queue_points (new_uploader ''A'' () [] [])) = []" by (simp_all add: new_uploader_def)
  note catch_up = uploader_can_catch_up [OF bounded_queue_spsc bounded_queue_spsc this run]
  have "lossless [Consumed ''m1'' True :: jval upload_event]" "consumed [Consumed ''m1'' True :: jval upload_event] = [''m1'']"
    by (simp_all add: history_simps)
  moreover have "parsed sample_points True 0 [''m1''] = [tick ''A'' 5 ''1.0'']"
    by (simp add: parse_point_def sample_points_def sample_json_def tick_texts_def tick_def)
  ultimately show ?thesis using catch_up run by (auto simp: tick_good)
qed

end
