(* ===== verification/Quote_Pipeline.thy ===== *)
theory Quote_Pipeline
  imports Ws_Vendor Uploader_System
begin

text \<open>
  The two offline sub-programs together: the vendor client (\<open>src/ws_vendor.cpp\<close>) publishes quotes
  on Redis channels, the uploader (\<open>src/redis_uploader.cpp\<close>, \<open>src/redis_subscriber.cpp\<close>) consumes the
  channels, parses and stores. What lies between them is Redis, whose documented behaviour
  (messages on subscribed channels arrive at most once and in the order of their publication) is a
  hypothesis. The client has any number of threads, and the three loops of the uploader interleave.
\<close>

section \<open>What a Redis connection yields\<close>

text \<open>The messages of the first \<open>n\<close> calls of \<open>consume\<close>, and the connection after them; a call may also time out or throw.\<close>

primrec received :: "'r redis_sub \<Rightarrow> nat \<Rightarrow> 'r \<Rightarrow> (string \<times> string) list" where
  "received R 0 r = []"
| "received R (Suc n) r =
     (case fst (rsub_consume R r) of Inr (Some d) \<Rightarrow> [d] | _ \<Rightarrow> []) @ received R n (snd (rsub_consume R r))"

primrec after_calls :: "'r redis_sub \<Rightarrow> nat \<Rightarrow> 'r \<Rightarrow> 'r" where
  "after_calls R 0 r = r"
| "after_calls R (Suc n) r = after_calls R n (snd (rsub_consume R r))"

text \<open>
  What Redis documents of its channels: a connection yields messages that were published on
  the channels it is subscribed to, each at most once and in the order of their publication.
\<close>

definition forwards :: "'r redis_sub \<Rightarrow> (string \<times> string) list \<Rightarrow> 'r \<Rightarrow> bool" where
  "forwards R messages r \<longleftrightarrow> (\<forall>n. subseq (received R n r) (filter (\<lambda>(channel, m). channel \<in> rsub_topics R r) messages))"

text \<open>The quotes on the uploader's topics.\<close>

definition relayed :: "string set \<Rightarrow> (string \<times> string) list \<Rightarrow> string list" where
  "relayed topics messages = map snd (filter (\<lambda>(channel, m). channel \<in> topics) messages)"

text \<open>The arguments of the commands that succeeded and of the pending one.\<close>

definition stored_args :: "('mq, 'jq, 'r) upload_system \<Rightarrow> string list" where
  "stored_args c = concat (map tl (bt_sent (us_batch c))) @ tl (bt_result (us_batch c))"

definition all_fields :: "'j point_lib \<Rightarrow> 'j list \<Rightarrow> string list" where
  "all_fields L objs = concat (map (\<lambda>obj. fst (point_fields L obj)) objs)"

definition queues_empty :: "('mq, string) spsc \<Rightarrow> ('jq, 'j) spsc \<Rightarrow> ('mq, 'jq, 'r) uploader \<Rightarrow> bool" where
  "queues_empty Q P u \<longleftrightarrow> sp_contents Q (spsc_queue_parse u) = [] \<and> sp_contents P (spsc_queue_points u) = []"

section \<open>Lemmas\<close>

lemma received_Suc:
  "received R (Suc n) r = received R n r @
     (case fst (rsub_consume R (after_calls R n r)) of Inr (Some d) \<Rightarrow> [d] | _ \<Rightarrow> [])"
  by (induction n arbitrary: r) simp_all

lemma after_calls_Suc: "after_calls R (Suc n) r = snd (rsub_consume R (after_calls R n r))"
  by (induction n arbitrary: r) simp_all

lemma consume_connection: "redis_consumer (consume_message Q R u) = snd (rsub_consume R (redis_consumer u))"
  by (auto simp: consume_message_def split: prod.split sum.split option.split)

lemma parse_connection:
  "parse_iteration Q P sleep L log_info (newest, u) = (Ret (), (newest', u')) \<Longrightarrow> redis_consumer u' = redis_consumer u"
  by (auto simp: parse_iteration_def Let_def split: option.splits prod.splits sum.splits)

text \<open>A run of the uploader consumes what the connection yields.\<close>

lemma upload_run_received:
  "upload_run Q P R L log_info command c es d \<Longrightarrow>
   \<exists>n. consumed es = map snd (received R n (redis_consumer (us_uploader c))) \<and>
     redis_consumer (us_uploader d) = after_calls R n (redis_consumer (us_uploader c))"
proof (induction rule: upload_run.induct)
  case (upload_start c)
  show ?case by (intro exI [of _ 0]) (simp add: history_simps)
next
  case (upload_next c es d e f)
  then obtain n where n: "consumed es = map snd (received R n (redis_consumer (us_uploader c)))"
    "redis_consumer (us_uploader d) = after_calls R n (redis_consumer (us_uploader c))" by blast
  let ?r = "redis_consumer (us_uploader c)"
  from upload_next.hyps(2) show ?case
  proof cases
    case (consume_some channel m)
    then have "consumed (es @ [Consumed m b]) = map snd (received R (Suc n) ?r)" for b
      unfolding received_Suc histories_append n(1) by (simp add: n(2) history_simps)
    with consume_some n(2) show ?thesis
      by (intro exI [of _ "Suc n"]) (simp add: after_calls_Suc consume_connection del: received.simps after_calls.simps)
  next
    case consume_nothing
    then have "map snd (received R (Suc n) ?r) = consumed es"
      unfolding received_Suc n(1) by (auto simp: n(2) split: sum.split option.split)
    with consume_nothing n(2) show ?thesis
      by (intro exI [of _ "Suc n"]) (simp add: after_calls_Suc consume_connection del: received.simps after_calls.simps)
  next
    case (parse_one m q newest u)
    with parse_connection [OF parse_one(4)] n show ?thesis
      by (intro exI [of _ n]) (simp add: history_simps parsed_event_def)
  next
    case (publish_one obj q q' b)
    with n show ?thesis by (intro exI [of _ n]) (simp add: history_simps)
  qed
qed

lemma subscribe_topics_done:
  assumes R: "redis_sub_laws R"
  shows "subscribe_topics R ts u = (Ret (), u') \<Longrightarrow>
    rsub_topics R (redis_consumer u') = rsub_topics R (redis_consumer u) \<union> set ts \<and>
    spsc_queue_parse u' = spsc_queue_parse u \<and> spsc_queue_points u' = spsc_queue_points u"
proof (induction ts arbitrary: u)
  case (Cons t ts)
  then obtain r where r: "rsub_subscribe R t (redis_consumer u) = (Inr (), r)"
    and rest: "subscribe_topics R ts (u\<lparr>redis_consumer := r\<rparr>) = (Ret (), u')"
    by (auto split: prod.splits sum.splits)
  from R r have "rsub_topics R r = insert t (rsub_topics R (redis_consumer u))" by (simp add: redis_sub_laws_def)
  with Cons.IH [OF rest] show ?case by auto
qed (simp add: io_return_apply)

lemma subscribed_loop:
  assumes "redis_sub_laws R" and "uploader_subscribe 0 Q R split u = (Ret (), u0)" and "rsub_topics R (redis_consumer u) = {}"
    and "queues_empty Q P u"
  shows "rsub_topics R (redis_consumer u0) = set (split (topics_list u))" and "queues_empty Q P u0"
proof -
  from assms(2) have "subscribe_topics R (split (topics_list u)) u = (Ret (), u0)"
    by (auto simp: uploader_subscribe_def io_seq_unit_Ret)
  from subscribe_topics_done [OF assms(1) this] assms(3,4)
  show "rsub_topics R (redis_consumer u0) = set (split (topics_list u))" and "queues_empty Q P u0"
    by (simp_all add: queues_empty_def)
qed

text \<open>However many messages the connection yields, they can be stored one after the other.\<close>

lemma uploader_serves:
  assumes Q: "spsc_queue Q" and P: "spsc_queue P" and start: "queues_empty Q P u"
  shows "\<exists>es c. upload_run Q P R L log_info command (new_upload_system u r) es c \<and> lossless es \<and> queues_empty Q P (us_uploader c) \<and>
    consumed es = map snd (received R n (redis_consumer u)) \<and> redis_consumer (us_uploader c) = after_calls R n (redis_consumer u)"
proof (induction n)
  case 0
  show ?case
    using start by (intro exI [of _ "[]"] exI [of _ "new_upload_system u r"])
      (simp add: upload_start history_simps new_upload_system_def)
next
  case (Suc n)
  let ?r = "redis_consumer u"
  from Suc obtain es c where c: "upload_run Q P R L log_info command (new_upload_system u r) es c" "lossless es"
    "queues_empty Q P (us_uploader c)" "consumed es = map snd (received R n ?r)" "redis_consumer (us_uploader c) = after_calls R n ?r" by blast
  let ?d = "c\<lparr>us_uploader := consume_message Q R (us_uploader c)\<rparr>"
  have "\<exists>lab. upload_step Q P R L log_info command c lab ?d \<and>
      lossless (case lab of None \<Rightarrow> [] | Some e \<Rightarrow> [e]) \<and>
      consumed (case lab of None \<Rightarrow> [] | Some e \<Rightarrow> [e]) =
        map snd (case fst (rsub_consume R (after_calls R n ?r)) of Inr (Some d) \<Rightarrow> [d] | _ \<Rightarrow> [])"
  proof (cases "\<exists>m. fst (rsub_consume R (after_calls R n ?r)) = Inr (Some m)")
    case True
    then obtain channel m where m: "fst (rsub_consume R (after_calls R n ?r)) = Inr (Some (channel, m))" by auto
    have "fst (sp_push Q m (spsc_queue_parse (us_uploader c)))"
      using c(3) spsc_queue.push_ok_iff [OF Q] by (simp add: queues_empty_def queue_capacity_def)
    with consume_some [of R c channel m Q P L log_info command] m c(5) show ?thesis
      by (intro exI [of _ "Some (Consumed m True)"]) (simp add: history_simps)
  next
    case False
    with consume_nothing [of R c Q P L log_info command] c(5) show ?thesis
      by (intro exI [of _ None]) (auto simp: history_simps split: sum.split option.split)
  qed
  then obtain lab where step: "upload_step Q P R L log_info command c lab ?d"
    and lab: "lossless (case lab of None \<Rightarrow> [] | Some e \<Rightarrow> [e])"
      "consumed (case lab of None \<Rightarrow> [] | Some e \<Rightarrow> [e]) =
        map snd (case fst (rsub_consume R (after_calls R n ?r)) of Inr (Some d) \<Rightarrow> [d] | _ \<Rightarrow> [])" by blast
  note run1 = upload_next [OF c(1) step]
  have "upload_inv Q P L log_info (new_upload_system u r) []"
    using start by (intro new_upload_inv) (simp_all add: queues_empty_def)
  from system_drain [OF Q P upload_run_inv [OF Q P run1 this], of R command] obtain fs d where
    d: "upload_run Q P R L log_info command ?d fs d" "lossless fs" "consumed fs = []"
      "sp_contents Q (spsc_queue_parse (us_uploader d)) = []" "sp_contents P (spsc_queue_points (us_uploader d)) = []"
      "redis_consumer (us_uploader d) = redis_consumer (us_uploader ?d)" by blast
  from upload_run_trans [OF d(1) run1] d c(2,4,5) lab show ?case
    by (intro exI [of _ "(es @ (case lab of None \<Rightarrow> [] | Some e \<Rightarrow> [e])) @ fs"] exI [of _ d])
      (simp add: queues_empty_def received_Suc after_calls_Suc consume_connection del: received.simps after_calls.simps)
qed

lemma relayed_received:
  assumes "forwards R messages r"
  shows "subseq (map snd (received R n r)) (relayed (rsub_topics R r) messages)"
  using assms unfolding forwards_def relayed_def by (intro subseq_map) blast

text \<open>The client: what arrived, and the order of what one thread publishes.\<close>

lemma vendor_messages:
  assumes "ignores_empty J" and "reading T t0 s" and "fst ` set events \<subseteq> T" and "held_back J T s = {#}"
    and "vs_published s = []" and "vs_refused s = []" and "vendor_reads J publish events s = (Ret (), s')"
  shows "mset (vs_published s') + mset (vs_refused s') + held_back J T s' = mset (concat (map (as_published J \<circ> snd) events)) \<and>
    (T = {t0} \<longrightarrow> subseq (vs_published s') (concat (map (as_published J \<circ> snd) events)) \<and>
      (vs_refused s' = [] \<longrightarrow> vs_published s' = concat (map (as_published J \<circ> snd) events)))"
proof (intro conjI impI)
  let ?sent = "concat (map (as_published J \<circ> snd) events)"
  from many_threads_reads [OF assms(1-3), of publish] assms(4-7)
  show "mset (vs_published s') + mset (vs_refused s') + held_back J T s' = mset ?sent" by simp
  have one: "subseq (vs_published s') ?sent \<and> (vs_refused s' = [] \<longrightarrow> vs_published s' = ?sent)" if "T = {t0}"
  proof -
    have "events = map (Pair t0) (map snd events)" using assms(3) that by (induction events) auto
    moreover from that assms(2) have "reading {t0} t0 s" by simp
    ultimately show ?thesis
      using one_thread_reads [of t0 s J publish "map snd events"] assms(5-7) by (auto simp: comp_def)
  qed
  then show "T = {t0} \<Longrightarrow> subseq (vs_published s') ?sent"
    and "T = {t0} \<Longrightarrow> vs_refused s' = [] \<Longrightarrow> vs_published s' = ?sent" by blast+
qed

text \<open>The uploader: every run stores fields of relayed quotes, and there is a run that stores all.\<close>

lemma uploader_run_stores:
  assumes "spsc_queue Q" and "spsc_queue P" and "queues_empty Q P u" and "forwards R messages (redis_consumer u)"
    and run: "upload_run Q P R L log_info command (new_upload_system u r) es c"
    and quotes: "quotes = relayed (rsub_topics R (redis_consumer u)) messages"
  shows "subseq (taken es) quotes \<and> subseq (published es) (parsed L log_info 0 (taken es)) \<and>
    stored_args c = all_fields L (published es) \<and>
    (lossless es \<and> length (consumed es) = length quotes \<and> queues_empty Q P (us_uploader c) \<longrightarrow>
      stored_args c = all_fields L (parsed L log_info 0 quotes))"
proof -
  have "upload_inv Q P L log_info (new_upload_system u r) []"
    using assms(3) by (intro new_upload_inv) (simp_all add: queues_empty_def)
  from upload_run_inv [OF assms(1,2) run this] have inv: "upload_inv Q P L log_info c es" .
  have came: "subseq (consumed es) quotes"
    using upload_run_received [OF run] relayed_received [OF assms(4)] quotes by (auto simp: new_upload_system_def)
  from inv have "subseq (taken es) (accepted es)" "subseq (published es) (pushed es)" by (auto simp: upload_inv_def)
  with inv accepted_subseq [of es] came have "subseq (taken es) quotes" "subseq (published es) (parsed L log_info 0 (taken es))"
    unfolding upload_inv_def by (meson subseq_order.order_trans)+
  moreover have "stored_args c = all_fields L (published es)"
    using inv by (simp add: stored_args_def all_fields_def upload_inv_def kept_def)
  moreover have "consumed es = quotes" if "length (consumed es) = length quotes"
    using came that by (rule subseq_same_length)
  ultimately show ?thesis
    using drained_args [OF inv] by (auto simp: stored_args_def all_fields_def queues_empty_def)
qed

lemma uploader_can_store:
  assumes "spsc_queue Q" and "spsc_queue P" and "queues_empty Q P u" and "map snd (received R n (redis_consumer u)) = quotes"
  shows "\<exists>es c. upload_run Q P R L log_info command (new_upload_system u r) es c \<and> lossless es \<and> consumed es = quotes \<and>
    queues_empty Q P (us_uploader c) \<and> stored_args c = all_fields L (parsed L log_info 0 quotes)"
proof -
  from uploader_serves [OF assms(1-3), of R L log_info command r n] assms(4) obtain es c where
    c: "upload_run Q P R L log_info command (new_upload_system u r) es c" "lossless es" "queues_empty Q P (us_uploader c)"
      "consumed es = quotes" by blast
  have "upload_inv Q P L log_info (new_upload_system u r) []"
    using assms(3) by (intro new_upload_inv) (simp_all add: queues_empty_def)
  from drained_args [OF upload_run_inv [OF assms(1,2) c(1) this] c(2)] c(3,4)
  have "stored_args c = all_fields L (parsed L log_info 0 quotes)"
    by (simp add: stored_args_def all_fields_def queues_empty_def)
  with c show ?thesis by blast
qed

section \<open>Properties\<close>

text \<open>
  C11: from the vendor to the time series, with any number of registered threads of the client, any answers of Redis,
  any messages and any interleaving of the uploader's loops. Every message that arrived and names a channel was
  published, or refused (its Redis command threw), or sits in the buffer of a thread, and of these each once; with one thread the published
  ones are in the order of arrival, and all of them when none was refused. What the uploader has parsed are quotes on
  its topics, in the order of publication and each at most once; what it has published are points of those, in order
  (malformed and outdated ones are dropped, and those that meet a full queue); and the arguments of its
  successful commands and of the pending one are the fields of exactly the published points. If no push failed, as many quotes came as
  were relayed and nothing waits, they are the fields of the points of all relayed quotes; and when Redis
  has delivered all of them, there is such a run, however many they are. Assumed are that the
  reads of the client succeed, that the uploader's subscriptions succeeded before the first quote, and that Redis delivers in order and at most once.
\<close>
theorem quotes_reach_time_series:
  assumes "ignores_empty J" and "reading T t0 s" and "fst ` set events \<subseteq> T" and "held_back J T s = {#}"
    and "vs_published s = []" and "vs_refused s = []" and "vendor_reads J publish events s = (Ret (), s')"
    and "spsc_queue Q" and "spsc_queue P" and "queues_empty Q P u"
    and "redis_sub_laws R" and "rsub_topics R (redis_consumer u) = {}" and "uploader_subscribe 0 Q R split u = (Ret (), u0)"
    and "forwards R (vs_published s') (redis_consumer u0)"
    and "quotes = relayed (set (split (topics_list u))) (vs_published s')"
  shows "mset (vs_published s') + mset (vs_refused s') + held_back J T s' = mset (concat (map (as_published J \<circ> snd) events)) \<and>
    (T = {t0} \<longrightarrow> subseq (vs_published s') (concat (map (as_published J \<circ> snd) events)) \<and>
      (vs_refused s' = [] \<longrightarrow> vs_published s' = concat (map (as_published J \<circ> snd) events))) \<and>
    (\<forall>es c. upload_run Q P R L log_info command (new_upload_system u0 r) es c \<longrightarrow>
      subseq (taken es) quotes \<and> subseq (published es) (parsed L log_info 0 (taken es)) \<and>
      stored_args c = all_fields L (published es) \<and>
      (lossless es \<and> length (consumed es) = length quotes \<and> queues_empty Q P (us_uploader c) \<longrightarrow>
        stored_args c = all_fields L (parsed L log_info 0 quotes))) \<and>
    (\<forall>n. map snd (received R n (redis_consumer u0)) = quotes \<longrightarrow>
      (\<exists>es c. upload_run Q P R L log_info command (new_upload_system u0 r) es c \<and> lossless es \<and> consumed es = quotes \<and>
        queues_empty Q P (us_uploader c) \<and> stored_args c = all_fields L (parsed L log_info 0 quotes)))"
proof -
  note subscribed = subscribed_loop [OF assms(11,13,12,10)]
  have quotes: "quotes = relayed (rsub_topics R (redis_consumer u0)) (vs_published s')"
    using subscribed(1) assms(15) by simp
  show ?thesis
    using vendor_messages [OF assms(1-7)] uploader_run_stores [OF assms(8,9) subscribed(2) assms(14) _ quotes]
      uploader_can_store [OF assms(8,9) subscribed(2)] by blast
qed

text \<open>A Redis connection as the documentation has it: its channels and the messages still to come.\<close>

definition channel_redis :: "(string set \<times> (string \<times> string) list) redis_sub" where
  "channel_redis =
     \<lparr>rsub_consume = (\<lambda>(T, ds). case filter (\<lambda>(channel, m). channel \<in> T) ds of
                         [] \<Rightarrow> (Inr None, (T, [])) | d # rest \<Rightarrow> (Inr (Some d), (T, rest))),
      rsub_subscribe = (\<lambda>t (T, ds). (Inr (), (insert t T, ds))),
      rsub_unsubscribe = (\<lambda>t (T, ds). (Inr (), (T - {t}, ds))),
      rsub_topics = fst\<rparr>"

lemma channel_redis_laws: "redis_sub_laws channel_redis"
  by (auto simp: redis_sub_laws_def channel_redis_def split: list.splits)

lemma channel_redis_received: "received channel_redis n (T, ds) = take n (filter (\<lambda>(channel, m). channel \<in> T) ds)"
proof (induction n arbitrary: ds)
  case (Suc n)
  let ?on = "\<lambda>(channel, m). channel \<in> T"
  show ?case
  proof (cases "filter ?on ds")
    case (Cons d rest)
    from filter_eq_ConsD [OF Cons] have "filter ?on rest = rest" by auto
    with Suc [of rest] Cons show ?thesis by (simp add: channel_redis_def)
  qed (use Suc [of "[]"] in \<open>simp add: channel_redis_def\<close>)
qed simp

lemma channel_redis_forwards: "forwards channel_redis ds (T, ds)"
proof -
  have "rsub_topics channel_redis (T, ds) = T" by (simp add: channel_redis_def)
  then show ?thesis by (simp add: forwards_def channel_redis_received prefix_imp_subseq take_is_prefix)
qed

text \<open>Two threads of the client, four messages, and an uploader with one topic, which it has subscribed to.\<close>

definition sample_subscribed ::
    "(string \<times> string) list \<Rightarrow> (string list, jval list, string set \<times> (string \<times> string) list) uploader" where
  "sample_subscribed ds = (new_uploader ''A'' ({}, ds) [] [])\<lparr>redis_consumer := ({''A''}, ds)\<rparr>"

theorem quotes_reach_time_series_witness:
  "\<exists>es c. upload_run bounded_queue bounded_queue channel_redis sample_points True (\<lambda>args r. (Inr (), r))
       (new_upload_system (sample_subscribed [(''A'', ''m1''), (''A'', ''m2''), (''A'', ''m3'')]) ({}, [])) es c \<and>
     consumed es = [''m1'', ''m2'', ''m3''] \<and>
     stored_args c = [''A'', int_to_string 5, ''1.0'', ''A'', int_to_string 8, ''1.2'']"
proof -
  let ?J = "sample_json tick_texts"
  let ?ms = "[''m1'', ''x'', ''m2'', ''m3'']"
  let ?D = "[(''A'', ''m1''), (''A'', ''m2''), (''A'', ''m3'')]"
  let ?u = "new_uploader ''A'' ({}, ?D) [] []" and ?v = "sample_subscribed ?D"
  have pub: "concat (map (as_published ?J) ?ms) = ?D" "as_published ?J [] = []"
    by (simp_all add: as_published_def message_symbol_def sample_json_def tick_texts_def tick_def)
  from one_thread_reads [OF two_threads_reading(1), of ?J accept_publish ?ms] accept_publish_total obtain s' where
    s': "vendor_reads ?J accept_publish (map (Pair 0) ?ms) two_threads = (Ret (), s')" "vs_published s' = ?D"
    unfolding pub by (auto simp: two_threads_def)
  have empty: "ignores_empty ?J" by (simp add: ignores_empty_def sample_json_def tick_texts_def)
  have none: "held_back ?J {0, 1} two_threads = {#}" "vs_published two_threads = []" "vs_refused two_threads = []"
    by (simp_all add: held_back_def buffer_of_def thread_entry_def two_threads_def pub)
  have threads: "fst ` set (map (Pair 0) ?ms) \<subseteq> {0, 1 :: tid}" by simp
  have start: "queues_empty bounded_queue bounded_queue ?u" "rsub_topics channel_redis (redis_consumer ?u) = {}"
    by (simp_all add: queues_empty_def new_uploader_def channel_redis_def)
  have sub: "uploader_subscribe 0 bounded_queue channel_redis (\<lambda>s. [s]) ?u = (Ret (), ?v)"
    by (simp add: sample_subscribed_def uploader_subscribe_def new_uploader_def channel_redis_def io_seq_Ret io_return_apply)
  have fw: "forwards channel_redis (vs_published s') (redis_consumer ?v)"
    by (simp add: s'(2) sample_subscribed_def new_uploader_def channel_redis_forwards)
  have rel: "[''m1'', ''m2'', ''m3''] = relayed (set ((\<lambda>s. [s]) (topics_list ?u))) (vs_published s')"
    by (simp add: relayed_def s'(2) new_uploader_def)
  have "map snd (received channel_redis 3 (redis_consumer ?v)) = [''m1'', ''m2'', ''m3'']"
    by (simp add: sample_subscribed_def new_uploader_def channel_redis_received)
  moreover have "parsed sample_points True 0 [''m1'', ''m2'', ''m3''] = [tick ''A'' 5 ''1.0'', tick ''A'' 8 ''1.2'']"
    by (simp add: parse_point_def sample_points_def sample_json_def tick_texts_def tick_def)
  moreover have "all_fields sample_points [tick ''A'' 5 ''1.0'', tick ''A'' 8 ''1.2''] =
      [''A'', int_to_string 5, ''1.0'', ''A'', int_to_string 8, ''1.2'']"
    by (simp add: all_fields_def tick_good)
  ultimately show ?thesis
    using quotes_reach_time_series [OF empty two_threads_reading(2) threads none s'(1) bounded_queue_spsc bounded_queue_spsc
        start(1) channel_redis_laws start(2) sub fw rel, of sample_points True "\<lambda>args r. (Inr (), r)" "({}, [])"] by metis
qed

end
