(* ===== verification/Json_Codec.thy ===== *)
theory Json_Codec
  imports Json_Lib
begin

text \<open>
  The concrete JSON values of \<open>Json_Lib\<close> with a printer that escapes and a parser, both
  executable, and the proof that the parser reads back what the printer wrote. Theorems
  about the answers of the server assume such a pair of the JSON library; this one
  shows that their hypotheses can be met.
\<close>

section \<open>Printing\<close>

abbreviation quote :: char where "quote \<equiv> CHR 0x22"
abbreviation backslash :: char where "backslash \<equiv> CHR 0x5C"

definition escape_char :: "char \<Rightarrow> string" where
  "escape_char c = (if c = quote \<or> c = backslash then [backslash, c] else [c])"

definition string_text :: "string \<Rightarrow> string" where
  "string_text s = quote # concat (map escape_char s) @ [quote]"

definition more_text :: "string list \<Rightarrow> string" where
  "more_text ts = concat (map (\<lambda>t. CHR '','' # t) ts)"

fun jval_text :: "jval \<Rightarrow> string" where
  "jval_text (JString s) = string_text s"
| "jval_text (JInt n) = int_to_string n"
| "jval_text (JBool b) = (if b then ''true'' else ''false'')"
| "jval_text (JArray []) = ''[]''"
| "jval_text (JArray (v # vs)) = CHR ''['' # jval_text v @ more_text (map jval_text vs) @ '']''"
| "jval_text (JObject []) = [CHR 0x7B, CHR 0x7D]"
| "jval_text (JObject ((k, v) # kvs)) =
     CHR 0x7B # (string_text k @ CHR '':'' # jval_text v) @
     more_text (map (\<lambda>(k, v). string_text k @ CHR '':'' # jval_text v) kvs) @ [CHR 0x7D]"

section \<open>Parsing\<close>

text \<open>The rest of a string after its opening quote.\<close>

fun read_string :: "string \<Rightarrow> (string \<times> string) option" where
  "read_string [] = None"
| "read_string (c # cs) =
     (if c = quote then Some ([], cs)
      else if c = backslash
      then (case cs of [] \<Rightarrow> None | d # ds \<Rightarrow> map_option (\<lambda>(s, r). (d # s, r)) (read_string ds))
      else map_option (\<lambda>(s, r). (c # s, r)) (read_string cs))"

definition read_int :: "string \<Rightarrow> (jval \<times> string) option" where
  "read_int s =
     (let (neg, s1) = (case s of c # cs \<Rightarrow> if c = CHR ''-'' then (True, cs) else (False, s) | [] \<Rightarrow> (False, s));
          ds = takeWhile is_digit s1
      in if ds = [] then None
         else Some (JInt (if neg then - int (digits_value 0 ds) else int (digits_value 0 ds)), dropWhile is_digit s1))"

definition expect :: "char \<Rightarrow> string \<Rightarrow> string option" where
  "expect c s = (case s of d # r \<Rightarrow> if d = c then Some r else None | [] \<Rightarrow> None)"

text \<open>The first argument bounds the depth of the recursion; the length of the text is enough.\<close>

fun read_value :: "nat \<Rightarrow> string \<Rightarrow> (jval \<times> string) option"
  and read_member :: "nat \<Rightarrow> string \<Rightarrow> ((string \<times> jval) \<times> string) option"
  and read_items :: "nat \<Rightarrow> string \<Rightarrow> (jval list \<times> string) option"
  and read_members :: "nat \<Rightarrow> string \<Rightarrow> ((string \<times> jval) list \<times> string) option" where
  "read_value 0 s = None"
| "read_value (Suc n) s =
     (case s of
        [] \<Rightarrow> None
      | c # cs \<Rightarrow>
          if c = quote then map_option (\<lambda>(t, r). (JString t, r)) (read_string cs)
          else if c = CHR ''['' then
            (case expect (CHR '']'') cs of
               Some r \<Rightarrow> Some (JArray [], r)
             | None \<Rightarrow>
                 (case read_value n cs of
                    None \<Rightarrow> None
                  | Some (v, r) \<Rightarrow> map_option (\<lambda>(vs, r'). (JArray (v # vs), r')) (read_items n r)))
          else if c = CHR 0x7B then
            (case expect (CHR 0x7D) cs of
               Some r \<Rightarrow> Some (JObject [], r)
             | None \<Rightarrow>
                 (case read_member n cs of
                    None \<Rightarrow> None
                  | Some (kv, r) \<Rightarrow> map_option (\<lambda>(kvs, r'). (JObject (kv # kvs), r')) (read_members n r)))
          else if take 4 s = ''true'' then Some (JBool True, drop 4 s)
          else if take 5 s = ''false'' then Some (JBool False, drop 5 s)
          else read_int s)"
| "read_member 0 s = None"
| "read_member (Suc n) s =
     (case expect quote s of
        None \<Rightarrow> None
      | Some r \<Rightarrow>
          (case read_string r of
             None \<Rightarrow> None
           | Some (k, r1) \<Rightarrow>
               (case expect (CHR '':'') r1 of
                  None \<Rightarrow> None
                | Some r2 \<Rightarrow> map_option (\<lambda>(v, r3). ((k, v), r3)) (read_value n r2))))"
| "read_items 0 s = None"
| "read_items (Suc n) s =
     (case expect (CHR '','') s of
        None \<Rightarrow> map_option (\<lambda>r. ([], r)) (expect (CHR '']'') s)
      | Some r \<Rightarrow>
          (case read_value n r of
             None \<Rightarrow> None
           | Some (v, r1) \<Rightarrow> map_option (\<lambda>(vs, r2). (v # vs, r2)) (read_items n r1)))"
| "read_members 0 s = None"
| "read_members (Suc n) s =
     (case expect (CHR '','') s of
        None \<Rightarrow> map_option (\<lambda>r. ([], r)) (expect (CHR 0x7D) s)
      | Some r \<Rightarrow>
          (case read_member n r of
             None \<Rightarrow> None
           | Some (kv, r1) \<Rightarrow> map_option (\<lambda>(kvs, r2). (kv # kvs, r2)) (read_members n r1)))"

definition read_text :: "string \<Rightarrow> jval option" where
  "read_text s =
     (case read_value (Suc (length s)) s of Some (v, []) \<Rightarrow> Some v | _ \<Rightarrow> None)"

section \<open>The round trip\<close>

text \<open>Where a number may end.\<close>

definition no_digit :: "string \<Rightarrow> bool" where
  "no_digit s \<longleftrightarrow> (case s of [] \<Rightarrow> True | c # cs \<Rightarrow> \<not> is_digit c)"

lemma no_digit_simps [simp]:
  "no_digit []" "no_digit (CHR '','' # s)" "no_digit (CHR '']'' # s)" "no_digit (CHR 0x7D # s)"
  by (simp_all add: no_digit_def is_digit_def char_code_def)

lemma no_digit_more [simp]: "no_digit rest \<Longrightarrow> no_digit (more_text ts @ rest)"
  by (cases ts) (simp_all add: more_text_def)

lemma expect_Cons [simp]: "expect c (d # s) = (if d = c then Some s else None)" "expect c [] = None"
  by (simp_all add: expect_def)

lemma read_string_text: "read_string (concat (map escape_char s) @ quote # rest) = Some (s, rest)"
  by (induction s) (auto simp: escape_char_def)

lemma takeWhile_digits:
  "no_digit rest \<Longrightarrow> takeWhile is_digit (to_string n @ rest) = to_string n \<and> dropWhile is_digit (to_string n @ rest) = rest"
  using to_string_digits [of _ n] by (cases rest) (auto simp: no_digit_def takeWhile_append dropWhile_append)

lemma digit_first: "is_digit c \<Longrightarrow>
    c \<noteq> quote \<and> c \<noteq> CHR ''['' \<and> c \<noteq> CHR 0x7B \<and> c \<noteq> CHR ''t'' \<and> c \<noteq> CHR ''f'' \<and> c \<noteq> CHR ''-'' \<and> c \<noteq> CHR '']''"
  by (auto simp: is_digit_def char_code_def)

lemma to_string_first: obtains c cs where "to_string n = c # cs" and "is_digit c"
  using to_string_digits [of _ n] to_string_not_Nil [of n] by (cases "to_string n") auto

lemma read_int_text: "no_digit rest \<Longrightarrow> read_int (int_to_string n @ rest) = Some (JInt n, rest)"
proof -
  assume rest: "no_digit rest"
  obtain c cs where c: "to_string (nat n) = c # cs" "is_digit c" by (rule to_string_first)
  with digit_first [of c] have "c \<noteq> CHR ''-''" by simp
  with c takeWhile_digits [OF rest, of "nat n"] takeWhile_digits [OF rest, of "nat (- n)"]
    digits_value_to_string [of "nat n"]
  show ?thesis by (auto simp: read_int_def int_to_string_def Let_def)
qed

lemma read_value_int:
  "no_digit rest \<Longrightarrow> read_value (Suc n) (int_to_string i @ rest) = Some (JInt i, rest)"
proof -
  assume rest: "no_digit rest"
  obtain c cs where c: "int_to_string i = c # cs" "is_digit c \<or> c = CHR ''-''"
    by (cases "i < 0") (auto simp: int_to_string_def intro: to_string_first [of "nat i"])
  with digit_first [of c] read_int_text [OF rest, of i] show ?thesis by auto
qed

lemma jval_text_first: obtains c cs where "jval_text v = c # cs" and "c \<noteq> CHR '']''"
proof -
  have "\<exists>c cs. jval_text v = c # cs \<and> c \<noteq> CHR '']''"
  proof (cases v rule: jval_text.cases)
    case (2 n)
    obtain c cs where c: "to_string (nat n) = c # cs" "is_digit c" by (rule to_string_first)
    with 2 digit_first [of c] show ?thesis by (auto simp: int_to_string_def)
  qed (auto simp: string_text_def)
  with that show thesis by blast
qed

text \<open>What is to show of a value, and that it carries over to lists of values and members.\<close>

definition reads_back :: "jval \<Rightarrow> bool" where
  "reads_back v \<longleftrightarrow>
     (\<forall>n rest. length (jval_text v @ rest) < n \<and> no_digit rest \<longrightarrow> read_value n (jval_text v @ rest) = Some (v, rest))"

lemma reads_backD:
  "reads_back v \<Longrightarrow> length (jval_text v @ rest) < n \<Longrightarrow> no_digit rest \<Longrightarrow> read_value n (jval_text v @ rest) = Some (v, rest)"
  by (simp add: reads_back_def)

abbreviation member_text :: "string \<times> jval \<Rightarrow> string" where
  "member_text \<equiv> (\<lambda>(k, v). string_text k @ CHR '':'' # jval_text v)"

lemma read_member_text:
  assumes "reads_back v" and "length (member_text (k, v) @ rest) < n" and "no_digit rest"
  shows "read_member n (member_text (k, v) @ rest) = Some ((k, v), rest)"
proof -
  from assms(2) obtain m where m: "n = Suc m" "length (jval_text v @ rest) < m"
    by (cases n) (auto simp: string_text_def)
  from reads_backD [OF assms(1) m(2) assms(3)] show ?thesis
    by (simp add: m(1) string_text_def read_string_text)
qed

lemma read_items_text:
  "(\<And>v. v \<in> set vs \<Longrightarrow> reads_back v) \<Longrightarrow> length (more_text (map jval_text vs) @ CHR '']'' # rest) < n \<Longrightarrow>
   read_items n (more_text (map jval_text vs) @ CHR '']'' # rest) = Some (vs, rest)"
proof (induction vs arbitrary: n)
  case Nil
  then show ?case by (cases n) (simp_all add: more_text_def)
next
  case (Cons v vs)
  let ?rest = "more_text (map jval_text vs) @ CHR '']'' # rest"
  from Cons.prems(2) obtain m where m: "n = Suc m" "length (jval_text v @ ?rest) < m"
    by (cases n) (auto simp: more_text_def)
  have "read_value m (jval_text v @ ?rest) = Some (v, ?rest)"
    using Cons.prems(1) m(2) by (intro reads_backD) auto
  moreover have "read_items m ?rest = Some (vs, rest)"
    using Cons.prems(1) m(2) by (intro Cons.IH) auto
  moreover have "more_text (map jval_text (v # vs)) @ CHR '']'' # rest = CHR '','' # jval_text v @ ?rest"
    by (simp add: more_text_def)
  ultimately show ?case by (simp add: m(1))
qed

lemma read_members_text:
  "(\<And>k v. (k, v) \<in> set kvs \<Longrightarrow> reads_back v) \<Longrightarrow> length (more_text (map member_text kvs) @ CHR 0x7D # rest) < n \<Longrightarrow>
   read_members n (more_text (map member_text kvs) @ CHR 0x7D # rest) = Some (kvs, rest)"
proof (induction kvs arbitrary: n)
  case Nil
  then show ?case by (cases n) (simp_all add: more_text_def)
next
  case (Cons kv kvs)
  obtain k v where kv: "kv = (k, v)" by (cases kv)
  let ?rest = "more_text (map member_text kvs) @ CHR 0x7D # rest"
  from Cons.prems(2) obtain m where m: "n = Suc m" "length (member_text kv @ ?rest) < m"
    by (cases n) (auto simp: more_text_def)
  have "read_member m (member_text kv @ ?rest) = Some (kv, ?rest)"
    using Cons.prems(1) [of k v] m(2) unfolding kv by (intro read_member_text) auto
  moreover have "read_members m ?rest = Some (kvs, rest)"
    using Cons.prems(1) m(2) by (intro Cons.IH) auto
  moreover have "more_text (map member_text (kv # kvs)) @ CHR 0x7D # rest = CHR '','' # member_text kv @ ?rest"
    by (simp add: more_text_def)
  ultimately show ?case by (simp add: m(1))
qed

lemma reads_back_array:
  assumes "\<And>v. v \<in> set vs \<Longrightarrow> reads_back v"
  shows "reads_back (JArray vs)"
  unfolding reads_back_def
proof (intro allI impI, elim conjE)
  fix n rest
  assume n: "length (jval_text (JArray vs) @ rest) < n"
  then obtain m where m: "n = Suc m" by (cases n) simp_all
  show "read_value n (jval_text (JArray vs) @ rest) = Some (JArray vs, rest)"
  proof (cases vs)
    case (Cons v vs')
    let ?rest = "more_text (map jval_text vs') @ CHR '']'' # rest"
    have "read_value m (jval_text v @ ?rest) = Some (v, ?rest)"
      using assms [of v] n by (intro reads_backD) (simp_all add: m Cons)
    moreover have "read_items m ?rest = Some (vs', rest)"
      using assms n by (intro read_items_text) (simp_all add: m Cons)
    moreover have "expect (CHR '']'') (jval_text v @ ?rest) = None"
      by (rule jval_text_first [of v]) simp
    ultimately show ?thesis by (simp add: m Cons)
  qed (simp add: m)
qed

lemma reads_back_object:
  assumes "\<And>k v. (k, v) \<in> set kvs \<Longrightarrow> reads_back v"
  shows "reads_back (JObject kvs)"
  unfolding reads_back_def
proof (intro allI impI, elim conjE)
  fix n rest
  assume n: "length (jval_text (JObject kvs) @ rest) < n"
  then obtain m where m: "n = Suc m" by (cases n) simp_all
  show "read_value n (jval_text (JObject kvs) @ rest) = Some (JObject kvs, rest)"
  proof (cases kvs)
    case (Cons kv kvs')
    obtain k v where kv: "kv = (k, v)" by (cases kv)
    let ?rest = "more_text (map member_text kvs') @ CHR 0x7D # rest"
    have "read_member m (member_text kv @ ?rest) = Some (kv, ?rest)"
      using assms [of k v] n unfolding kv by (intro read_member_text) (simp_all add: m Cons kv)
    moreover have "\<And>k v. (k, v) \<in> set kvs' \<Longrightarrow> reads_back v" using assms by (auto simp: Cons)
    then have "read_members m ?rest = Some (kvs', rest)"
      using n by (intro read_members_text) (simp_all add: m Cons kv)
    ultimately show ?thesis by (simp add: m Cons kv string_text_def)
  qed (simp add: m)
qed

lemma jval_reads_back: "reads_back v"
proof (induction v)
  case (JString s)
  have "read_value n (jval_text (JString s) @ rest) = Some (JString s, rest)" if "0 < n" for n rest
    using that by (cases n) (simp_all add: string_text_def read_string_text)
  then show ?case by (auto simp: reads_back_def)
next
  case (JInt i)
  have "read_value n (int_to_string i @ rest) = Some (JInt i, rest)" if "0 < n" "no_digit rest" for n rest
    using that read_value_int by (cases n) simp_all
  then show ?case by (auto simp: reads_back_def)
next
  case (JBool b)
  have "read_value n (jval_text (JBool b) @ rest) = Some (JBool b, rest)" if "0 < n" for n rest
    using that by (cases n) (simp_all add: eval_nat_numeral)
  then show ?case by (auto simp: reads_back_def)
next
  case (JArray vs)
  then show ?case by (rule reads_back_array)
next
  case (JObject kvs)
  then show ?case by (intro reads_back_object) (auto elim!: Basic_BNFs.snds.cases)
qed

theorem read_text_inverts: "read_text (jval_text v) = Some v"
  using reads_backD [OF jval_reads_back, of v "[]" "Suc (length (jval_text v))"]
  by (simp add: read_text_def del: read_value.simps)

text \<open>The library instance with this printer and parser.\<close>

definition codec_json :: "jval json_lib" where
  "codec_json = (sample_json (\<lambda>s. None))
     \<lparr>js_parse := (\<lambda>opts s. case read_text s of Some v \<Rightarrow> Inr v | None \<Rightarrow> Inl (Library_exception ''syntax error'')),
      js_serialize := jval_text\<rparr>"

end
