(* ===== verification/Controller_Answers.thy ===== *)
theory Controller_Answers
  imports Controllers Json_Codec
begin

text \<open>
  What a client reads in the answers of the two routes that answer JSON objects of their own
  (\<open>fundamentals\<close> and \<open>duckdb\<close>): the composition of the router's template, the controllers,
  the models' \<open>to_json\<close> and the JSON library.
\<close>

section \<open>Reading JSON\<close>

text \<open>
  What the library and the JSON format document. \<open>well_formed\<close> are the values whose texts are
  valid UTF-8 (\<open>utf8\<close>); serializing one gives its JSON text, which \<open>read\<close>, the parser of a
  client, makes a value of again. The other laws are about member access.
\<close>

definition json_reads_back ::
    "'j json_lib \<Rightarrow> (string \<Rightarrow> bool) \<Rightarrow> ('j \<Rightarrow> bool) \<Rightarrow> (string \<Rightarrow> 'j option) \<Rightarrow> bool" where
  "json_reads_back J utf8 well_formed read \<longleftrightarrow>
     (\<forall>v. well_formed v \<longrightarrow> read (js_serialize J v) = Some v) \<and>
     well_formed (js_empty_object J) \<and>
     (\<forall>s. utf8 s \<longrightarrow> well_formed (js_of_string J s)) \<and>
     (\<forall>vs. list_all well_formed vs \<longrightarrow> well_formed (js_of_array J vs)) \<and>
     (\<forall>k v obj. utf8 k \<and> well_formed v \<and> well_formed obj \<longrightarrow> well_formed (js_set J k v obj)) \<and>
     (\<forall>s. set s \<subseteq> {c. char_code c < 128} \<longrightarrow> utf8 s)"

definition json_member_laws :: "'j json_lib \<Rightarrow> bool" where
  "json_member_laws J \<longleftrightarrow>
     (\<forall>k v obj. js_at J (js_set J k v obj) k = Inr v) \<and>
     (\<forall>k k' v obj x. k' \<noteq> k \<longrightarrow> js_at J obj k' = Inr x \<longrightarrow> js_at J (js_set J k v obj) k' = Inr x) \<and>
     (\<forall>s. js_to_string J (js_of_string J s) = Inr s) \<and>
     (\<forall>vs. js_array J (js_of_array J vs) = Some vs)"

text \<open>A text and an array at a member.\<close>

definition text_at :: "'j json_lib \<Rightarrow> 'j \<Rightarrow> string \<Rightarrow> exn + string" where
  "text_at J v k = (case js_at J v k of Inl e \<Rightarrow> Inl e | Inr x \<Rightarrow> js_to_string J x)"

definition array_at :: "'j json_lib \<Rightarrow> 'j \<Rightarrow> string \<Rightarrow> 'j list option" where
  "array_at J v k = (case js_at J v k of Inl e \<Rightarrow> None | Inr x \<Rightarrow> js_array J x)"

lemma fold_keeps_member:
  assumes J: "json_member_laws J"
  shows "k \<notin> fst ` set kvs \<Longrightarrow> js_at J obj k = Inr x \<Longrightarrow> js_at J (fold (\<lambda>(k, v) obj. js_set J k v obj) kvs obj) k = Inr x"
  using J by (induction kvs arbitrary: obj) (auto simp: json_member_laws_def)

lemma fold_member:
  assumes J: "json_member_laws J"
  shows "distinct (map fst kvs) \<Longrightarrow> (k, v) \<in> set kvs \<Longrightarrow> js_at J (fold (\<lambda>(k, v) obj. js_set J k v obj) kvs obj) k = Inr v"
proof (induction kvs arbitrary: obj)
  case (Cons kv kvs)
  have "js_at J (js_set J k v obj) k = Inr v" using J by (simp add: json_member_laws_def)
  with Cons fold_keeps_member [OF J, of k kvs "js_set J k v obj" v] show ?case by (cases kv) auto
qed simp

lemma object_member:
  "json_member_laws J \<Longrightarrow> distinct (map fst kvs) \<Longrightarrow> (k, v) \<in> set kvs \<Longrightarrow> js_at J (js_object J kvs) k = Inr v"
  unfolding js_object_def by (rule fold_member)

lemma object_well_formed:
  assumes "json_reads_back J utf8 well_formed read"
  shows "list_all (\<lambda>(k, v). utf8 k \<and> well_formed v) kvs \<Longrightarrow> well_formed (js_object J kvs)"
proof -
  have "list_all (\<lambda>(k, v). utf8 k \<and> well_formed v) kvs \<Longrightarrow> well_formed obj \<Longrightarrow>
      well_formed (fold (\<lambda>(k, v) obj. js_set J k v obj) kvs obj)" for obj
    using assms by (induction kvs arbitrary: obj) (auto simp: json_reads_back_def)
  with assms show "list_all (\<lambda>(k, v). utf8 k \<and> well_formed v) kvs \<Longrightarrow> well_formed (js_object J kvs)"
    by (simp add: js_object_def json_reads_back_def)
qed

lemma object_reads_back:
  assumes "json_reads_back J utf8 well_formed read" and "list_all (\<lambda>(k, v). utf8 k \<and> well_formed v) kvs"
  shows "read (js_serialize J (js_object J kvs)) = Some (js_object J kvs)"
  using object_well_formed [OF assms] assms(1) by (simp add: json_reads_back_def)

lemma ascii_utf8:
  "json_reads_back J utf8 well_formed read \<Longrightarrow> list_all (\<lambda>c. char_code c < 128) s \<Longrightarrow> utf8 s"
  by (auto simp: json_reads_back_def list_all_iff)

section \<open>The models\<close>

lemma presigned_reads_back:
  assumes "json_reads_back J utf8 well_formed read" and J: "json_member_laws J"
    and "list_all utf8 [pm_bucket m, pm_key m, pm_url m, pm_expires m, pm_id m]"
  shows "\<exists>v. read (PreSignedUrlModel_to_json J m) = Some v \<and>
     text_at J v ''Bucket'' = Inr (pm_bucket m) \<and> text_at J v ''Key'' = Inr (pm_key m) \<and> text_at J v ''URL'' = Inr (pm_url m) \<and>
     text_at J v ''Expires'' = Inr (pm_expires m) \<and> text_at J v ''id'' = Inr (pm_id m)"
proof -
  let ?kvs = "[(''Bucket'', js_of_string J (pm_bucket m)), (''Key'', js_of_string J (pm_key m)),
     (''URL'', js_of_string J (pm_url m)), (''Expires'', js_of_string J (pm_expires m)), (''id'', js_of_string J (pm_id m))]"
  note utf8 = ascii_utf8 [OF assms(1)]
  have "list_all (\<lambda>(k, v). utf8 k \<and> well_formed v) ?kvs"
    using assms(1,3) by (simp add: utf8 char_code_def) (simp add: json_reads_back_def)
  from object_reads_back [OF assms(1) this] object_member [OF J, of ?kvs] J show ?thesis
    by (auto simp: PreSignedUrlModel_to_json_def text_at_def json_member_laws_def)
qed

lemma duckdb_reads_back:
  assumes "json_reads_back J utf8 well_formed read" and J: "json_member_laws J"
    and "list_all utf8 [dm_bucket m, dm_key m, dm_where_clause m]" and "list_all well_formed (dm_db_query_result m)"
  shows "\<exists>v. read (DuckDBModel_to_json J m) = Some v \<and>
     text_at J v ''Bucket'' = Inr (dm_bucket m) \<and> array_at J v ''DbQueryResult'' = Some (dm_db_query_result m) \<and>
     text_at J v ''Key'' = Inr (dm_key m) \<and> text_at J v ''WhereClause'' = Inr (dm_where_clause m)"
proof -
  let ?kvs = "[(''Bucket'', js_of_string J (dm_bucket m)), (''DbQueryResult'', js_of_array J (dm_db_query_result m)),
     (''Key'', js_of_string J (dm_key m)), (''WhereClause'', js_of_string J (dm_where_clause m))]"
  note utf8 = ascii_utf8 [OF assms(1)]
  have "list_all (\<lambda>(k, v). utf8 k \<and> well_formed v) ?kvs"
    using assms(1,3,4) by (simp add: utf8 char_code_def) (simp add: json_reads_back_def)
  from object_reads_back [OF assms(1) this] object_member [OF J, of ?kvs] J show ?thesis
    by (auto simp: DuckDBModel_to_json_def text_at_def array_at_def json_member_laws_def)
qed

section \<open>The routes\<close>

lemma validated_fund:
  "params ''sravzid'' = Some i \<Longrightarrow>
   FundamentalsController_validate_request (PreSignedUrlModel params) = (PreSignedUrlModel params)\<lparr>pm_sravzid := i\<rparr>"
  by (simp add: FundamentalsController_validate_request_def set_param_def)

lemma validated_query:
  "params ''bucket'' = Some b \<Longrightarrow> params ''key'' = Some k \<Longrightarrow> params ''where_clause'' = Some c \<Longrightarrow>
   DuckDBController_validate_request (DuckDBModel params) =
     (DuckDBModel params)\<lparr>dm_bucket := b, dm_key := k, dm_where_clause := c\<rparr>"
  by (simp add: DuckDBController_validate_request_def set_param_def)

lemma untouched_fields:
  "pm_bucket (PreSignedUrlModel p) = []" "pm_key (PreSignedUrlModel p) = []"
  "pm_expires (PreSignedUrlModel p) = []" "pm_id (PreSignedUrlModel p) = []"
  by (simp_all add: PreSignedUrlModel_def BaseModel_def base_model.defs)

text \<open>
  C27: the answers of the two routes can be read back. Whenever the fundamentals route answers, the
  URL of the fund is in the cache, and a client that parses the body finds exactly this URL
  under \<open>URL\<close>, while the members \<open>Bucket\<close>, \<open>Key\<close>, \<open>Expires\<close> and \<open>id\<close> are always empty texts.
  Whenever the DuckDB route answers a query, the client finds the bucket, the key and the
  clause of its request and, under \<open>DbQueryResult\<close>, the rows that were selected.
\<close>
theorem controller_answers_read_back:
  assumes "json_reads_back J utf8 well_formed read" and "json_member_laws J" and "redis_keeps (fd_redis F)"
  shows "(params ''sravzid'' = Some i \<and>
      route_to_controller PreSignedUrlModel FundamentalsController_validate_request
        (FundamentalsController_get F) (PreSignedUrlModel_to_json J) params w = (Ret (st, body), w') \<longrightarrow>
      (\<exists>url. rd_get (fd_redis F) (fundamentals_location i) w' = (Ret (Some url), w') \<and>
        (utf8 url \<longrightarrow> (\<exists>v. read body = Some v \<and> text_at J v ''URL'' = Inr url \<and>
           list_all (\<lambda>k. text_at J v k = Inr []) [''Bucket'', ''Key'', ''Expires'', ''id''])))) \<and>
    (query ''bucket'' = Some b \<and> query ''key'' = Some k \<and> query ''where_clause'' = Some c \<and> list_all utf8 [b, k, c] \<and>
      route_to_controller DuckDBModel DuckDBController_validate_request
        (DuckDBController_get D) (DuckDBModel_to_json J) query x = (Ret (st', rows_body), x') \<longrightarrow>
      (\<exists>rows. DuckDBController_select D b k c x = (Ret rows, x') \<and>
        (list_all well_formed rows \<longrightarrow> (\<exists>v. read rows_body = Some v \<and> array_at J v ''DbQueryResult'' = Some rows \<and>
           text_at J v ''Bucket'' = Inr b \<and> text_at J v ''Key'' = Inr k \<and> text_at J v ''WhereClause'' = Inr c))))"
proof (intro conjI impI; elim conjE)
  assume i: "params ''sravzid'' = Some i"
    and r: "route_to_controller PreSignedUrlModel FundamentalsController_validate_request
        (FundamentalsController_get F) (PreSignedUrlModel_to_json J) params w = (Ret (st, body), w')"
  let ?m = "(PreSignedUrlModel params)\<lparr>pm_sravzid := i\<rparr>"
  from r obtain m' where m': "FundamentalsController_get F ?m w = (Ret m', w')" "body = PreSignedUrlModel_to_json J m'"
    by (auto simp: fundamentals.routed_to_get i validated_fund io_bind_Ret_iff io_return_apply)
  from FundamentalsController_get_caches [OF assms(3) m'(1)] obtain url where
    url: "m' = ?m\<lparr>pm_url := url\<rparr>" "rd_get (fd_redis F) (fundamentals_location i) w' = (Ret (Some url), w')" by auto
  have "utf8 []" using ascii_utf8 [OF assms(1), of "[]"] by simp
  with presigned_reads_back [OF assms(1,2), of m'] url
  show "\<exists>url. rd_get (fd_redis F) (fundamentals_location i) w' = (Ret (Some url), w') \<and>
        (utf8 url \<longrightarrow> (\<exists>v. read body = Some v \<and> text_at J v ''URL'' = Inr url \<and>
           list_all (\<lambda>k. text_at J v k = Inr []) [''Bucket'', ''Key'', ''Expires'', ''id'']))"
    by (simp add: m'(2) untouched_fields) blast
next
  assume q: "query ''bucket'' = Some b" "query ''key'' = Some k" "query ''where_clause'' = Some c" "list_all utf8 [b, k, c]"
    and r: "route_to_controller DuckDBModel DuckDBController_validate_request
        (DuckDBController_get D) (DuckDBModel_to_json J) query x = (Ret (st', rows_body), x')"
  let ?m = "(DuckDBModel query)\<lparr>dm_bucket := b, dm_key := k, dm_where_clause := c\<rparr>"
  from r obtain rows where rows: "DuckDBController_select D b k c x = (Ret rows, x')"
    "rows_body = DuckDBModel_to_json J (?m\<lparr>dm_db_query_result := rows\<rparr>)"
    by (auto simp: duckdb.routed_to_get validated_query [OF q(1-3)] DuckDBController_get_def io_bind_Ret_iff io_return_apply)
  with duckdb_reads_back [OF assms(1,2), of "?m\<lparr>dm_db_query_result := rows\<rparr>"] q(4)
  show "\<exists>rows. DuckDBController_select D b k c x = (Ret rows, x') \<and>
        (list_all well_formed rows \<longrightarrow> (\<exists>v. read rows_body = Some v \<and> array_at J v ''DbQueryResult'' = Some rows \<and>
           text_at J v ''Bucket'' = Inr b \<and> text_at J v ''Key'' = Inr k \<and> text_at J v ''WhereClause'' = Inr c))"
    by auto
qed

section \<open>The concrete parser\<close>

lemma map_of_update: "map_of (jval_update k v kvs) = (map_of kvs)(k \<mapsto> v)"
  by (induction k v kvs rule: jval_update.induct) (auto simp: fun_eq_iff)

lemma codec_laws: "json_reads_back codec_json (\<lambda>s. True) (\<lambda>v. True) read_text" "json_member_laws codec_json"
  by (auto simp: json_reads_back_def json_member_laws_def codec_json_def sample_json_def read_text_inverts map_of_update
      split: jval.splits)

theorem controller_answers_read_back_witness:
  "\<forall>S N. \<exists>body w'. route_to_controller PreSignedUrlModel FundamentalsController_validate_request
      (FundamentalsController_get (full_fundamentals S N)) (PreSignedUrlModel_to_json codec_json)
      [''sravzid'' \<mapsto> ''fund_us_abc''] Map.empty = (Ret (Status_ok, body), w') \<and>
     (\<exists>v. read_text body = Some v \<and> text_at codec_json v ''URL'' = Inr ''u'')"
proof (intro allI)
  fix S N
  let ?F = "full_fundamentals S N" and ?p = "[''sravzid'' \<mapsto> ''fund_us_abc''] :: string \<Rightarrow> string option"
  let ?loc = "fundamentals_location ''fund_us_abc''"
  let ?route = "\<lambda>w. route_to_controller PreSignedUrlModel FundamentalsController_validate_request
      (FundamentalsController_get ?F) (PreSignedUrlModel_to_json codec_json) ?p w"
  have keeps: "redis_keeps (fd_redis ?F)" by (simp add: redis_keeps_def full_fundamentals_def map_redis_def)
  obtain body where r: "?route Map.empty = (Ret (Status_ok, body), [?loc \<mapsto> ''u''])"
    by (simp add: fundamentals.routed_to_get validated_fund FundamentalsController_get_miss full_fundamentals_def map_redis_def
        io_bind_def io_return_def)
  have "rd_get (fd_redis ?F) ?loc [?loc \<mapsto> ''u''] = (Ret (Some ''u''), [?loc \<mapsto> ''u''])"
    by (simp add: full_fundamentals_def map_redis_def)
  with controller_answers_read_back [OF codec_laws keeps, THEN conjunct1, rule_format, of ?p "''fund_us_abc''"] r
  have "\<exists>v. read_text body = Some v \<and> text_at codec_json v ''URL'' = Inr ''u''" by fastforce
  with r show "\<exists>body w'. ?route Map.empty = (Ret (Status_ok, body), w') \<and>
     (\<exists>v. read_text body = Some v \<and> text_at codec_json v ''URL'' = Inr ''u'')" by blast
qed

end
