(* ===== verification/Webserver.thy ===== *)
theory Webserver
  imports Publisher Subscriber Listener Backend_Utils
begin

text \<open>
  \<open>src/web/webserver.cpp\<close>: the function that builds the web server out of its parts, starts
  its threads and waits for them. The parsing of an address, the splitting of lists, the clock
  and the Redis client are parameters. The result of \<open>webserver_start\<close> is the server when the
  threads have been started; \<open>webserver_join\<close> is the rest of the function after the signal
  handler has stopped the contexts.
\<close>

section \<open>Starting\<close>

datatype io_context = Ioc | Ioc_background_worker | Ioc_subscriber | Ioc_publisher

datatype posted_loop = Subscriber_loop | Publisher_loop

record ('addr, 'pq, 'sq, 'a, 'r) server =
  sv_endpoint :: "'addr \<times> 16 word"
  sv_state :: "('pq, 'sq) shared_state"
  sv_listener :: "'a listener"
  sv_subscriber :: "('pq, 'sq, 'r) subscriber"
  sv_publisher :: "('pq, 'sq) publisher"
  sv_posted :: "posted_loop list"
  sv_threads :: "io_context list"

text \<open>The threads in the order they are started: two loops that count down from \<open>threads - 1\<close>.\<close>

definition server_threads :: "int \<Rightarrow> io_context list" where
  "server_threads threads =
     replicate (nat (threads - 1)) Ioc @ replicate (nat (threads - 1)) Ioc_background_worker @
     [Ioc_subscriber, Ioc_publisher]"

text \<open>A value of \<open>atoi\<close> that the standard leaves undefined is \<open>Abort\<close> here.\<close>

definition webserver_start ::
    "(string \<Rightarrow> exn + 'addr) \<Rightarrow> (string \<Rightarrow> string list) \<Rightarrow> (nat \<Rightarrow> int) \<Rightarrow> 'pq \<Rightarrow> 'sq \<Rightarrow> 'a acceptor_ops \<Rightarrow> 'a \<Rightarrow>
     environment \<Rightarrow> connection_options \<Rightarrow> (connection_options \<Rightarrow> 'r) \<Rightarrow>
     string \<Rightarrow> string \<Rightarrow> string \<Rightarrow> string \<Rightarrow> string \<Rightarrow> (string \<Rightarrow> string option) \<Rightarrow>
     ('addr, 'pq, 'sq, 'a, 'r) server outcome" where
  "webserver_start make_address split now pq sq A acceptor E opts0 connect address_text port_text doc_root_text threads_text topics_text vm =
     out_bind (of_sum (make_address address_text)) (\<lambda>address.
     out_bind (case atoi port_text of None \<Rightarrow> Abort | Some n \<Rightarrow> Ret (word_of_int n)) (\<lambda>port.
     out_bind (case atoi threads_text of None \<Rightarrow> Abort | Some n \<Rightarrow> Ret (max 1 n)) (\<lambda>threads.
     out_bind (new_shared_state split now pq sq doc_root_text topics_text vm) (\<lambda>st.
     out_bind (GetRedisConnectionOptions E opts0) (\<lambda>opts.
       Ret \<lparr>sv_endpoint = (address, port), sv_state = st,
            sv_listener = listener_run (new_listener A acceptor),
            sv_subscriber = new_subscriber (connect opts) st,
            sv_publisher = \<lparr>pb_state = st, pb_sessions = Map.empty\<rparr>,
            sv_posted = [Publisher_loop],
            sv_threads = server_threads threads\<rparr>)))))"

section \<open>Waiting\<close>

text \<open>\<open>publisher::publish\<close>: the loop has no exit; \<open>None\<close> means that it does not end.\<close>

partial_function (option) publisher_loop ::
    "('pq, string \<times> string) spsc \<Rightarrow> (nat \<Rightarrow> 'pq \<Rightarrow> 'pq) \<Rightarrow> (sid set \<Rightarrow> sid list) \<Rightarrow> ('pq, 'sq) publisher \<Rightarrow>
     unit outcome option" where
  "publisher_loop Q sleep order p =
     (case publisher_iteration Q sleep order p of
        (Ret u, p') \<Rightarrow> publisher_loop Q sleep order p'
      | (Throw e, p') \<Rightarrow> Some (Throw e)
      | (Abort, p') \<Rightarrow> Some Abort
      | (Blocked, p') \<Rightarrow> None)"

text \<open>
  How the threads of a context end after the signal handler ran: \<open>stop\<close> makes \<open>run\<close> return once
  the handler in progress has returned, the subscriber's context has no work, and the
  publisher's runs the loop. The signal arrives when the threads are running; one that comes in
  the instant before the publisher's thread enters \<open>run\<close> is left aside.
\<close>

definition thread_end ::
    "posted_loop list \<Rightarrow> unit outcome option \<Rightarrow> io_context \<Rightarrow> unit outcome option" where
  "thread_end posted_loops publisher_end ctx =
     (case ctx of
        Ioc_publisher \<Rightarrow> if Publisher_loop \<in> set posted_loops then publisher_end else Some (Ret ())
      | _ \<Rightarrow> Some (Ret ()))"

fun join_threads :: "('t \<Rightarrow> unit outcome option) \<Rightarrow> 't list \<Rightarrow> int outcome option" where
  "join_threads ends [] = Some (Ret 0)"
| "join_threads ends (t # ts) =
     (case ends t of
        None \<Rightarrow> None
      | Some (Ret u) \<Rightarrow> join_threads ends ts
      | Some (Throw e) \<Rightarrow> Some Abort
      | Some Abort \<Rightarrow> Some Abort
      | Some Blocked \<Rightarrow> None)"

definition webserver_join ::
    "('pq, string \<times> string) spsc \<Rightarrow> (nat \<Rightarrow> 'pq \<Rightarrow> 'pq) \<Rightarrow> (sid set \<Rightarrow> sid list) \<Rightarrow> ('addr, 'pq, 'sq, 'a, 'r) server \<Rightarrow>
     int outcome option" where
  "webserver_join P sleep order sv =
     join_threads (thread_end (sv_posted sv) (publisher_loop P sleep order (sv_publisher sv))) (sv_threads sv)"

section \<open>Lemmas\<close>

lemma publisher_loop_never_returns:
  assumes "publisher_loop P sleep order p = Some r"
  shows "r \<noteq> Ret ()"
proof (rule publisher_loop.raw_induct [where P = "\<lambda>Q sleep order p r. r \<noteq> Ret ()", OF _ assms])
  fix f Q sleep order p r
  assume IH: "\<And>Q sleep order p r. f Q sleep order p = Some r \<Longrightarrow> r \<noteq> Ret ()"
    and eq: "(case publisher_iteration Q sleep order p of
        (Ret u, p') \<Rightarrow>  f Q sleep order p'
      | (Throw e, p') \<Rightarrow> Some (Throw e)
      | (Abort, p') \<Rightarrow> Some Abort
      | (Blocked, p') \<Rightarrow> None) = Some r"
  show "r \<noteq> Ret ()"
  proof (cases "publisher_iteration Q sleep order p")
    case (Pair out p')
    with eq IH show ?thesis by (cases out) auto
  qed
qed

lemma join_threads_returns: "join_threads ends ts = Some (Ret v) \<Longrightarrow> t \<in> set ts \<Longrightarrow> ends t = Some (Ret ())"
  by (induction ts) (auto split: option.splits outcome.splits)

lemma webserver_start_Ret:
  assumes "webserver_start make_address split now pq sq A acceptor E opts0 connect address_text port_text doc_root_text threads_text topics_text vm = Ret sv"
  obtains n k st where "atoi port_text = Some n" "atoi threads_text = Some k" "snd (sv_endpoint sv) = word_of_int n"
    "sv_threads sv = server_threads (max 1 k)" "sv_posted sv = [Publisher_loop]"
    "new_shared_state split now pq sq doc_root_text topics_text vm = Ret st" "sv_state sv = st"
  using assms by (auto simp: webserver_start_def split: option.splits)

lemma count_list_replicate: "count_list (replicate n x) y = (if x = y then n else 0)"
  by (induction n) auto

lemma server_threads_count:
  "count_list (server_threads threads) Ioc = nat (threads - 1)"
  "count_list (server_threads threads) Ioc_background_worker = nat (threads - 1)"
  "count_list (server_threads threads) Ioc_publisher = 1"
  by (simp_all add: server_threads_def count_list_replicate)

lemma server_threads_one:
  "Ioc \<notin> set (server_threads 1) \<and> Ioc_background_worker \<notin> set (server_threads 1)"
  by (simp add: server_threads_def)

section \<open>Properties\<close>

definition no_acceptor :: "unit acceptor_ops" where
  "no_acceptor = \<lparr>ac_open = (\<lambda>a. (None, a)), ac_set_option = (\<lambda>a. (None, a)), ac_bind = (\<lambda>a. (None, a)), ac_listen = (\<lambda>a. (None, a))\<rparr>"

definition sample_server ::
    "string \<Rightarrow> string \<Rightarrow> (string, (string \<times> string) list, (MsgType \<times> string) list, unit, connection_options) server outcome" where
  "sample_server port threads =
     webserver_start Inr (\<lambda>s. [s]) (\<lambda>_. 0) [] [] no_acceptor () Map.empty
       \<lparr>opt_host = ''localhost'', opt_port = 6379, opt_password = [], opt_socket_timeout = 0\<rparr> (\<lambda>opts. opts)
       ''0.0.0.0'' port ''.'' threads ''ETH'' sample_vm"

lemma sample_server_starts:
  "\<exists>sv. sample_server ''8080'' ''1'' = Ret sv" "\<exists>sv. sample_server ''8080'' ''4'' = Ret sv"
  by (simp_all add: sample_server_def webserver_start_def new_shared_state_def sample_vm_def GetRedisConnectionOptions_def
      Getenv_def atoi_def parse_decimal_def Let_def char_code_def int_min_def int_max_def is_digit_def is_space_def)

text \<open>
  The number of threads. A server that starts runs one thread less than asked for on each
  of its two pools, so that with a thread count of one or less (or one that is not a number) no
  thread accepts connections and none routes requests; the publisher has one thread, and the
  loop of the Redis subscriber is never posted.
\<close>
theorem webserver_threads:
  assumes "webserver_start make_address split now pq sq A acceptor E opts0 connect address_text port_text doc_root_text threads_text topics_text vm = Ret sv"
  shows "\<exists>k. atoi threads_text = Some k \<and>
    count_list (sv_threads sv) Ioc = nat (k - 1) \<and> count_list (sv_threads sv) Ioc_background_worker = nat (k - 1) \<and>
    count_list (sv_threads sv) Ioc_publisher = 1 \<and>
    (k \<le> 1 \<longrightarrow> Ioc \<notin> set (sv_threads sv) \<and> Ioc_background_worker \<notin> set (sv_threads sv)) \<and>
    Subscriber_loop \<notin> set (sv_posted sv)"
  using assms
  by (rule webserver_start_Ret)
    (auto simp: server_threads_count server_threads_one)

theorem webserver_threads_witness:
  "\<exists>sv. sample_server ''8080'' ''1'' = Ret sv \<and> Ioc \<notin> set (sv_threads sv) \<and> count_list (sv_threads sv) Ioc_publisher = 1"
proof -
  obtain sv where sv: "sample_server ''8080'' ''1'' = Ret sv" using sample_server_starts(1) ..
  have one: "atoi ''1'' = Some 1" by code_simp
  from webserver_threads [OF sv [unfolded sample_server_def]] one have "Ioc \<notin> set (sv_threads sv) \<and> count_list (sv_threads sv) Ioc_publisher = 1"
    by simp
  with sv show ?thesis by blast
qed

text \<open>
  The server never shuts down cleanly. When the signal handler has stopped the contexts of a
  running server, the function waits for all its threads, and the loop of the publisher has
  no exit: whatever the queues hold, \<open>webserver\<close> does not return.
\<close>
theorem webserver_never_returns:
  assumes "webserver_start make_address split now pq sq A acceptor E opts0 connect address_text port_text doc_root_text threads_text topics_text vm = Ret sv"
  shows "webserver_join P sleep order sv \<noteq> Some (Ret v)"
proof
  assume r: "webserver_join P sleep order sv = Some (Ret v)"
  from assms have "Ioc_publisher \<in> set (sv_threads sv)" "sv_posted sv = [Publisher_loop]"
    by (auto elim!: webserver_start_Ret simp: server_threads_def)
  with join_threads_returns [OF r [unfolded webserver_join_def]] publisher_loop_never_returns
  show False by (fastforce simp: thread_end_def)
qed

theorem webserver_never_returns_witness:
  "\<exists>sv. sample_server ''8080'' ''4'' = Ret sv \<and>
     webserver_join bounded_queue (\<lambda>ms q. q) sorted_list_of_set sv \<noteq> Some (Ret 0)"
proof -
  obtain sv where sv: "sample_server ''8080'' ''4'' = Ret sv" using sample_server_starts(2) ..
  with webserver_never_returns [OF sv [unfolded sample_server_def]] show ?thesis by blast
qed

end
