(* ===== verification/Main_Program.thy ===== *)
theory Main_Program
  imports Backend_Utils
begin

text \<open>
  \<open>src/main.cpp\<close> and the rest of \<open>include/main.hpp\<close>: options, environment, log level and the
  choice of the sub-program. Boost.Program_options is a parameter as far as it parses text:
  the options of the command line and of the file arrive as maps. The three sub-programs
  are the fields of \<open>programs\<close>; they have theories of their own.
\<close>

declare get_hash.simps [simp del]

section \<open>Options\<close>

record variables_map =
  vm_text :: "string \<Rightarrow> string option"
  vm_int :: "string \<Rightarrow> int option"
  vm_flags :: "string list"

text \<open>
  A value that is stored already is kept: the command line wins over the file. (The library lets
  a value given later replace a default, but the two options that have defaults are options
  of the command line only, and the file cannot name them.)
\<close>

definition store_options :: "variables_map \<Rightarrow> variables_map \<Rightarrow> variables_map" where
  "store_options new vm =
     \<lparr>vm_text = (\<lambda>k. case vm_text vm k of Some v \<Rightarrow> Some v | None \<Rightarrow> vm_text new k),
      vm_int = (\<lambda>k. case vm_int vm k of Some v \<Rightarrow> Some v | None \<Rightarrow> vm_int new k),
      vm_flags = vm_flags vm @ vm_flags new\<rparr>"

definition default_options :: variables_map where
  "default_options =
     \<lparr>vm_text = [''config'' \<mapsto> ''app.production.cfg'', ''sub-program-name'' \<mapsto> ''ws-vendor''],
      vm_int = Map.empty, vm_flags = []\<rparr>"

text \<open>\<open>vm[name].as<string>()\<close> and \<open>vm[name].as<int>()\<close>: a missing option is a bad cast.\<close>

definition as_text :: "variables_map \<Rightarrow> string \<Rightarrow> string outcome" where
  "as_text vm name =
     (case vm_text vm name of Some v \<Rightarrow> Ret v | None \<Rightarrow> Throw (Library_exception ''bad any_cast''))"

definition as_number :: "variables_map \<Rightarrow> string \<Rightarrow> int outcome" where
  "as_number vm name =
     (case vm_int vm name of Some v \<Rightarrow> Ret v | None \<Rightarrow> Throw (Library_exception ''bad any_cast''))"

definition sub_program_options :: "string list" where
  "sub_program_options = [''redis-uploader'', ''webserver'', ''ws-vendor'']"

section \<open>Environment\<close>

text \<open>The mapper of \<open>parse_environment\<close>: a switch over hash values, not over names.\<close>

definition env_option :: "string \<Rightarrow> string" where
  "env_option i_env_var =
     (if get_hash i_env_var = get_hash ''REDIS_HOST'' then ''redis_host''
      else if get_hash i_env_var = get_hash ''REDIS_PORT'' then ''redis_port''
      else if get_hash i_env_var = get_hash ''REDIS_PASSWORD'' then ''redis_password''
      else if get_hash i_env_var = get_hash ''JWT_ACCESS_TOKEN_SECRET'' then ''JWT_ACCESS_TOKEN_SECRET''
      else if get_hash i_env_var = get_hash ''DisableJWTTokenValidation'' then ''DisableJWTTokenValidation''
      else [])"

text \<open>A variable that maps to no option is skipped; an option that occurs twice is an error.\<close>

fun parse_environment :: "(string \<times> string) list \<Rightarrow> (string \<Rightarrow> string option) \<Rightarrow> (string \<Rightarrow> string option) outcome" where
  "parse_environment [] vm_env = Ret vm_env"
| "parse_environment ((name, v) # vars) vm_env =
     (let opt = env_option name
      in if opt = [] then parse_environment vars vm_env
         else if vm_env opt \<noteq> None then Throw (Library_exception ''option cannot be specified more than once'')
         else parse_environment vars (vm_env(opt \<mapsto> v)))"

section \<open>Log level\<close>

datatype severity = Trace | Debug | Info | Warning | Error | Fatal

text \<open>The levels of Boost.Log in the order that \<open>severity >= level\<close> compares them by.\<close>

primrec severity_level :: "severity \<Rightarrow> nat" where
  "severity_level Trace = 0"
| "severity_level Debug = 1"
| "severity_level Info = 2"
| "severity_level Warning = 3"
| "severity_level Error = 4"
| "severity_level Fatal = 5"

instantiation severity :: linorder
begin

definition less_eq_severity :: "severity \<Rightarrow> severity \<Rightarrow> bool" where
  "less_eq_severity a b \<longleftrightarrow> severity_level a \<le> severity_level b"

definition less_severity :: "severity \<Rightarrow> severity \<Rightarrow> bool" where
  "less_severity a b \<longleftrightarrow> severity_level a < severity_level b"

instance
  apply intro_classes
  apply (auto simp: less_eq_severity_def less_severity_def)
  apply (case_tac x; case_tac y; simp)
  done

end

definition log_filter :: "string \<Rightarrow> severity option" where
  "log_filter level =
     (if get_hash level = get_hash ''debug'' then Some Debug
      else if get_hash level = get_hash ''info'' then Some Info
      else if get_hash level = get_hash ''warning'' then Some Warning
      else if get_hash level = get_hash ''error'' then Some Error
      else None)"

text \<open>Whether a record of the given severity passes the filter \<open>severity >= level\<close>.\<close>

definition logged :: "severity \<Rightarrow> severity \<Rightarrow> bool" where
  "logged level record_severity \<longleftrightarrow> level \<le> record_severity"

section \<open>Sub-programs\<close>

record 'w programs =
  pg_ws_vendor :: "string \<Rightarrow> string \<Rightarrow> string \<Rightarrow> string \<Rightarrow> int \<Rightarrow> ('w, unit) io"
  pg_redis_uploader :: "string \<Rightarrow> ('w, unit) io"
  pg_webserver :: "string \<Rightarrow> string \<Rightarrow> string \<Rightarrow> string \<Rightarrow> string \<Rightarrow> variables_map \<Rightarrow> (string \<Rightarrow> string option) \<Rightarrow> ('w, unit) io"

definition webserver_round :: "'w programs \<Rightarrow> variables_map \<Rightarrow> (string \<Rightarrow> string option) \<Rightarrow> ('w, unit) io" where
  "webserver_round G vm vm_env =
     io_bind (io_lift (as_text vm ''webserver-hostname'')) (\<lambda>hostname.
     io_bind (io_lift (as_text vm ''webserver-port'')) (\<lambda>port.
     io_bind (io_lift (as_text vm ''webserver-root-dir'')) (\<lambda>root_dir.
     io_bind (io_lift (as_text vm ''webserver-no-threads'')) (\<lambda>threads.
     io_bind (io_lift (as_text vm ''webserver-topics'')) (\<lambda>topics.
       pg_webserver G hostname port root_dir threads topics vm vm_env)))))"

text \<open>The loop \<open>while (true)\<close>, which a normal return and an exception both continue.\<close>

partial_function (option) webserver_loop :: "('w, unit) io \<Rightarrow> 'w \<Rightarrow> (unit outcome \<times> 'w) option" where
  "webserver_loop action w =
     (case action w of
        (Ret u, w') \<Rightarrow> webserver_loop action w'
      | (Throw e, w') \<Rightarrow> webserver_loop action w'
      | (Abort, w') \<Rightarrow> Some (Abort, w')
      | (Blocked, w') \<Rightarrow> Some (Blocked, w'))"

text \<open>\<open>None\<close> means that the call does not end.\<close>

definition run_sub_program ::
    "'w programs \<Rightarrow> string \<Rightarrow> variables_map \<Rightarrow> (string \<Rightarrow> string option) \<Rightarrow> 'w \<Rightarrow> (unit outcome \<times> 'w) option" where
  "run_sub_program G sub_program_name vm vm_env w =
     (if get_hash sub_program_name = get_hash ''ws-vendor''
      then Some (io_bind (io_lift (as_text vm ''ws-vendor-hostname'')) (\<lambda>hostname.
           io_bind (io_lift (as_text vm ''ws-vendor-port'')) (\<lambda>port.
           io_bind (io_lift (as_text vm ''ws-vendor-greeting-str'')) (\<lambda>greeting.
           io_bind (io_lift (as_text vm ''ws-vendor-endpoint'')) (\<lambda>endpoint.
           io_bind (io_lift (as_number vm ''ws-vendor-no-threads'')) (\<lambda>threads.
             pg_ws_vendor G hostname port greeting endpoint threads))))) w)
      else if get_hash sub_program_name = get_hash ''redis-uploader''
      then Some (io_bind (io_lift (as_text vm ''redis-topics'')) (pg_redis_uploader G) w)
      else if get_hash sub_program_name = get_hash ''webserver''
      then webserver_loop (webserver_round G vm vm_env) w
      else Some (Ret (), w))"

text \<open>The outer \<open>catch\<close> turns an exception into exit status 1.\<close>

fun exit_status :: "(unit outcome \<times> 'w) option \<Rightarrow> (int outcome \<times> 'w) option" where
  "exit_status None = None"
| "exit_status (Some (Ret u, w)) = Some (Ret 0, w)"
| "exit_status (Some (Throw e, w)) = Some (Ret 1, w)"
| "exit_status (Some (Abort, w)) = Some (Abort, w)"
| "exit_status (Some (Blocked, w)) = Some (Blocked, w)"

text \<open>
  \<open>command_line\<close> is what was given on the command line; \<open>config_file name\<close> is \<open>None\<close> when the
  file cannot be opened.
\<close>

definition main_after_config ::
    "'w programs \<Rightarrow> (string \<times> string) list \<Rightarrow> variables_map \<Rightarrow> 'w \<Rightarrow> (int outcome \<times> 'w) option" where
  "main_after_config G envs vm w =
     (if ''help'' \<in> set (vm_flags vm) then Some (Ret 0, w)
      else if ''version'' \<in> set (vm_flags vm) then Some (Ret 0, w)
      else
        (case vm_text vm ''sub-program-name'' of
           None \<Rightarrow> Some (Ret 1, w)
         | Some sub_program_name \<Rightarrow>
             if sub_program_name \<notin> set sub_program_options then Some (Ret 1, w)
             else
               (case out_bind (parse_environment envs Map.empty)
                       (\<lambda>vm_env. out_bind (as_text vm ''log-level'') (\<lambda>level. Ret (vm_env, level))) of
                  Ret (vm_env, level) \<Rightarrow>
                    (case log_filter level of
                       None \<Rightarrow> Some (Ret 1, w)
                     | Some severity \<Rightarrow> exit_status (run_sub_program G sub_program_name vm vm_env w))
                | Throw e \<Rightarrow> Some (Ret 1, w)
                | Abort \<Rightarrow> Some (Abort, w)
                | Blocked \<Rightarrow> Some (Blocked, w))))"

definition main ::
    "'w programs \<Rightarrow> (string \<times> string) list \<Rightarrow> (string \<Rightarrow> (exn + variables_map) option) \<Rightarrow> exn + variables_map \<Rightarrow> 'w \<Rightarrow>
     (int outcome \<times> 'w) option" where
  "main G envs config_file command_line w =
     (case command_line of
        Inl e \<Rightarrow> Some (Ret 1, w)
      | Inr given \<Rightarrow>
          (let vm = store_options default_options given;
               config_file_name = (case vm_text vm ''config'' of Some c \<Rightarrow> c | None \<Rightarrow> [])
           in case getConfigFile (map_of envs) config_file_name of
                (False, name) \<Rightarrow> Some (Ret (- 1), w)
              | (True, name) \<Rightarrow>
                  (case config_file name of
                     None \<Rightarrow> Some (Ret 0, w)
                   | Some (Inl e) \<Rightarrow> Some (Ret 1, w)
                   | Some (Inr options) \<Rightarrow> main_after_config G envs (store_options options vm) w)))"

section \<open>Lemmas\<close>

lemma get_hash_sub_programs:
  "get_hash ''ws-vendor'' \<noteq> get_hash ''redis-uploader''"
  "get_hash ''ws-vendor'' \<noteq> get_hash ''webserver''"
  "get_hash ''redis-uploader'' \<noteq> get_hash ''webserver''"
  by code_simp+

lemma logged_mono: "logged level a \<Longrightarrow> a \<le> b \<Longrightarrow> logged level b"
  by (simp add: logged_def)

text \<open>Every accepted level lets errors through and holds traces back.\<close>

lemma logged_accepted_level:
  "log_filter level = Some f \<Longrightarrow> logged f Error \<and> logged f Fatal \<and> \<not> logged f Trace"
  by (auto simp: log_filter_def logged_def less_eq_severity_def split: if_splits)

lemma get_hash_log_levels:
  "get_hash ''debug'' \<noteq> get_hash ''info''" "get_hash ''debug'' \<noteq> get_hash ''warning''"
  "get_hash ''debug'' \<noteq> get_hash ''error''" "get_hash ''info'' \<noteq> get_hash ''warning''"
  "get_hash ''info'' \<noteq> get_hash ''error''" "get_hash ''warning'' \<noteq> get_hash ''error''"
  by code_simp+

lemma get_hash_collisions:
  "get_hash ''inGn'' = get_hash ''info''" "get_hash ''REDIS_HnRT'' = get_hash ''REDIS_HOST''"
  by code_simp+

lemma webserver_loop_never_returns:
  assumes "webserver_loop action w = Some r"
  shows "fst r = Abort \<or> fst r = Blocked"
proof (rule webserver_loop.raw_induct [where P = "\<lambda>action w r. fst r = Abort \<or> fst r = Blocked", OF _ assms])
  fix f action w r
  assume IH: "\<And>action w r. f action w = Some r \<Longrightarrow> fst r = Abort \<or> fst r = Blocked"
    and eq: "(case action w of
        (Ret u, w') \<Rightarrow> f action w'
      | (Throw e, w') \<Rightarrow> f action w'
      | (Abort, w') \<Rightarrow> Some (Abort, w')
      | (Blocked, w') \<Rightarrow> Some (Blocked, w')) = Some r"
  show "fst r = Abort \<or> fst r = Blocked"
  proof (cases "action w")
    case (Pair out w')
    with eq IH show ?thesis by (cases out) auto
  qed
qed

text \<open>A round that throws and brings about its own conditions again is repeated for ever.\<close>

lemma webserver_loop_spins_inv:
  assumes throws: "\<And>w. I w \<Longrightarrow> \<exists>e w'. action w = (Throw e, w') \<and> I w'" and "I w"
  shows "webserver_loop action w = None"
proof (cases "webserver_loop action w")
  case (Some r)
  have "\<forall>a w. a = action \<longrightarrow> \<not> I w \<or> webserver_loop a w = None" for a :: "('w, unit) io"
  proof (intro allI impI)
    fix a w
    assume a: "a = action"
    have "a = action \<and> I w \<longrightarrow> False" if "webserver_loop a w = Some r" for r
    proof (rule webserver_loop.raw_induct [where P = "\<lambda>a w r. a = action \<and> I w \<longrightarrow> False", OF _ that])
      fix f a w r
      assume IH: "\<And>a w r. f a w = Some r \<Longrightarrow> a = action \<and> I w \<longrightarrow> False"
        and eq: "(case a w of
            (Ret u, w') \<Rightarrow> f a w'
          | (Throw e, w') \<Rightarrow> f a w'
          | (Abort, w') \<Rightarrow> Some (Abort, w')
          | (Blocked, w') \<Rightarrow> Some (Blocked, w')) = Some r"
      show "a = action \<and> I w \<longrightarrow> False"
      proof
        assume a: "a = action \<and> I w"
        with throws obtain e w' where w': "action w = (Throw e, w')" "I w'" by blast
        with eq a have "f a w' = Some r" by simp
        from IH [OF this] a w'(2) show False by simp
      qed
    qed
    with a show "\<not> I w \<or> webserver_loop a w = None" by (cases "webserver_loop a w") auto
  qed
  with \<open>I w\<close> show ?thesis by blast
qed simp

lemma webserver_loop_spins:
  assumes throws: "\<And>w. \<exists>e. action w = (Throw e, w)"
  shows "webserver_loop action w = None"
  by (rule webserver_loop_spins_inv [where I = "\<lambda>_. True"]) (use throws in blast)+

lemma webserver_round_missing:
  assumes "k \<in> {''webserver-hostname'', ''webserver-port'', ''webserver-root-dir'', ''webserver-no-threads'', ''webserver-topics''}"
    and "vm_text vm k = None"
  shows "\<exists>e. webserver_round G vm vm_env w = (Throw e, w)"
proof -
  have "as_text vm k = Throw (Library_exception ''bad any_cast'')" using assms(2) by (simp add: as_text_def)
  then show ?thesis
    using assms(1)
    by (cases "vm_text vm ''webserver-hostname''"; cases "vm_text vm ''webserver-port''";
        cases "vm_text vm ''webserver-root-dir''"; cases "vm_text vm ''webserver-no-threads''")
      (auto simp: webserver_round_def as_text_def io_bind_def io_lift_def)
qed

lemma main_after_config_runs:
  assumes "vm_text vm ''sub-program-name'' = Some name" and "name \<in> set sub_program_options"
    and "''help'' \<notin> set (vm_flags vm)" and "''version'' \<notin> set (vm_flags vm)"
    and "parse_environment envs Map.empty = Ret vm_env" and "vm_text vm ''log-level'' = Some level"
    and "log_filter level = Some severity"
  shows "main_after_config G envs vm w = exit_status (run_sub_program G name vm vm_env w)"
  using assms by (simp add: main_after_config_def as_text_def)

section \<open>Properties\<close>

text \<open>
  The choice of the sub-program. Although the program switches over hash values, it runs
  exactly the sub-program that was named: the hashes of the three names differ, and every other
  name ends the program with status 1 before the switch, whatever its hash is.
\<close>
theorem sub_program_choice_exact:
  "run_sub_program G ''webserver'' vm vm_env w = webserver_loop (webserver_round G vm vm_env) w \<and>
   run_sub_program G ''redis-uploader'' vm vm_env w =
     Some (io_bind (io_lift (as_text vm ''redis-topics'')) (pg_redis_uploader G) w) \<and>
   (name \<notin> set sub_program_options \<longrightarrow> vm_text vm ''sub-program-name'' = Some name \<longrightarrow>
      vm_flags vm = [] \<longrightarrow> main_after_config G envs vm w = Some (Ret 1, w))"
  using get_hash_sub_programs by (auto simp: run_sub_program_def main_after_config_def)

definition sample_options :: "string \<Rightarrow> string \<Rightarrow> variables_map" where
  "sample_options name level =
     \<lparr>vm_text = [''sub-program-name'' \<mapsto> name, ''log-level'' \<mapsto> level], vm_int = Map.empty, vm_flags = []\<rparr>"

definition no_programs :: "unit programs" where
  "no_programs = \<lparr>pg_ws_vendor = (\<lambda>a b c d e. io_return ()), pg_redis_uploader = (\<lambda>a. io_return ()),
     pg_webserver = (\<lambda>a b c d e f g. io_return ())\<rparr>"

theorem sub_program_choice_exact_witness:
  "main_after_config no_programs [] (sample_options ''web'' ''info'') () = Some (Ret 1, ())"
proof -
  have "''web'' \<notin> set sub_program_options" by (simp add: sub_program_options_def)
  moreover have "vm_text (sample_options ''web'' ''info'') ''sub-program-name'' = Some ''web''"
    "vm_flags (sample_options ''web'' ''info'') = []" by (simp_all add: sample_options_def)
  ultimately show ?thesis
    using sub_program_choice_exact [of no_programs "sample_options ''web'' ''info''" Map.empty "()" "''web''" "[]"] by blast
qed

text \<open>
  A factor of 33 can be undone on 64 bit words, so a common beginning of two texts, as long as it
  contains no zero character, neither makes nor hides a collision.
\<close>

lemma times_33_cancel: "a * 33 = b * 33 \<longleftrightarrow> a = (b :: 64 word)"
proof
  assume "a * 33 = b * 33"
  then have "a * (33 * 1117984489315730401) = b * (33 * 1117984489315730401)" by (simp only: mult.assoc [symmetric])
  moreover have "(33 * 1117984489315730401 :: 64 word) = 1" by simp
  ultimately show "a = b" by (simp only: mult_1_right)
qed simp

lemma xor_cancel: "a XOR c = b XOR c \<longleftrightarrow> a = (b :: 64 word)"
proof
  assume "a XOR c = b XOR c"
  then have "(a XOR c) XOR c = (b XOR c) XOR c" by simp
  then show "a = b" by (simp add: xor.assoc)
qed simp

lemma get_hash_Cons_cancel:
  "char_code c \<noteq> 0 \<Longrightarrow> get_hash (c # s) = get_hash (c # t) \<longleftrightarrow> get_hash s = get_hash t"
  by (simp add: get_hash.simps times_33_cancel xor_cancel)

lemma get_hash_twins: "get_hash ''Gn'' = get_hash ''fo''" "get_hash ''nRT'' = get_hash ''OST''"
  by code_simp+

text \<open>
  Every name of the program has a twin. Behind any prefix without a zero character two endings
  have the same hash exactly when they have it without the prefix; so whatever text ends in
  \<open>fo\<close> (as \<open>info\<close> does) or in \<open>OST\<close> (as \<open>REDIS_HOST\<close> does) collides with the text that
  ends in \<open>Gn\<close> or \<open>nRT\<close> instead, and the switches of \<open>main\<close> treat the two alike.
\<close>
theorem hash_collisions_everywhere:
  assumes "list_all (\<lambda>c. char_code c \<noteq> 0) p"
  shows "(get_hash (p @ s) = get_hash (p @ t) \<longleftrightarrow> get_hash s = get_hash t) \<and>
     get_hash (p @ ''Gn'') = get_hash (p @ ''fo'') \<and> log_filter (p @ ''Gn'') = log_filter (p @ ''fo'') \<and>
     get_hash (p @ ''nRT'') = get_hash (p @ ''OST'') \<and> env_option (p @ ''nRT'') = env_option (p @ ''OST'')"
proof -
  have cancel: "get_hash (p @ s) = get_hash (p @ t) \<longleftrightarrow> get_hash s = get_hash t" for s t
    using assms by (induction p) (simp_all add: get_hash_Cons_cancel)
  then have twins: "get_hash (p @ ''Gn'') = get_hash (p @ ''fo'')" "get_hash (p @ ''nRT'') = get_hash (p @ ''OST'')"
    by (simp_all only: get_hash_twins)
  then have "log_filter (p @ ''Gn'') = log_filter (p @ ''fo'')" "env_option (p @ ''nRT'') = env_option (p @ ''OST'')"
    unfolding log_filter_def env_option_def by (simp_all only: twins)
  with cancel [of s t] twins show ?thesis by blast
qed

theorem hash_collisions_everywhere_witness:
  "log_filter ''inGn'' = log_filter ''info'' \<and> env_option ''REDIS_HnRT'' = env_option ''REDIS_HOST''"
proof -
  have "list_all (\<lambda>c. char_code c \<noteq> 0) ''in''" "list_all (\<lambda>c. char_code c \<noteq> 0) ''REDIS_H''"
    by (simp_all add: char_code_def)
  from this [THEN hash_collisions_everywhere, of "[]" "[]"] show ?thesis by simp
qed

text \<open>
  Log levels and environment variables are recognised by their hash alone, and the hash is not
  injective: the level \<open>inGn\<close> is accepted as \<open>info\<close>, and an environment variable called
  \<open>REDIS_HnRT\<close> sets the option of \<open>REDIS_HOST\<close>; the four documented levels are told apart.
\<close>
theorem hash_switch_collisions:
  "log_filter ''inGn'' = Some Info \<and> env_option ''REDIS_HnRT'' = ''redis_host'' \<and>
   log_filter ''debug'' = Some Debug \<and> log_filter ''info'' = Some Info \<and>
   log_filter ''warning'' = Some Warning \<and> log_filter ''error'' = Some Error"
  using get_hash_log_levels get_hash_log_levels [THEN not_sym]
  by (simp add: log_filter_def env_option_def get_hash_collisions)

text \<open>
  The web server process never ends by itself. When \<open>main\<close> reaches the web server, neither a
  return of \<open>webserver\<close> nor an exception leads to an exit status: the process runs for ever,
  blocks or is brought down, and the shutdown of the AWS SDK after the loop is never reached.
\<close>
theorem webserver_process_has_no_exit_status:
  assumes "vm_text vm ''sub-program-name'' = Some ''webserver''"
    and "''help'' \<notin> set (vm_flags vm)" and "''version'' \<notin> set (vm_flags vm)"
    and "parse_environment envs Map.empty = Ret vm_env" and "vm_text vm ''log-level'' = Some level"
    and "log_filter level = Some severity"
  shows "main_after_config G envs vm w \<noteq> Some (Ret status, w')"
proof
  assume "main_after_config G envs vm w = Some (Ret status, w')"
  with main_after_config_runs [OF assms(1) _ assms(2-6), of G w]
  have "exit_status (webserver_loop (webserver_round G vm vm_env) w) = Some (Ret status, w')"
    using get_hash_sub_programs by (simp add: sub_program_options_def run_sub_program_def)
  then show False
    using webserver_loop_never_returns [of "webserver_round G vm vm_env" w]
    by (cases "webserver_loop (webserver_round G vm vm_env) w") (auto elim: exit_status.elims)
qed

theorem webserver_process_has_no_exit_status_witness:
  "main_after_config no_programs [] (sample_options ''webserver'' ''info'') () \<noteq> Some (Ret 0, ())"
  by (rule webserver_process_has_no_exit_status [where vm_env = Map.empty and level = "''info''" and severity = Info])
    (simp_all add: sample_options_def log_filter_def get_hash_log_levels get_hash_log_levels [THEN not_sym])

text \<open>
  A missing option makes the web server spin. Each of the five options is read inside the
  loop's \<open>try\<close> block, so when one is missing the exception is caught and the loop starts over,
  without end and without ever starting a server.
\<close>
theorem missing_option_spins:
  assumes "k \<in> {''webserver-hostname'', ''webserver-port'', ''webserver-root-dir'', ''webserver-no-threads'', ''webserver-topics''}"
    and "vm_text vm k = None"
  shows "webserver_loop (webserver_round G vm vm_env) w = None"
  by (rule webserver_loop_spins) (rule webserver_round_missing [OF assms])

theorem missing_option_spins_witness:
  "webserver_loop (webserver_round no_programs (sample_options ''webserver'' ''info'') Map.empty) () = None"
  by (rule missing_option_spins [of "''webserver-port''"]) (simp_all add: sample_options_def)

text \<open>
  The configuration file is chosen by the environment alone. Without \<open>NODE_ENV\<close> the exit
  status is -1; with it the only file that is read is \<open>app.<NODE_ENV>.cfg\<close>, whatever the option
  \<open>config\<close> says, and if it cannot be opened the program reports success.
\<close>
theorem config_file_from_environment:
  "(map_of envs ''NODE_ENV'' = None \<longrightarrow> main G envs config_file (Inr given) w = Some (Ret (- 1), w)) \<and>
   (\<forall>env. map_of envs ''NODE_ENV'' = Some env \<longrightarrow>
      main G envs config_file (Inr given) w =
        (case config_file (''app.'' @ env @ ''.cfg'') of
           None \<Rightarrow> Some (Ret 0, w)
         | Some (Inl e) \<Rightarrow> Some (Ret 1, w)
         | Some (Inr options) \<Rightarrow>
             main_after_config G envs (store_options options (store_options default_options given)) w))"
  by (auto simp: main_def Let_def getConfigFile_def Getenv_def split: option.split sum.split)

theorem config_file_from_environment_witness:
  "main no_programs [(''NODE_ENV'', ''dev'')] (\<lambda>_. None) (Inr (sample_options ''webserver'' ''info'')) () = Some (Ret 0, ())"
proof -
  have "map_of [(''NODE_ENV'', ''dev'')] ''NODE_ENV'' = Some ''dev''" by simp
  then show ?thesis
    using config_file_from_environment [of "[(''NODE_ENV'', ''dev'')]" no_programs "\<lambda>_. None" "sample_options ''webserver'' ''info''" "()"]
    by simp
qed

end
