(* ===== verification/Locked_Refinement.thy ===== *)
theory Locked_Refinement
  imports Locked_State
begin

text \<open>
  What the mutexes of \<open>Locked_State\<close> protect, and what they do not: every run without a fault is a run in which
  the rounds of the handlers are single steps, the sets of sessions are changed by the holders of their mutexes
  only, handlers do not block each other for ever, and two handlers can push to the queue of the
  subscriber at the same time.
\<close>

section \<open>What the mutexes protect\<close>

text \<open>
  The state in which every round has happened at its push, if there is one, or else when its handler has looked at
  the sessions of the symbol: a handler that joins after that has joined, one that will announce that a
  topic is not used any more has not left.
\<close>

fun unsettled :: "lock_task option \<Rightarrow> string \<Rightarrow> bool" where
  "unsettled (Some (Task In_join (Act_topic ty t') r)) t = (t' = t)"
| "unsettled (Some (Task In_push (Act_topic UNSUBSCRIBE t') r)) t = (t' = t)"
| "unsettled k t = False"

definition settled_symbol :: "('pq, 'sq) locked_state \<Rightarrow> string \<Rightarrow> symbol \<Rightarrow> symbol" where
  "settled_symbol s t smb = smb\<lparr>sym_sessions := sym_sessions smb \<union> {i. unsettled (lk_tasks s i) t}\<rparr>"

definition settled_regs :: "('pq, 'sq) locked_state \<Rightarrow> string \<Rightarrow> sid set" where
  "settled_regs s t =
     (case symbols (lk_state s) t of Some (Some smb) \<Rightarrow> sym_sessions smb \<union> {i. unsettled (lk_tasks s i) t} | _ \<Rightarrow> {})"

definition settled :: "('pq, 'sq) locked_state \<Rightarrow> ('pq, 'sq) shared_state" where
  "settled s =
     (lk_state s)\<lparr>symbols := (\<lambda>t. map_option (map_option (settled_symbol s t)) (symbols (lk_state s) t)),
                  ws_topics := (\<lambda>i. {t. i \<in> settled_regs s t})\<rparr>"

text \<open>The steps of the shared state when every round is one step.\<close>

inductive topic_step ::
    "('sq, MsgType \<times> string) spsc \<Rightarrow> ('pq, string \<times> string) spsc \<Rightarrow> ('pq, 'sq) shared_state \<Rightarrow> ('pq, 'sq) shared_state \<Rightarrow> bool"
  for Q P where
  topic_subscribed: "subscribe_topic Q i t st = (Ret (), st') \<Longrightarrow> topic_step Q P st st'"
| topic_unsubscribed: "unsubscribe_topic Q i t st = (Ret (), st') \<Longrightarrow> topic_step Q P st st'"
| session_joined: "topic_step Q P st (shared_join i st)"
| session_erased: "topic_step Q P st (st\<lparr>sessions := sessions st - {i}\<rparr>)"
| announcement_taken: "sp_pop Q (spsc_queue_subscriber st) = Some (m, q) \<Longrightarrow> topic_step Q P st (st\<lparr>spsc_queue_subscriber := q\<rparr>)"
| message_taken: "sp_pop P (spsc_queue_publish st) = Some (m, q) \<Longrightarrow> topic_step Q P st (st\<lparr>spsc_queue_publish := q\<rparr>)"
| message_queued: "topic_step Q P st (on_message P channel msg st)"

abbreviation topic_steps ::
    "('sq, MsgType \<times> string) spsc \<Rightarrow> ('pq, string \<times> string) spsc \<Rightarrow> ('pq, 'sq) shared_state \<Rightarrow> ('pq, 'sq) shared_state \<Rightarrow> bool" where
  "topic_steps Q P \<equiv> (topic_step Q P)\<^sup>*\<^sup>*"

lemma settled_cong:
  assumes "\<And>t i. unsettled (lk_tasks s' i) t = unsettled (lk_tasks s i) t" and "lk_state s' = (lk_state s)\<lparr>ws_topics := w\<rparr>"
  shows "settled s' = settled s"
proof -
  have "{i. unsettled (lk_tasks s' i) t} = {i. unsettled (lk_tasks s i) t}" for t using assms(1) by simp
  then have "settled_symbol s' = settled_symbol s" "settled_regs s' = settled_regs s"
    using assms(2) by (simp_all add: fun_eq_iff settled_symbol_def settled_regs_def split: option.split)
  then show ?thesis using assms(2) by (simp add: settled_def)
qed

lemma settled_queues:
  assumes "lk_tasks s' = lk_tasks s" and "lk_state s' = (lk_state s)\<lparr>spsc_queue_publish := q, spsc_queue_subscriber := q'\<rparr>"
  shows "settled s' = (settled s)\<lparr>spsc_queue_publish := q, spsc_queue_subscriber := q'\<rparr>"
proof -
  have "settled_symbol s' = settled_symbol s" "settled_regs s' = settled_regs s"
    using assms by (simp_all add: fun_eq_iff settled_symbol_def settled_regs_def split: option.split)
  then show ?thesis using assms(2) by (simp add: settled_def)
qed

lemma unsettled_task_of [simp]: "\<not> unsettled (task_of r) t"
  by (cases r) auto

text \<open>Inside the mutex of a symbol, no other session is between its decision and its change.\<close>

lemma unsettled_holds:
  assumes "session_view_ok K (view s j)" and "unsettled (lk_tasks s j) t"
  shows "lk_symbol s t = Some (Held_by_session j)"
proof -
  from assms(2) obtain p ty r where "lk_tasks s j = Some (Task p (Act_topic ty t) r)" "p \<in> {In_push, In_join}"
    by (cases "(lk_tasks s j, t)" rule: unsettled.cases) auto
  with assms(1) have "t \<in> locks_of s j" by (auto simp: view_def)
  then show ?thesis by (simp add: locks_of_def)
qed

lemma unsettled_only:
  assumes "locks_ok s" and "lk_symbol s t = Some (Held_by_session i)"
  shows "{j. unsettled (lk_tasks s j) t} = (if unsettled (lk_tasks s i) t then {i} else {})"
proof -
  have "{j. unsettled (lk_tasks s j) t} \<subseteq> {i}"
    using unsettled_holds [OF locks_okD(1) [OF assms(1)]] assms(2) by fastforce
  then have sub: "{j. unsettled (lk_tasks s j) t} = {} \<or> {j. unsettled (lk_tasks s j) t} = {i}" by (rule subset_singletonD)
  show ?thesis
  proof (cases "unsettled (lk_tasks s i) t")
    case True
    with sub have "{j. unsettled (lk_tasks s j) t} = {i}" by blast
    with True show ?thesis by (simp only: if_True)
  next
    case False
    with sub have "{j. unsettled (lk_tasks s j) t} = {}" by blast
    with False show ?thesis by (simp only: if_False)
  qed
qed

lemma settled_registered:
  assumes "locks_ok s"
  shows "registered (settled s) t = settled_regs s t"
proof -
  have nonnull: "symbols (lk_state s) t \<noteq> Some None" using locks_okD(2) [OF assms] by blast
  show ?thesis
  proof (cases "symbols (lk_state s) t")
    case (Some p)
    with nonnull show ?thesis by (cases p) (simp_all add: registered_def settled_def settled_regs_def settled_symbol_def)
  qed (simp add: registered_def settled_def settled_regs_def)
qed

lemma settled_fields [simp]:
  "spsc_queue_subscriber (settled s) = spsc_queue_subscriber (lk_state s)" "spsc_queue_publish (settled s) = spsc_queue_publish (lk_state s)"
  "sessions (settled s) = sessions (lk_state s)" "doc_root (settled s) = doc_root (lk_state s)"
  "topics_arg (settled s) = topics_arg (lk_state s)" "allowed_origins (settled s) = allowed_origins (lk_state s)"
  "symbols (settled s) t = map_option (map_option (settled_symbol s t)) (symbols (lk_state s) t)"
  "ws_topics (settled s) i = {t. i \<in> settled_regs s t}"
  by (simp_all add: settled_def)

text \<open>A change of one symbol by its holder, seen from the settled states.\<close>

lemma settled_change:
  assumes t: "symbols (lk_state s) t = Some (Some smb)"
    and s': "lk_state s' = (lk_state s)\<lparr>symbols := (symbols (lk_state s))(t \<mapsto> Some smb'), spsc_queue_subscriber := q\<rparr>"
    and tasks: "\<And>j u. u \<noteq> t \<Longrightarrow> unsettled (lk_tasks s' j) u = unsettled (lk_tasks s j) u"
    and S: "settled_symbol s' t smb' = S"
    and change: "sym_sessions S = insert i (sym_sessions (settled_symbol s t smb)) \<or> sym_sessions S = sym_sessions (settled_symbol s t smb) - {i}"
  shows "settled s' = (settled s)\<lparr>symbols := (symbols (settled s))(t \<mapsto> Some S), spsc_queue_subscriber := q,
      ws_topics := (ws_topics (settled s))(i := (if i \<in> sym_sessions S then insert t (ws_topics (settled s) i) else ws_topics (settled s) i - {t}))\<rparr>"
    (is "_ = ?R")
proof (rule shared_state.equality)
  have regs: "settled_regs s' u = (if u = t then sym_sessions S else settled_regs s u)" for u
    using t s' tasks S by (auto simp: settled_regs_def settled_symbol_def split: option.splits)
  have old: "settled_regs s t = sym_sessions (settled_symbol s t smb)" by (simp add: settled_regs_def settled_symbol_def t)
  show "ws_topics (settled s') = ws_topics ?R"
  proof
    fix j
    have "j \<noteq> i \<Longrightarrow> j \<in> sym_sessions S \<longleftrightarrow> j \<in> settled_regs s t" using change by (auto simp: old)
    then show "ws_topics (settled s') j = ws_topics ?R j" by (cases "j = i") (auto simp: regs split: if_splits)
  qed
  show "symbols (settled s') = symbols ?R"
  proof
    fix u
    have "u \<noteq> t \<Longrightarrow> settled_symbol s' u = settled_symbol s u" using tasks by (simp add: settled_symbol_def fun_eq_iff)
    then show "symbols (settled s') u = symbols ?R u" by (cases "u = t") (simp_all add: s' S)
  qed
qed (simp_all add: s' settled_def)


text \<open>The single steps on a known topic.\<close>

lemma subscribe_topic_symbol:
  assumes "symbols st t = Some (Some smb)"
  shows "subscribe_topic Q i t st =
    (Ret (), st\<lparr>symbols := (symbols st)(t \<mapsto> Some (symbol_join i smb)),
       spsc_queue_subscriber := queue_after Q (sym_sessions smb = {}) (SUBSCRIBE, t) (spsc_queue_subscriber st),
       ws_topics := (ws_topics st)(i := insert t (ws_topics st i))\<rparr>)"
  using assms by (simp add: subscribe_topic_def symbol_at_def queue_after_def Let_def)

lemma unsubscribe_topic_symbol:
  assumes "symbols st t = Some (Some smb)"
  shows "unsubscribe_topic Q i t st =
    (Ret (), st\<lparr>symbols := (symbols st)(t \<mapsto> Some (smb\<lparr>sym_sessions := sym_sessions smb - {i}\<rparr>)),
       spsc_queue_subscriber := queue_after Q (sym_sessions smb = {i}) (UNSUBSCRIBE, t) (spsc_queue_subscriber st),
       ws_topics := (ws_topics st)(i := ws_topics st i - {t})\<rparr>)"
  using assms by (auto simp: unsubscribe_topic_def symbol_at_def symbol_leave_def queue_after_def Let_def)

text \<open>A change of a symbol by its holder that is the whole of a round, or nothing.\<close>

lemma settled_subscribe:
  assumes "symbols (lk_state s) t = Some (Some smb)"
    and "lk_state s' = (lk_state s)\<lparr>symbols := (symbols (lk_state s))(t \<mapsto> Some smb'),
          spsc_queue_subscriber := queue_after Q (sym_sessions (settled_symbol s t smb) = {}) (SUBSCRIBE, t) (spsc_queue_subscriber (lk_state s))\<rparr>"
    and "\<And>j u. u \<noteq> t \<Longrightarrow> unsettled (lk_tasks s' j) u = unsettled (lk_tasks s j) u"
    and "settled_symbol s' t smb' = symbol_join i (settled_symbol s t smb)"
  shows "topic_step Q P (settled s) (settled s')"
proof (rule topic_subscribed)
  have t: "symbols (settled s) t = Some (Some (settled_symbol s t smb))" by (simp add: assms(1))
  show "subscribe_topic Q i t (settled s) = (Ret (), settled s')"
    unfolding subscribe_topic_symbol [OF t] settled_change [OF assms(1-3) refl, of i, unfolded assms(4), simplified symbol_join_def, simplified]
    by (simp add: symbol_join_def)
qed


lemma settled_unsubscribe:
  assumes "symbols (lk_state s) t = Some (Some smb)"
    and "lk_state s' = (lk_state s)\<lparr>symbols := (symbols (lk_state s))(t \<mapsto> Some smb'),
          spsc_queue_subscriber := queue_after Q (sym_sessions (settled_symbol s t smb) = {i}) (UNSUBSCRIBE, t) (spsc_queue_subscriber (lk_state s))\<rparr>"
    and "\<And>j u. u \<noteq> t \<Longrightarrow> unsettled (lk_tasks s' j) u = unsettled (lk_tasks s j) u"
    and "settled_symbol s' t smb' = (settled_symbol s t smb)\<lparr>sym_sessions := sym_sessions (settled_symbol s t smb) - {i}\<rparr>"
  shows "topic_step Q P (settled s) (settled s')"
proof (rule topic_unsubscribed)
  have t: "symbols (settled s) t = Some (Some (settled_symbol s t smb))" by (simp add: assms(1))
  show "unsubscribe_topic Q i t (settled s) = (Ret (), settled s')"
    unfolding unsubscribe_topic_symbol [OF t] settled_change [OF assms(1-3) refl, of i, unfolded assms(4), simplified]
    by simp
qed

lemma settled_same:
  assumes "symbols (lk_state s) t = Some (Some smb)"
    and "lk_state s' = (lk_state s)\<lparr>symbols := (symbols (lk_state s))(t \<mapsto> Some smb')\<rparr>"
    and "\<And>j u. u \<noteq> t \<Longrightarrow> unsettled (lk_tasks s' j) u = unsettled (lk_tasks s j) u"
    and "settled_symbol s' t smb' = settled_symbol s t smb"
  shows "settled s' = settled s"
proof (rule shared_state.equality)
  have "sym_sessions (settled_symbol s' t smb') = sym_sessions (settled_symbol s t smb)" by (simp add: assms(4))
  then have "settled_regs s' u = settled_regs s u" for u
    using assms(1-3) by (cases "u = t") (simp_all add: settled_regs_def settled_symbol_def split: option.split)
  then show "ws_topics (settled s') = ws_topics (settled s)" by (simp add: fun_eq_iff)
  show "symbols (settled s') = symbols (settled s)"
  proof
    fix u
    have "u \<noteq> t \<Longrightarrow> settled_symbol s' u = settled_symbol s u" using assms(3) by (simp add: settled_symbol_def fun_eq_iff)
    then show "symbols (settled s') u = symbols (settled s) u" using assms(1,2,4) by (cases "u = t") simp_all
  qed
qed (simp_all add: assms(2) settled_def)

text \<open>What the settled symbol of a holder is.\<close>

lemma settled_symbol_holder:
  assumes "locks_ok s" and "lk_symbol s t = Some (Held_by_session i)"
  shows "settled_symbol s t smb = (if unsettled (lk_tasks s i) t then symbol_join i smb else smb)"
  unfolding settled_symbol_def unsettled_only [OF assms] by (simp add: symbol_join_def)

lemma settled_symbol_set:
  assumes "locks_ok s" and "lk_symbol s t = Some (Held_by_session i)" and "lk_tasks s' = (lk_tasks s)(i := k)"
  shows "settled_symbol s' t smb = (if unsettled k t then symbol_join i smb else smb)"
proof -
  have "{j. unsettled (lk_tasks s' j) t} = (if unsettled k t then {i} else {})"
  proof -
    have "unsettled (lk_tasks s j) t \<Longrightarrow> j \<noteq> i \<Longrightarrow> False" for j
      using unsettled_holds [OF locks_okD(1) [OF assms(1)], of j t] assms(2) by simp
    then show ?thesis by (auto simp: assms(3) split: if_splits)
  qed
  then show ?thesis by (simp add: settled_symbol_def symbol_join_def)
qed

lemma unsettled_other_topic:
  "lk_tasks s i = Some (Task p (Act_topic ty t) r) \<Longrightarrow> lk_tasks s' = (lk_tasks s)(i := k) \<Longrightarrow>
   (\<exists>r'. k = task_of r') \<or> (\<exists>p' r'. k = Some (Task p' (Act_topic ty t) r')) \<Longrightarrow> u \<noteq> t \<Longrightarrow> unsettled (lk_tasks s' j) u = unsettled (lk_tasks s j) u"
proof -
  have "\<not> unsettled (Some (Task q (Act_topic ty t) r)) u" if "u \<noteq> t" for q r
    using that by (cases q; cases ty) auto
  then show "lk_tasks s i = Some (Task p (Act_topic ty t) r) \<Longrightarrow> lk_tasks s' = (lk_tasks s)(i := k) \<Longrightarrow>
   (\<exists>r'. k = task_of r') \<or> (\<exists>p' r'. k = Some (Task p' (Act_topic ty t) r')) \<Longrightarrow> u \<noteq> t \<Longrightarrow> unsettled (lk_tasks s' j) u = unsettled (lk_tasks s j) u"
    by auto
qed

lemma settled_task_step:
  assumes ok: "locks_ok s" and k: "lk_tasks s i = Some k" and step: "task_step Q i k s = Some s'"
    and fault: "lk_fault s = None" "lk_fault s' = None"
  shows "settled s' = settled s \<or> topic_step Q P (settled s) (settled s')"
  using assms
proof (cases rule: task_step_cases)
  case (locks_mutex a r)
  have "settled s' = settled s"
    by (rule settled_cong [of _ _ "ws_topics (lk_state s)"]) (use k locks_mutex in auto)
  then show ?thesis ..
next
  case (leaves_mutex a r)
  show ?thesis
  proof (cases a)
    case Act_join
    have p: "unsettled (lk_tasks s' j) t = unsettled (lk_tasks s j) t" for j t using k leaves_mutex Act_join by simp
    then have "settled_symbol s' = settled_symbol s" "settled_regs s' = settled_regs s"
      using leaves_mutex Act_join by (simp_all add: fun_eq_iff settled_symbol_def settled_regs_def shared_join_def split: option.split)
    then have "settled s' = shared_join i (settled s)"
      using leaves_mutex Act_join by (simp add: settled_def shared_join_def)
    then show ?thesis by (simp add: topic_step.session_joined)
  next
    case Act_erase
    have p: "unsettled (lk_tasks s' j) t = unsettled (lk_tasks s j) t" for j t using k leaves_mutex Act_erase by simp
    then have "settled_symbol s' = settled_symbol s" "settled_regs s' = settled_regs s"
      using leaves_mutex Act_erase by (simp_all add: fun_eq_iff settled_symbol_def settled_regs_def split: option.split)
    then have "settled s' = (settled s)\<lparr>sessions := sessions (settled s) - {i}\<rparr>"
      using leaves_mutex Act_erase by (simp add: settled_def)
    with topic_step.session_erased [of Q P "settled s" i] show ?thesis by simp
  next
    case (Act_topic ty t)
    have "settled s' = settled s"
      by (rule settled_cong [of _ _ "ws_topics (lk_state s')"]) (use k leaves_mutex Act_topic in \<open>cases ty; auto\<close>)+
    then show ?thesis ..
  qed
next
  case (locks_symbol ty t r)
  have "settled s' = settled s"
    by (rule settled_cong [of _ _ "ws_topics (lk_state s)"]) (use k locks_symbol in auto)
  then show ?thesis ..
next
  case (first_one t r smb)
  have "settled s' = settled s"
    by (rule settled_cong [of _ _ "ws_topics (lk_state s)"]) (use k first_one in auto)
  then show ?thesis ..
next
  case (more_join t r smb)
  note here = k [unfolded more_join(1)]
  from inside_symbol [OF ok here] have held: "lk_symbol s t = Some (Held_by_session i)" by blast
  have tasks: "lk_tasks s' = (lk_tasks s)(i \<mapsto> Task In_join (Act_topic SUBSCRIBE t) r)" by (simp add: more_join(4))
  have "topic_step Q P (settled s) (settled s')"
  proof (rule settled_subscribe [OF more_join(2), where smb' = smb and i = i])
    show "settled_symbol s' t smb = symbol_join i (settled_symbol s t smb)"
      by (simp add: settled_symbol_set [OF ok held tasks] settled_symbol_holder [OF ok held] here)
    show "lk_state s' = (lk_state s)\<lparr>symbols := (symbols (lk_state s))(t \<mapsto> Some smb),
          spsc_queue_subscriber := queue_after Q (sym_sessions (settled_symbol s t smb) = {}) (SUBSCRIBE, t) (spsc_queue_subscriber (lk_state s))\<rparr>"
      using more_join(2,3,4) by (simp add: settled_symbol_holder [OF ok held] here queue_after_def map_upd_triv)
  qed (rule unsettled_other_topic [OF here tasks], auto)
  then show ?thesis ..
next
  case (last_one t r smb smb')
  note here = k [unfolded last_one(1)]
  from inside_symbol [OF ok here] have held: "lk_symbol s t = Some (Held_by_session i)" by blast
  have tasks: "lk_tasks s' = (lk_tasks s)(i \<mapsto> Task In_push (Act_topic UNSUBSCRIBE t) r)" by (simp add: last_one(6))
  have "settled s' = settled s"
  proof (rule settled_same [OF last_one(2), where smb' = smb'])
    show "settled_symbol s' t smb' = settled_symbol s t smb"
      using last_one(3,4) by (simp add: settled_symbol_set [OF ok held tasks] settled_symbol_holder [OF ok held] here symbol_join_def)
  qed (use last_one(6) in simp, rule unsettled_other_topic [OF here tasks], auto)
  then show ?thesis ..
next
  case (more_leave t r smb smb')
  note here = k [unfolded more_leave(1)]
  from inside_symbol [OF ok here] have held: "lk_symbol s t = Some (Held_by_session i)" by blast
  have tasks: "lk_tasks s' = (lk_tasks s)(i := task_of r)" by (simp add: more_leave(5))
  have "topic_step Q P (settled s) (settled s')"
  proof (rule settled_unsubscribe [OF more_leave(2), where smb' = smb' and i = i])
    show "settled_symbol s' t smb' = (settled_symbol s t smb)\<lparr>sym_sessions := sym_sessions (settled_symbol s t smb) - {i}\<rparr>"
      by (simp add: settled_symbol_set [OF ok held tasks] settled_symbol_holder [OF ok held] here more_leave(3))
    show "lk_state s' = (lk_state s)\<lparr>symbols := (symbols (lk_state s))(t \<mapsto> Some smb'),
          spsc_queue_subscriber := queue_after Q (sym_sessions (settled_symbol s t smb) = {i}) (UNSUBSCRIBE, t) (spsc_queue_subscriber (lk_state s))\<rparr>"
      using more_leave(4,5) by (simp add: settled_symbol_holder [OF ok held] here queue_after_def)
  qed (rule unsettled_other_topic [OF here tasks], auto)
  then show ?thesis ..
next
  case (push ty t r)
  note here = k [unfolded push(1)]
  obtain smb where smb: "symbols (lk_state s) t = Some (Some smb)" "registered (lk_state s) t = sym_sessions smb"
    and held: "lk_symbol s t = Some (Held_by_session i)" by (rule inside_symbol [OF ok here]) simp_all
  have none: "sym_sessions smb = {}" using locks_okD(5) [OF ok, of i t] here smb(2) by simp
  have "topic_step Q P (settled s) (settled s')"
  proof (cases ty)
    case SUBSCRIBE
    have tasks: "lk_tasks s' = (lk_tasks s)(i \<mapsto> Task In_join (Act_topic SUBSCRIBE t) r)" by (simp add: push(2) SUBSCRIBE)
    show ?thesis
    proof (rule settled_subscribe [OF smb(1), where smb' = smb and i = i])
      show "settled_symbol s' t smb = symbol_join i (settled_symbol s t smb)"
        by (simp add: settled_symbol_set [OF ok held tasks] settled_symbol_holder [OF ok held] here SUBSCRIBE)
      show "lk_state s' = (lk_state s)\<lparr>symbols := (symbols (lk_state s))(t \<mapsto> Some smb),
            spsc_queue_subscriber := queue_after Q (sym_sessions (settled_symbol s t smb) = {}) (SUBSCRIBE, t) (spsc_queue_subscriber (lk_state s))\<rparr>"
        using none smb(1) push(2) by (simp add: settled_symbol_holder [OF ok held] here queue_after_def map_upd_triv SUBSCRIBE)
    qed (rule unsettled_other_topic [OF here [unfolded SUBSCRIBE] tasks], auto)
  next
    case UNSUBSCRIBE
    have tasks: "lk_tasks s' = (lk_tasks s)(i := task_of r)" by (simp add: push(2) UNSUBSCRIBE)
    show ?thesis
    proof (rule settled_unsubscribe [OF smb(1), where smb' = smb and i = i])
      show "settled_symbol s' t smb = (settled_symbol s t smb)\<lparr>sym_sessions := sym_sessions (settled_symbol s t smb) - {i}\<rparr>"
        using none by (simp add: settled_symbol_set [OF ok held tasks] settled_symbol_holder [OF ok held] here UNSUBSCRIBE symbol_join_def)
      show "lk_state s' = (lk_state s)\<lparr>symbols := (symbols (lk_state s))(t \<mapsto> Some smb),
            spsc_queue_subscriber := queue_after Q (sym_sessions (settled_symbol s t smb) = {i}) (UNSUBSCRIBE, t) (spsc_queue_subscriber (lk_state s))\<rparr>"
        using none smb(1) push(2)
        by (simp add: settled_symbol_holder [OF ok held] here queue_after_def map_upd_triv UNSUBSCRIBE symbol_join_def)
    qed (rule unsettled_other_topic [OF here tasks], auto)
  qed
  then show ?thesis ..
next
  case (join t r smb)
  note here = k [unfolded join(1)]
  from inside_symbol [OF ok here] have held: "lk_symbol s t = Some (Held_by_session i)" by blast
  have tasks: "lk_tasks s' = (lk_tasks s)(i := task_of r)" by (simp add: join(3))
  have "settled s' = settled s"
  proof (rule settled_same [OF join(2), where smb' = "symbol_join i smb"])
    show "settled_symbol s' t (symbol_join i smb) = settled_symbol s t smb"
      by (simp add: settled_symbol_set [OF ok held tasks] settled_symbol_holder [OF ok held] here)
  qed (use join(3) in simp, rule unsettled_other_topic [OF here tasks], auto)
  then show ?thesis ..
qed


lemma settled_lock_step:
  assumes step: "lock_step Q P J split s s'" and ok: "locks_ok s" and fault: "lk_fault s = None" "lk_fault s' = None"
  shows "settled s' = settled s \<or> topic_step Q P (settled s) (settled s')"
  using step
proof cases
  case moves
  then show ?thesis
  proof cases
    case (session_moves i k)
    then show ?thesis by (rule settled_task_step [OF ok _ _ fault])
  next
    case publisher_moves
    from publisher_step_fields [OF ok this fault(2)] have "lk_state s' = lk_state s \<and> lk_tasks s' = lk_tasks s" by cases simp_all
    then have "settled s' = settled s" by (intro settled_cong [of _ _ "ws_topics (lk_state s)"]) simp_all
    then show ?thesis ..
  qed
next
  case (session_created i)
  then have "settled s' = settled s" by (intro settled_cong [of _ _ "ws_topics (lk_state s)"]) simp_all
  then show ?thesis ..
next
  case (session_accepted i)
  then have "settled s' = settled s" by (intro settled_cong [of _ _ "ws_topics (lk_state s)"]) auto
  then show ?thesis ..
next
  case (message_read i msg)
  then have "settled s' = settled s" by (intro settled_cong [of _ _ "ws_topics (lk_state s)"]) auto
  then show ?thesis ..
next
  case (session_destroyed i)
  then have "settled s' = settled s" by (intro settled_cong [of _ _ "ws_topics (lk_state s)"]) auto
  then show ?thesis ..
next
  case (publisher_takes topic message q)
  then have "settled s' = (settled s)\<lparr>spsc_queue_publish := q\<rparr>"
    using settled_queues [of s' s "spsc_queue_subscriber (lk_state s)" q] by (simp add: settled_def)
  with topic_step.message_taken [of P "settled s" "(topic, message)" q Q] publisher_takes show ?thesis by simp
next
  case (subscriber_takes m q)
  then have "settled s' = (settled s)\<lparr>spsc_queue_subscriber := q\<rparr>"
    using settled_queues [of s' s q "spsc_queue_publish (lk_state s)"] by (simp add: settled_def)
  with topic_step.announcement_taken [of Q "settled s" m q P] subscriber_takes show ?thesis by simp
next
  case (message_arrives channel msg)
  then have "settled s' = on_message P channel msg (settled s)"
    using settled_queues [of s' s "spsc_queue_subscriber (lk_state s)" "snd (sp_push P (channel, msg) (spsc_queue_publish (lk_state s)))"]
    by (simp add: settled_def on_message_def)
  with topic_step.message_queued [of Q P "settled s" channel msg] show ?thesis by simp
qed

lemma settled_idle:
  assumes ok: "locks_ok s" and idle: "\<And>i. lk_tasks s i = None"
  shows "settled s = lk_state s"
proof (rule shared_state.equality)
  have "settled_symbol s t smb = smb" for t smb by (simp add: settled_symbol_def idle)
  then show "symbols (settled s) = symbols (lk_state s)" by (simp add: fun_eq_iff option.map_ident_strong)
  have "settled_regs s t = registered (lk_state s) t" for t
    by (simp add: settled_regs_def registered_def idle split: option.split)
  then have "ws_topics (settled s) i = regs s i" for i by (simp add: regs_def)
  moreover have "regs s i = ws_topics (lk_state s) i" for i using locks_okD(1) [OF ok, of i] by (simp add: view_def idle)
  ultimately show "ws_topics (settled s) = ws_topics (lk_state s)" by (simp add: fun_eq_iff)
qed (simp_all add: settled_def)

lemma settled_new:
  assumes "state_ok st" and "active_topics st = {}"
  shows "settled (new_locked_state st) = st"
  using settled_idle [OF locks_ok_new [OF assms]] by (simp add: new_locked_state_def)

lemma topic_step_ok: "topic_step Q P st st' \<Longrightarrow> state_ok st \<Longrightarrow> state_ok st' \<and> known_topics st' = known_topics st"
proof (induction rule: topic_step.induct)
  case (topic_subscribed i t st st')
  then show ?case using subscribe_topic_ok by blast
next
  case (topic_unsubscribed i t st st')
  then show ?case using unsubscribe_topic_ok by blast
qed (simp_all add: state_ok_def on_message_def shared_join_def known_topics_def registered_def)

lemma topic_steps_ok: "topic_steps Q P st st' \<Longrightarrow> state_ok st \<Longrightarrow> state_ok st' \<and> known_topics st' = known_topics st"
  by (induction rule: rtranclp_induct) (use topic_step_ok in blast)+

lemma lock_reaches_settled:
  "lock_reaches Q P J split s t \<Longrightarrow> locks_ok s \<Longrightarrow> lk_fault t = None \<Longrightarrow> topic_steps Q P (settled s) (settled t)"
proof (induction rule: lock_reaches.induct)
  case (lock_next t u)
  from lock_reaches_ok [OF lock_next.hyps(1) lock_next.prems(1) lock_next.hyps(2)] have "locks_ok t" .
  from settled_lock_step [OF lock_next.hyps(3) this lock_next.hyps(2) lock_next.prems(2)] lock_next
  show ?case by (metis rtranclp.rtrancl_into_rtrancl)
qed simp


text \<open>
  C7: under the mutexes the work on one topic is a single step. Every run of the handlers, cut at their locks and
  pushes and interleaved in any way, that has no fault is a run of the shared state in which each round
  of \<open>websocket_subscribe_to_symbols\<close> and of \<open>websocket_unsubscribe_to_symbols\<close> happens at once, and so do the
  two critical sections of \<open>mutex_\<close>; the state it leads to is well formed, and it is the state of the
  program as soon as no handler is running.
\<close>
theorem locks_refine_topic_steps:
  assumes "state_ok st" and "active_topics st = {}"
    and "lock_reaches Q P J split (new_locked_state st) s" and "lk_fault s = None"
  shows "topic_steps Q P st (settled s) \<and> state_ok (settled s) \<and> known_topics (settled s) = known_topics st \<and>
    ((\<forall>i. lk_tasks s i = None) \<longrightarrow> lk_state s = settled s)"
proof (intro conjI impI)
  note new = locks_ok_new [OF assms(1,2)]
  from lock_reaches_settled [OF assms(3) new assms(4)] show steps: "topic_steps Q P st (settled s)"
    by (simp add: settled_new [OF assms(1,2)])
  from topic_steps_ok [OF steps assms(1)] show "state_ok (settled s)" "known_topics (settled s) = known_topics st" by simp_all
  show "lk_state s = settled s" if "\<forall>i. lk_tasks s i = None"
    using settled_idle [OF lock_reaches_ok [OF assms(3) new assms(4)]] that by simp
qed

section \<open>Sets of sessions and their pointers\<close>

lemma registered_alive:
  assumes "locks_ok s" and "i \<in> registered (lk_state s) t"
  shows "i \<in> lk_alive s"
proof (cases "lk_tasks s i")
  case None
  with locks_okD(1) [OF assms(1), of i] assms(2) show ?thesis by (auto simp: view_def regs_def)
next
  case (Some k)
  obtain p a r where "k = Task p a r" by (cases k)
  with locks_okD(1) [OF assms(1), of i] Some show ?thesis by (simp add: view_def)
qed

text \<open>Who may change the sessions of a symbol, and what.\<close>

lemma session_change_registered:
  assumes "session_change i s s'" and "registered (lk_state s') t \<noteq> registered (lk_state s) t"
  shows "lk_symbol s t = Some (Held_by_session i) \<and>
    (registered (lk_state s') t = insert i (registered (lk_state s) t) \<or> registered (lk_state s') t = registered (lk_state s) t - {i})"
proof
  show "lk_symbol s t = Some (Held_by_session i)"
    using assms by (auto simp: session_change_def registered_def)
  have "j \<in> registered (lk_state s') t \<longleftrightarrow> j \<in> registered (lk_state s) t" if "j \<noteq> i" for j
  proof -
    from assms(1) that have "regs s' j = regs s j" by (simp add: session_change_def view_def)
    then show ?thesis by (auto simp: regs_def)
  qed
  then have "registered (lk_state s') t - {i} = registered (lk_state s) t - {i}" by blast
  then show "registered (lk_state s') t = insert i (registered (lk_state s) t) \<or> registered (lk_state s') t = registered (lk_state s) t - {i}"
    by blast
qed

lemma outside_registered:
  assumes "lock_step Q P J split s s'" and "\<not> lock_move Q s s'"
  shows "registered (lk_state s') = registered (lk_state s) \<and> sessions (lk_state s') = sessions (lk_state s) \<and> lk_copies s' = lk_copies s"
  using assms by cases (simp_all add: registered_def fun_eq_iff on_message_def)

lemma task_step_sessions:
  assumes "locks_ok s" and "lk_tasks s i = Some k" and "task_step Q i k s = Some s'" and "lk_fault s = None" "lk_fault s' = None"
    and "sessions (lk_state s') \<noteq> sessions (lk_state s)"
  shows "lk_mutex s = Some i \<and>
    (sessions (lk_state s') = insert i (sessions (lk_state s)) \<or> sessions (lk_state s') = sessions (lk_state s) - {i})"
  using assms(1-5)
proof (cases rule: task_step_cases)
  case (leaves_mutex a r)
  with locks_okD(1) [OF assms(1), of i] assms(2) have "lk_mutex s = Some i" by (simp add: view_def)
  with leaves_mutex(2) assms(6) show ?thesis
    by (cases "(i, a, r, s)" rule: under_mutex.cases) (simp_all add: shared_join_def)
next
  case (push ty t r)
  with assms(6) show ?thesis by (cases ty) simp_all
qed (use assms(6) in simp_all)

text \<open>
  C28: the sets of sessions are free of data races. In every step from a reachable state the set of a symbol
  changes only by the handler of a session that holds the mutex of the symbol, and only by this
  session; the set of connected sessions changes only by the holder of \<open>mutex_\<close>, and only by this session; the
  publisher copies the set of a symbol only while it holds the mutex, and what it copies is the set after whole
  rounds. The raw pointers in the sets of the symbols are to objects that are not freed.
\<close>
theorem session_sets_race_free:
  assumes "state_ok st" and "active_topics st = {}"
    and "lock_reaches Q P J split (new_locked_state st) s" and "lk_fault s = None"
    and "lock_step Q P J split s s'" and "lk_fault s' = None"
  shows "registered (lk_state s) t \<subseteq> lk_alive s \<and>
    (registered (lk_state s') t \<noteq> registered (lk_state s) t \<longrightarrow>
      (\<exists>i. lk_symbol s t = Some (Held_by_session i) \<and>
        (registered (lk_state s') t = insert i (registered (lk_state s) t) \<or> registered (lk_state s') t = registered (lk_state s) t - {i}))) \<and>
    (sessions (lk_state s') \<noteq> sessions (lk_state s) \<longrightarrow>
      (\<exists>i. lk_mutex s = Some i \<and>
        (sessions (lk_state s') = insert i (sessions (lk_state s)) \<or> sessions (lk_state s') = sessions (lk_state s) - {i}))) \<and>
    (lk_copies s' \<noteq> lk_copies s \<longrightarrow>
      (\<exists>u. lk_symbol s u = Some Held_by_publisher \<and> lk_copies s' = lk_copies s @ [(u, registered (settled s) u)]))"
proof -
  note ok = lock_reaches_ok [OF assms(3) locks_ok_new [OF assms(1,2)] assms(4)]
  have alive: "registered (lk_state s) t \<subseteq> lk_alive s" using registered_alive [OF ok] by blast
  show ?thesis
  proof (cases "lock_move Q s s'")
    case True
    then show ?thesis
    proof cases
      case (session_moves i k)
      from task_step_change [OF ok this assms(4,6)] have c: "session_change i s s'" by simp
      have "lk_copies s' = lk_copies s" using c by (simp add: session_change_def)
      with session_change_registered [OF c, of t] task_step_sessions [OF ok session_moves assms(4,6)] alive show ?thesis
        by blast
    next
      case publisher_moves
      from publisher_step_fields [OF ok publisher_moves assms(6)] show ?thesis
      proof cases
        case (1 u)
        with alive show ?thesis by simp
      next
        case (2 u)
        from 2(1) locks_okD(3) [OF ok] have held: "lk_symbol s u = Some Held_by_publisher" by simp
        have "\<not> unsettled (lk_tasks s j) u" for j using unsettled_holds [OF locks_okD(1) [OF ok], of j u] held by auto
        then have "registered (settled s) u = registered (lk_state s) u"
          unfolding settled_registered [OF ok] by (simp add: settled_regs_def registered_def split: option.split)
        with 2 held alive show ?thesis by auto
      qed
    qed
  next
    case False
    from outside_registered [OF assms(5) False] alive show ?thesis by simp
  qed
qed


section \<open>Two producers\<close>

lemma lock_reaches_trans:
  "lock_reaches Q P J split t u \<Longrightarrow> lock_reaches Q P J split s t \<Longrightarrow> lock_reaches Q P J split s u"
  by (induction rule: lock_reaches.induct) (blast intro: lock_reaches.intros)+

lemma session_move_reaches:
  "lk_tasks s i = Some k \<Longrightarrow> task_step Q i k s = Some s' \<Longrightarrow> lk_fault s = None \<Longrightarrow> lock_reaches Q P J split s s'"
  by (blast intro: lock_reaches.intros lock_step.intros lock_move.intros)

text \<open>A handler that subscribes to a topic without sessions, up to its decision to push.\<close>

lemma subscribe_advances:
  assumes "lk_tasks s i = Some (Task At_mutex (Act_topic SUBSCRIBE t) [])" and "lk_mutex s = None" and "lk_symbol s t = None"
    and "symbols (lk_state s) t = Some (Some smb)" and "sym_sessions smb = {}" and "lk_fault s = None"
  obtains u where "lock_reaches Q P J split s (start_push i SUBSCRIBE t [] u)" "lk_mutex u = None"
    "lk_symbol u = (lk_symbol s)(t \<mapsto> Held_by_session i)" "symbols (lk_state u) = symbols (lk_state s)" "lk_fault u = None"
    "lk_pushing u = lk_pushing s" "\<And>j. j \<noteq> i \<Longrightarrow> lk_tasks u j = lk_tasks s j"
    "lk_state u = (lk_state s)\<lparr>ws_topics := (ws_topics (lk_state s))(i := insert t (ws_topics (lk_state s) i))\<rparr>"
proof -
  let ?a = "Act_topic SUBSCRIBE t"
  define s1 where "s1 = set_task i (Some (Task In_mutex ?a [])) (s\<lparr>lk_mutex := Some i\<rparr>)"
  define s2 where "s2 = (under_mutex i ?a [] s1)\<lparr>lk_mutex := None\<rparr>"
  define s3 where "s3 = set_task i (Some (Task In_symbol ?a [])) (s2\<lparr>lk_symbol := (lk_symbol s2)(t \<mapsto> Held_by_session i)\<rparr>)"
  have at: "symbol_at t (lk_state s2) = (Some smb, lk_state s2)" "symbol_at t (lk_state s3) = (Some smb, lk_state s3)"
    using assms(4) by (simp_all add: symbol_at_def s1_def s2_def s3_def)
  have "lock_reaches Q P J split s s1" by (rule session_move_reaches [OF assms(1)]) (use assms in \<open>simp_all add: s1_def\<close>)
  moreover have "lock_reaches Q P J split s1 s2"
    by (rule session_move_reaches [of _ i "Task In_mutex ?a []"]) (use assms in \<open>simp_all add: s1_def s2_def\<close>)
  moreover have "lock_reaches Q P J split s2 s3"
    by (rule session_move_reaches [of _ i "Task At_symbol ?a []"]) (use assms at in \<open>simp_all add: s1_def s2_def s3_def\<close>)
  moreover have "lock_reaches Q P J split s3 (start_push i SUBSCRIBE t [] s3)"
    by (rule session_move_reaches [of _ i "Task In_symbol ?a []"]) (use assms at(2) in \<open>simp_all add: s1_def s2_def s3_def\<close>)
  ultimately have "lock_reaches Q P J split s (start_push i SUBSCRIBE t [] s3)" by (blast intro: lock_reaches_trans)
  then show thesis
    by (rule that) (use assms in \<open>simp_all add: s1_def s2_def s3_def\<close>)
qed

lemma two_topics_race:
  assumes "state_ok st" and "active_topics st = {}" and "t \<in> known_topics st" and "t' \<in> known_topics st" and "t \<noteq> t'"
    and "parse_message J split m = Inr (Some (SUBSCRIBE, [t]))" and "parse_message J split m' = Inr (Some (SUBSCRIBE, [t']))"
  shows "\<exists>s. lock_reaches Q P J split (new_locked_state st) s \<and> lk_fault s = Some Two_producers"
proof -
  let ?n = "new_locked_state st"
  have none: "registered st u = {}" for u using assms(2) by (auto simp: active_topics_def)
  from assms(3,4) obtain smb smb' where symbols: "symbols st t = Some (Some smb)" "symbols st t' = Some (Some smb')"
    by (auto simp: known_topics_def)
  with none [of t] none [of t'] have empty: "sym_sessions smb = {}" "sym_sessions smb' = {}" by (simp_all add: registered_def)
  note smb = symbols(1) empty(1) and smb' = symbols(2) empty(2)
  define s1 where "s1 = ?n\<lparr>lk_alive := {0}\<rparr>"
  define s2 where "s2 = s1\<lparr>lk_alive := {1, 0}\<rparr>"
  define s3 where "s3 = set_task 0 (Some (Task At_mutex (Act_topic SUBSCRIBE t) [])) s2"
  define s4 where "s4 = set_task 1 (Some (Task At_mutex (Act_topic SUBSCRIBE t') [])) s3"
  note fields = s1_def s2_def s3_def s4_def new_locked_state_def
  have "lock_step Q P J split ?n s1" using session_created [of 0 ?n Q P J split] by (simp add: fields)
  moreover have "lock_step Q P J split s1 s2" using session_created [of 1 s1 Q P J split] by (simp add: fields insert_commute)
  moreover have "lock_step Q P J split s2 s3"
    using message_read [of 0 s2 Q P J split m] assms(6) by (simp add: fields)
  moreover have "lock_step Q P J split s3 s4"
    using message_read [of 1 s3 Q P J split m'] assms(7) by (simp add: fields)
  moreover have faults: "lk_fault ?n = None" "lk_fault s1 = None" "lk_fault s2 = None" "lk_fault s3 = None" by (simp_all add: fields)
  ultimately have posted: "lock_reaches Q P J split ?n s4" by (meson lock_next lock_start)
  have "lk_tasks s4 0 = Some (Task At_mutex (Act_topic SUBSCRIBE t) [])" "lk_mutex s4 = None" "lk_symbol s4 t = None"
    "symbols (lk_state s4) t = Some (Some smb)" "lk_fault s4 = None" using smb by (simp_all add: fields)
  from subscribe_advances [OF this(1-4) smb(2) this(5), of Q P J split] obtain u where
    u: "lock_reaches Q P J split s4 (start_push 0 SUBSCRIBE t [] u)" "lk_mutex u = None"
      "lk_symbol u = (lk_symbol s4)(t \<mapsto> Held_by_session 0)" "symbols (lk_state u) = symbols (lk_state s4)" "lk_fault u = None"
      "lk_pushing u = lk_pushing s4" "\<And>j. j \<noteq> 0 \<Longrightarrow> lk_tasks u j = lk_tasks s4 j" by metis
  define s5 where "s5 = start_push 0 SUBSCRIBE t [] u"
  have "lk_tasks s5 1 = Some (Task At_mutex (Act_topic SUBSCRIBE t') [])" "lk_mutex s5 = None" "lk_symbol s5 t' = None"
    "symbols (lk_state s5) t' = Some (Some smb')" "lk_fault s5 = None" "lk_pushing s5 = Some 0"
    using u(2-7) smb' assms(5) by (simp_all add: s5_def start_push_def fields)
  from subscribe_advances [OF this(1-4) smb'(2) this(5), of Q P J split] this(6) obtain v where
    v: "lock_reaches Q P J split s5 (start_push 1 SUBSCRIBE t' [] v)" "lk_fault v = None" "lk_pushing v = Some 0" by metis
  from v(2,3) have "lk_fault (start_push 1 SUBSCRIBE t' [] v) = Some Two_producers" by (simp add: start_push_def)
  with posted u(1) v(1) show ?thesis unfolding s5_def by (blast intro: lock_reaches_trans)
qed

text \<open>A race needs two handlers inside the mutexes of two symbols.\<close>

lemma race_step:
  assumes "task_step Q i k s = Some s'" and "lk_fault s = None" and "lk_fault s' = Some Two_producers"
  shows "\<exists>ty t r. k = Task In_symbol (Act_topic ty t) r \<and> lk_pushing s \<noteq> None"
proof (cases k)
  case (Task p a r)
  show ?thesis
  proof (cases p)
    case In_mutex
    with assms Task show ?thesis by (cases a rule: lock_action.exhaust; cases "(i, a, r, s)" rule: under_mutex.cases) auto
  next
    case At_symbol
    with assms Task show ?thesis by (cases a) (auto split: prod.splits option.splits if_splits)
  next
    case In_symbol
    with assms Task show ?thesis
      by (cases "(Q, i, k, s)" rule: task_step.cases)
        (auto simp: start_push_def split: prod.splits option.splits if_splits)
  next
    case In_push
    with assms Task show ?thesis by (cases "(Q, i, k, s)" rule: task_step.cases) auto
  next
    case In_join
    with assms Task show ?thesis by (cases "(Q, i, k, s)" rule: task_step.cases) (auto split: prod.splits option.splits)
  qed (use assms Task in \<open>auto split: if_splits\<close>)
qed

lemma race_needs_topics:
  assumes ok: "locks_ok s" and fault: "lk_fault s = None" and step: "lock_step Q P J split s s'" and race: "lk_fault s' = Some Two_producers"
  shows "\<exists>t \<in> known_topics (lk_state s). \<exists>t' \<in> known_topics (lk_state s). t \<noteq> t'"
  using step
proof cases
  case moves
  then show ?thesis
  proof cases
    case (session_moves i k)
    from race_step [OF this(2) fault race] obtain ty t r j where k: "k = Task In_symbol (Act_topic ty t) r" and j: "lk_pushing s = Some j" by auto
    from locks_okD(1) [OF ok, of i] session_moves(1) k have i: "t \<in> known_topics (lk_state s)" "t \<in> locks_of s i" "j \<noteq> i"
      using j by (auto simp: view_def)
    from locks_okD(1) [OF ok, of j] j obtain p a r' where t': "lk_tasks s j = Some (Task p a r')" "p = In_push"
      by (cases "lk_tasks s j"; cases "the (lk_tasks s j)") (auto simp: view_def)
    with locks_okD(1) [OF ok, of j] obtain ty' t' where "a = Act_topic ty' t'" "t' \<in> known_topics (lk_state s)" "t' \<in> locks_of s j"
      by (cases a) (auto simp: view_def)
    with i have "t \<noteq> t'" by (auto simp: locks_of_def)
    with i(1) \<open>t' \<in> known_topics (lk_state s)\<close> show ?thesis by blast
  next
    case publisher_moves
    with fault race show ?thesis by (auto split: publisher_place.splits prod.splits option.splits if_splits)
  qed
qed (use fault race in simp_all)

text \<open>
  C30: the queue of the subscriber can have two producers. \<open>spsc_queue_subscriber_\<close> is a queue for a single producer
  and a single consumer, but what guards its pushes is the mutex of the symbol in question. When messages
  that subscribe to a topic can be sent for all configured topics, two handlers can be inside a push at the
  same time exactly when two different topics are configured.
\<close>
theorem announcements_may_race:
  assumes "state_ok st" and "active_topics st = {}"
    and "\<forall>t \<in> known_topics st. \<exists>m. parse_message J split m = Inr (Some (SUBSCRIBE, [t]))"
  shows "(\<exists>s. lock_reaches Q P J split (new_locked_state st) s \<and> lk_fault s = Some Two_producers) \<longleftrightarrow>
    (\<exists>t \<in> known_topics st. \<exists>t' \<in> known_topics st. t \<noteq> t')"
proof
  note new = locks_ok_new [OF assms(1,2)]
  assume "\<exists>s. lock_reaches Q P J split (new_locked_state st) s \<and> lk_fault s = Some Two_producers"
  then obtain s where s: "lock_reaches Q P J split (new_locked_state st) s" "lk_fault s = Some Two_producers" by blast
  from s(1) show "\<exists>t \<in> known_topics st. \<exists>t' \<in> known_topics st. t \<noteq> t'"
  proof cases
    case lock_start
    with s(2) show ?thesis by (simp add: new_locked_state_def)
  next
    case (lock_next r)
    from lock_reaches_ok [OF lock_next(1) new lock_next(2)] have ok: "locks_ok r" .
    have "known_topics (settled r) = known_topics (lk_state r)"
      by (auto simp: known_topics_def)
    with topic_steps_ok [OF lock_reaches_settled [OF lock_next(1) new lock_next(2)]] assms(1) settled_new [OF assms(1,2)]
    have "known_topics (lk_state r) = known_topics st" by simp
    with race_needs_topics [OF ok lock_next(2,3) s(2)] show ?thesis by simp
  qed
next
  assume "\<exists>t \<in> known_topics st. \<exists>t' \<in> known_topics st. t \<noteq> t'"
  with two_topics_race [OF assms(1,2)] assms(3)
  show "\<exists>s. lock_reaches Q P J split (new_locked_state st) s \<and> lk_fault s = Some Two_producers" by meson
qed


section \<open>Samples\<close>

text \<open>A session that subscribes to the only topic, before it joins the symbol and after.\<close>

abbreviation sample_reaches where
  "sample_reaches \<equiv> lock_reaches bounded_queue bounded_queue (sample_json subscribe_text) (\<lambda>s. [s])"

definition posted_locked :: "((string \<times> string) list, (MsgType \<times> string) list) locked_state" where
  "posted_locked =
     set_task 0 (Some (Task At_mutex (Act_topic SUBSCRIBE ''ETH'') [])) ((new_locked_state (one_topic_state []))\<lparr>lk_alive := {0}\<rparr>)"

lemma posted_locked_reached: "sample_reaches (new_locked_state (one_topic_state [])) posted_locked"
proof -
  let ?n = "new_locked_state (one_topic_state [])"
  let ?step = "lock_step bounded_queue bounded_queue (sample_json subscribe_text) (\<lambda>s. [s])"
  have "?step ?n (?n\<lparr>lk_alive := {0}\<rparr>)" using session_created [of 0 ?n] by (simp add: new_locked_state_def)
  moreover have "?step (?n\<lparr>lk_alive := {0}\<rparr>) posted_locked"
    using message_read [of 0 "?n\<lparr>lk_alive := {0}\<rparr>" _ _ "sample_json subscribe_text" "\<lambda>s. [s]" "''sub''"] parse_subscribe_text
    by (simp add: posted_locked_def new_locked_state_def)
  moreover have "lk_fault ?n = None" "lk_fault (?n\<lparr>lk_alive := {0}\<rparr>) = None" by (simp_all add: new_locked_state_def)
  ultimately show ?thesis by (meson lock_next lock_start)
qed

lemma subscribed_locked:
  obtains s s' where "sample_reaches (new_locked_state (one_topic_state [])) s" "lk_fault s = None"
    "lock_step bounded_queue bounded_queue (sample_json subscribe_text) (\<lambda>s. [s]) s s'" "lk_fault s' = None"
    "\<forall>i. lk_tasks s' i = None" "registered (lk_state s) ''ETH'' = {}" "registered (lk_state s') ''ETH'' = {0}"
    "spsc_queue_subscriber (lk_state s') = [(SUBSCRIBE, ''ETH'')]"
proof -
  let ?a = "Act_topic SUBSCRIBE ''ETH''" and ?smb = "new_symbol ''ETH'' [] 0"
  have init: "lk_tasks posted_locked 0 = Some (Task At_mutex ?a [])" "lk_mutex posted_locked = None" "lk_symbol posted_locked ''ETH'' = None"
    "symbols (lk_state posted_locked) ''ETH'' = Some (Some ?smb)" "sym_sessions ?smb = {}" "lk_fault posted_locked = None"
    by (simp_all add: posted_locked_def new_locked_state_def one_topic_state_def new_symbol_def)
  from subscribe_advances [OF init] obtain u where
    u: "sample_reaches posted_locked (start_push 0 SUBSCRIBE ''ETH'' [] u)" "lk_symbol u = (lk_symbol posted_locked)(''ETH'' \<mapsto> Held_by_session 0)"
      "symbols (lk_state u) = symbols (lk_state posted_locked)" "lk_fault u = None" "lk_pushing u = lk_pushing posted_locked"
      "\<And>j. j \<noteq> 0 \<Longrightarrow> lk_tasks u j = lk_tasks posted_locked j"
      "lk_state u = (lk_state posted_locked)\<lparr>ws_topics := (ws_topics (lk_state posted_locked))(0 := insert ''ETH'' (ws_topics (lk_state posted_locked) 0))\<rparr>"
    by metis
  have "lk_pushing u = None" using u(5) by (simp add: posted_locked_def new_locked_state_def)
  then have push: "start_push 0 SUBSCRIBE ''ETH'' [] u = set_task 0 (Some (Task In_push ?a [])) (u\<lparr>lk_pushing := Some 0\<rparr>)"
    by (simp add: start_push_def)
  define v where "v = set_task 0 (Some (Task In_join ?a [])) (end_push bounded_queue SUBSCRIBE ''ETH'' (u\<lparr>lk_pushing := Some 0\<rparr>))"
  define s' where "s' = unlock_symbol 0 ''ETH'' [] (set_symbol ''ETH'' (symbol_join 0 ?smb) v)"
  have "sample_reaches (start_push 0 SUBSCRIBE ''ETH'' [] u) v"
    unfolding push by (rule session_move_reaches [of _ 0 "Task In_push ?a []"]) (simp_all add: v_def u(4) set_task_def end_push_def)
  with posted_locked_reached u(1) have v: "sample_reaches (new_locked_state (one_topic_state [])) v" by (blast intro: lock_reaches_trans)
  have sym: "symbols (lk_state v) ''ETH'' = Some (Some ?smb)" using init(4) u(3) by (simp add: v_def)
  have k: "lk_tasks v 0 = Some (Task In_join ?a [])" by (simp add: v_def)
  have "task_step bounded_queue 0 (Task In_join ?a []) v = Some s'" by (simp add: symbol_at_def sym s'_def)
  then have step: "lock_step bounded_queue bounded_queue (sample_json subscribe_text) (\<lambda>s. [s]) v s'"
    by (rule lock_step.moves [OF lock_move.session_moves [OF k]])
  show thesis
  proof (rule that [OF v _ step])
    show "\<forall>i. lk_tasks s' i = None"
      using u(6) by (auto simp: s'_def v_def posted_locked_def new_locked_state_def)
    show "registered (lk_state v) ''ETH'' = {}" by (simp add: registered_def sym new_symbol_def)
    show "registered (lk_state s') ''ETH'' = {0}" by (simp add: s'_def symbol_join_def new_symbol_def)
    show "spsc_queue_subscriber (lk_state s') = [(SUBSCRIBE, ''ETH'')]"
      using u(7) by (simp add: s'_def v_def posted_locked_def new_locked_state_def one_topic_state_def queue_capacity_def)
  qed (simp_all add: v_def s'_def u(4))
qed

theorem locks_refine_topic_steps_witness:
  "\<exists>s. topic_steps bounded_queue bounded_queue (one_topic_state []) s \<and> state_ok s \<and> registered s ''ETH'' = {0} \<and>
     spsc_queue_subscriber s = [(SUBSCRIBE, ''ETH'')]"
proof -
  obtain s s' where s: "sample_reaches (new_locked_state (one_topic_state [])) s" "lk_fault s = None"
    "lock_step bounded_queue bounded_queue (sample_json subscribe_text) (\<lambda>s. [s]) s s'" "lk_fault s' = None"
    "\<forall>i. lk_tasks s' i = None" "registered (lk_state s') ''ETH'' = {0}" "spsc_queue_subscriber (lk_state s') = [(SUBSCRIBE, ''ETH'')]"
    by (rule subscribed_locked) blast
  have "state_ok (one_topic_state [])" "active_topics (one_topic_state []) = {}" by (simp_all add: one_topic_state_ok)
  from locks_refine_topic_steps [OF this lock_next [OF s(1-3)] s(4)] s show ?thesis by metis
qed

theorem session_sets_race_free_witness:
  "\<exists>s i. sample_reaches (new_locked_state (one_topic_state [])) s \<and> lk_symbol s ''ETH'' = Some (Held_by_session i) \<and>
     registered (lk_state s) ''ETH'' = {}"
proof -
  obtain s s' where s: "sample_reaches (new_locked_state (one_topic_state [])) s" "lk_fault s = None"
    "lock_step bounded_queue bounded_queue (sample_json subscribe_text) (\<lambda>s. [s]) s s'" "lk_fault s' = None"
    "registered (lk_state s) ''ETH'' = {}" "registered (lk_state s') ''ETH'' = {0}"
    by (rule subscribed_locked) blast
  have "state_ok (one_topic_state [])" "active_topics (one_topic_state []) = {}" by (simp_all add: one_topic_state_ok)
  from session_sets_race_free [OF this s(1-4), of "''ETH''"] s show ?thesis by auto
qed

text \<open>Two topics.\<close>

definition two_topic_state :: "((string \<times> string) list, (MsgType \<times> string) list) shared_state" where
  "two_topic_state =
     (one_topic_state [])\<lparr>symbols := [''ETH'' \<mapsto> Some (new_symbol ''ETH'' [] 0), ''BTC'' \<mapsto> Some (new_symbol ''BTC'' [] 0)]\<rparr>"

definition topic_texts :: "string \<Rightarrow> jval option" where
  "topic_texts s = Some (JObject [(''ty'', JInt 1), (''to'', JString s)])"

theorem announcements_may_race_witness:
  "\<exists>s. lock_reaches bounded_queue bounded_queue (sample_json topic_texts) (\<lambda>s. [s]) (new_locked_state two_topic_state) s \<and>
     lk_fault s = Some Two_producers"
proof -
  have ok: "state_ok two_topic_state" "active_topics two_topic_state = {}"
    by (auto simp: state_ok_def two_topic_state_def one_topic_state_def registered_def new_symbol_def active_topics_def)
  have texts: "parse_message (sample_json topic_texts) (\<lambda>s. [s]) t = Inr (Some (SUBSCRIBE, [t]))" for t
    by (simp add: parse_message_def parser_parse_def sample_json_def topic_texts_def msg_type_of_int_def)
  have topics: "\<forall>t \<in> known_topics two_topic_state. \<exists>m. parse_message (sample_json topic_texts) (\<lambda>s. [s]) m = Inr (Some (SUBSCRIBE, [t]))"
    using texts by blast
  have "''ETH'' \<in> known_topics two_topic_state" "''BTC'' \<in> known_topics two_topic_state"
    by (simp_all add: known_topics_def two_topic_state_def)
  then have "\<exists>t \<in> known_topics two_topic_state. \<exists>t' \<in> known_topics two_topic_state. t \<noteq> t'"
    by (intro bexI [of _ "''ETH''"] bexI [of _ "''BTC''"]) simp_all
  then show ?thesis using announcements_may_race [OF ok topics] by blast
qed

end
