(* ===== verification/Locked_Liveness.thy ===== *)
theory Locked_Liveness
  imports Locked_Refinement
begin

text \<open>
  The mutexes of the shared state block nobody for ever: a handler that waits for a mutex waits for one that can
  move, and the handlers that are running end after a bounded number of moves.
\<close>

section \<open>Moves that are left\<close>

fun place_left :: "lock_place \<Rightarrow> nat" where
  "place_left At_mutex = 6"
| "place_left In_mutex = 5"
| "place_left At_symbol = 4"
| "place_left In_symbol = 3"
| "place_left In_push = 2"
| "place_left In_join = 1"

fun task_left :: "lock_task option \<Rightarrow> nat" where
  "task_left None = 0"
| "task_left (Some (Task p a r)) = place_left p + 6 * length r"

fun publisher_left :: "publisher_place \<Rightarrow> nat" where
  "publisher_left Pub_idle = 0"
| "publisher_left (Pub_at t) = 2"
| "publisher_left (Pub_in t) = 1"

definition moves_left :: "('pq, 'sq) locked_state \<Rightarrow> nat" where
  "moves_left s = (\<Sum>i \<in> lk_alive s. task_left (lk_tasks s i)) + publisher_left (lk_publisher s)"

definition all_idle :: "('pq, 'sq) locked_state \<Rightarrow> bool" where
  "all_idle s \<longleftrightarrow> (\<forall>i. lk_tasks s i = None) \<and> lk_publisher s = Pub_idle"

inductive lock_moves ::
    "('sq, MsgType \<times> string) spsc \<Rightarrow> nat \<Rightarrow> ('pq, 'sq) locked_state \<Rightarrow> ('pq, 'sq) locked_state \<Rightarrow> bool"
  for Q where
  no_move: "lock_moves Q 0 s s"
| more_moves: "lock_moves Q n s t \<Longrightarrow> lk_fault t = None \<Longrightarrow> lock_move Q t u \<Longrightarrow> lock_moves Q (Suc n) s u"

lemma task_left_task_of [simp]: "task_left (task_of r) = 6 * length r"
  by (cases r) simp_all

lemma task_step_left:
  assumes ok: "locks_ok s" and k: "lk_tasks s i = Some k" and step: "task_step Q i k s = Some s'"
    and fault: "lk_fault s = None" "lk_fault s' = None"
  shows "task_left (lk_tasks s' i) < task_left (lk_tasks s i) \<and> (lk_alive s' = lk_alive s \<or> lk_alive s' = lk_alive s - {i}) \<and>
    (\<forall>j. j \<noteq> i \<longrightarrow> lk_tasks s' j = lk_tasks s j) \<and> lk_publisher s' = lk_publisher s"
  using assms
proof (cases rule: task_step_cases)
  case (leaves_mutex a r)
  with k show ?thesis by (cases "(i, a, r, s)" rule: under_mutex.cases) auto
next
  case (push ty t r)
  with k show ?thesis by (cases ty) auto
qed (use k in auto)

lemma moves_left_less:
  assumes "lock_move Q s s'" and ok: "locks_ok s" and fault: "lk_fault s = None" "lk_fault s' = None"
  shows "moves_left s' < moves_left s"
  using assms(1)
proof cases
  case (session_moves i k)
  note step = task_step_left [OF ok this fault]
  note fin = locks_okD(6) [OF ok]
  have alive: "i \<in> lk_alive s"
    using locks_okD(1) [OF ok, of i] session_moves(1) by (cases k) (auto simp: view_def)
  have "(\<Sum>j \<in> lk_alive s'. task_left (lk_tasks s' j)) \<le> (\<Sum>j \<in> lk_alive s. task_left (lk_tasks s' j))"
    by (rule sum_mono2) (use fin step in auto)
  also have "\<dots> < (\<Sum>j \<in> lk_alive s. task_left (lk_tasks s j))"
  proof (rule sum_strict_mono_ex1 [OF fin])
    show "\<forall>j \<in> lk_alive s. task_left (lk_tasks s' j) \<le> task_left (lk_tasks s j)"
      using step by (metis less_imp_le order_refl)
    show "\<exists>j \<in> lk_alive s. task_left (lk_tasks s' j) < task_left (lk_tasks s j)" using step alive by blast
  qed
  finally show ?thesis using step by (simp add: moves_left_def)
next
  case publisher_moves
  from publisher_step_fields [OF ok this fault(2)] show ?thesis
    by cases (simp_all add: moves_left_def)
qed

lemma lock_moves_left:
  "lock_moves Q n s t \<Longrightarrow> locks_ok s \<Longrightarrow> lk_fault t = None \<Longrightarrow> locks_ok t \<and> n + moves_left t \<le> moves_left s"
proof (induction rule: lock_moves.induct)
  case (more_moves n s t u)
  with lock_move_ok [OF more_moves.hyps(3) _ more_moves.hyps(2) more_moves.prems(2)]
    moves_left_less [OF more_moves.hyps(3) _ more_moves.hyps(2) more_moves.prems(2)] show ?case by fastforce
qed simp

section \<open>Progress\<close>

text \<open>Who is inside the mutex of a symbol can move.\<close>

lemma inside_moves:
  assumes ok: "locks_ok s" and "lk_symbol s t = Some h"
  shows "\<exists>u. lock_move Q s u"
proof (cases h)
  case Held_by_publisher
  with assms(2) locks_okD(3) [OF ok] have pub: "lk_publisher s = Pub_in t" by simp
  with symbol_at_known [OF locks_okD(4) [OF ok pub]] have "\<exists>u. publisher_step s = Some u" by auto
  then show ?thesis by (blast intro: lock_move.intros)
next
  case (Held_by_session i)
  with assms(2) have held: "t \<in> locks_of s i" by (simp add: locks_of_def)
  then obtain p a r where k: "lk_tasks s i = Some (Task p a r)"
    using locks_okD(1) [OF ok, of i] by (cases "lk_tasks s i"; cases "the (lk_tasks s i)") (auto simp: view_def)
  with held locks_okD(1) [OF ok, of i] obtain ty where a: "a = Act_topic ty t" and p: "p \<in> {In_symbol, In_push, In_join}" "p = In_join \<longrightarrow> ty = SUBSCRIBE"
    by (cases a; cases p) (auto simp: view_def split: if_splits)
  obtain smb where "symbol_at t (lk_state s) = (Some smb, lk_state s)" by (rule inside_symbol [OF ok k [unfolded a] p(1)])
  with p have "\<exists>u. task_step Q i (Task p a r) s = Some u" by (cases p; cases ty) (auto simp: a split: prod.split)
  with k show ?thesis by (blast intro: lock_move.intros)
qed

lemma waiting_for_symbol:
  assumes ok: "locks_ok s" and "lk_symbol s t = None \<Longrightarrow> \<exists>u. lock_move Q s u"
  shows "\<exists>u. lock_move Q s u"
  using assms inside_moves [OF ok] by (cases "lk_symbol s t") blast+

lemma busy_moves:
  assumes ok: "locks_ok s" and busy: "\<not> all_idle s"
  shows "\<exists>u. lock_move Q s u"
proof (cases "\<exists>i k. lk_tasks s i = Some k")
  case True
  then obtain i p a r where k: "lk_tasks s i = Some (Task p a r)" by (metis lock_task.exhaust)
  have moves: "\<exists>u. lock_move Q s u" if "\<exists>u. task_step Q j k s = Some u" "lk_tasks s j = Some k" for j k
    using that by (blast intro: lock_move.intros)
  from locks_okD(1) [OF ok, of i] k have v: "round_ok (known_topics (lk_state s)) p a (ws_topics (lk_state s) i) (regs s i) (locks_of s i)"
    by (simp add: view_def)
  consider "p = At_mutex" | "p = In_mutex" | ty t where "a = Act_topic ty t" "p = At_symbol" | ty t where "a = Act_topic ty t" "t \<in> locks_of s i"
    using v by (cases a; cases p) auto
  then show ?thesis
  proof cases
    case 1
    show ?thesis
    proof (cases "lk_mutex s")
      case None
      with 1 show ?thesis by (intro moves [OF _ k]) simp
    next
      case (Some j)
      then obtain p' a' r' where "lk_tasks s j = Some (Task p' a' r')" "p' = In_mutex"
        using locks_okD(1) [OF ok, of j] by (cases "lk_tasks s j"; cases "the (lk_tasks s j)") (auto simp: view_def)
      then show ?thesis by (intro moves [of j]) simp_all
    qed
  next
    case 2
    then show ?thesis by (intro moves [OF _ k]) simp
  next
    case (3 ty t)
    show ?thesis
    proof (rule waiting_for_symbol [OF ok, of t])
      assume "lk_symbol s t = None"
      with 3 show "\<exists>u. lock_move Q s u" by (intro moves [OF _ k]) (auto split: prod.split option.split)
    qed
  next
    case (4 ty t)
    then show ?thesis using inside_moves [OF ok, of t] by (auto simp: locks_of_def)
  qed
next
  case False
  with busy obtain t where "lk_publisher s = Pub_at t \<or> lk_publisher s = Pub_in t"
    unfolding all_idle_def by (metis not_None_eq publisher_place.exhaust)
  then show ?thesis
  proof
    assume p: "lk_publisher s = Pub_at t"
    show ?thesis
    proof (rule waiting_for_symbol [OF ok, of t])
      assume "lk_symbol s t = None"
      with p have "\<exists>u. publisher_step s = Some u" by (auto split: prod.split option.split)
      then show "\<exists>u. lock_move Q s u" by (blast intro: lock_move.intros)
    qed
  next
    assume "lk_publisher s = Pub_in t"
    with locks_okD(3) [OF ok] have "lk_symbol s t = Some Held_by_publisher" by simp
    from inside_moves [OF ok this] show ?thesis .
  qed
qed

text \<open>
  C29: the mutexes cause no deadlock. No handler holds a mutex while it waits for another one, so from every reachable state
  the running handlers and the publisher take at most six moves for each round that is left and two for the
  copy, whatever the order, and until they have all ended one of them can move.
\<close>
theorem mutexes_never_deadlock:
  assumes "state_ok st" and "active_topics st = {}"
    and "lock_reaches Q P J split (new_locked_state st) s" and "lk_fault s = None"
    and "lock_moves Q n s t" and "lk_fault t = None"
  shows "n \<le> moves_left s \<and> (all_idle t \<or> (\<exists>u. lock_move Q t u))"
proof -
  from lock_reaches_ok [OF assms(3) locks_ok_new [OF assms(1,2)] assms(4)] have "locks_ok s" .
  from lock_moves_left [OF assms(5) this assms(6)] have "locks_ok t" "n \<le> moves_left s" by simp_all
  with busy_moves [of t Q] show ?thesis by blast
qed


theorem mutexes_never_deadlock_witness:
  "moves_left posted_locked = 6 \<and> \<not> all_idle posted_locked \<and> (\<exists>u. lock_move bounded_queue posted_locked u)"
proof -
  have ok: "state_ok (one_topic_state [])" "active_topics (one_topic_state []) = {}" by (simp_all add: one_topic_state_ok)
  have free: "lk_fault posted_locked = None" by (simp add: posted_locked_def new_locked_state_def)
  have "moves_left posted_locked = 6" "\<not> all_idle posted_locked"
    by (auto simp: moves_left_def all_idle_def posted_locked_def new_locked_state_def)
  with mutexes_never_deadlock [OF ok posted_locked_reached free no_move free] show ?thesis by simp
qed

end
