(* ===== verification/Web_Socket_Redis.thy ===== *)
theory Web_Socket_Redis
  imports Web_Socket_Runs
begin

text \<open>
  The Redis subscriptions in the web socket system: as long as the queue of the subscriber has room, what
  Redis is subscribed to and the announcements that wait are together the topics of the sessions.
\<close>

section \<open>Runs with room in the queue\<close>

inductive roomy_run ::
    "(sid set \<Rightarrow> sid list) \<Rightarrow> ('sq, MsgType \<times> string) spsc \<Rightarrow> ('pq, string \<times> string) spsc \<Rightarrow> 'r redis_sub \<Rightarrow>
     'j json_lib \<Rightarrow> (string \<Rightarrow> string list) \<Rightarrow>
     ('pq, 'sq, 'r) ws_system \<Rightarrow> event list \<Rightarrow> ('pq, 'sq, 'r) ws_system \<Rightarrow> bool"
  for order Q P R J split where
  roomy_none: "roomy_run order Q P R J split c [] c"
| roomy_step: "roomy_run order Q P R J split c es d \<Longrightarrow> waiting Q (sy_state d) < queue_capacity \<Longrightarrow>
    sys_step order Q P R J split d lab e \<Longrightarrow>
    roomy_run order Q P R J split c (es @ (case lab of None \<Rightarrow> [] | Some l \<Rightarrow> [l])) e"

lemma roomy_sys_run: "roomy_run order Q P R J split c es d \<Longrightarrow> sys_run order Q P R J split c es d"
  by (induction rule: roomy_run.induct) (blast intro: sys_run.intros)+

text \<open>The steps that leave the symbols and the queue of the subscriber alone.\<close>

lemma system_inv_same:
  assumes "system_inv Q R s" and "symbols st = symbols (sb_state s)" and "ws_topics st = ws_topics (sb_state s)"
    and "spsc_queue_subscriber st = spsc_queue_subscriber (sb_state s)"
  shows "system_inv Q R (s\<lparr>sb_state := st\<rparr>)"
proof -
  have "registered st = registered (sb_state s)" using assms(2) by (simp add: registered_def fun_eq_iff)
  then have "active_topics st = active_topics (sb_state s)" by (simp add: active_topics_def)
  with state_ok_cong [OF assms(2,3)] assms(1,4) show ?thesis by (simp add: system_inv_def mirrored_def waiting_def)
qed

lemma round_system_inv:
  assumes Q: "spsc_queue Q" and R: "redis_sub_laws R" and inv: "system_inv Q R s" and room: "waiting Q (sb_state s) < queue_capacity"
    and "topic_round Q i ty t (sb_state s) = (Ret (), st')"
  shows "system_inv Q R (s\<lparr>sb_state := st'\<rparr>)"
proof (cases ty)
  case SUBSCRIBE
  with assms(5) have "system_step Q P R J split s (s\<lparr>sb_state := st'\<rparr>)" for P J split by (simp add: session_subscribes room)
  from system_inv_step [OF Q R this inv] show ?thesis .
next
  case UNSUBSCRIBE
  with assms(5) have "system_step Q P R J split s (s\<lparr>sb_state := st'\<rparr>)" for P J split by (simp add: session_unsubscribes room)
  from system_inv_step [OF Q R this inv] show ?thesis .
qed

lemma set_state_inv:
  assumes "system_inv Q R (sy_sub c)" and "symbols st = symbols (sy_state c)" and "ws_topics st = ws_topics (sy_state c)"
    and "spsc_queue_subscriber st = spsc_queue_subscriber (sy_state c)"
  shows "system_inv Q R (sy_sub (set_state st c))"
  using system_inv_same [OF assms(1)] assms(2-4) by (simp add: set_state_def sy_state_def)

lemma sub_fields [simp]:
  "sy_sub (set_live s w c) = sy_sub c" "sy_sub (set_work s k c) = sy_sub c"
  by (simp_all add: set_live_def set_work_def)

lemma sys_step_subscriptions:
  assumes Q: "spsc_queue Q" and R: "redis_sub_laws R"
  shows "sys_step order Q P R J split c lab d \<Longrightarrow> sys_inv c \<Longrightarrow> waiting Q (sy_state c) < queue_capacity \<Longrightarrow>
    system_inv Q R (sy_sub c) \<Longrightarrow> system_inv Q R (sy_sub d)"
proof (induction rule: sys_step.induct)
  case (sys_open c s)
  then have "ws_topics (sy_state c) s = {}" by (auto simp: sys_inv_def allocated_def)
  with sys_open show ?case by (simp add: set_state_inv fun_upd_idem)
next
  case (sys_accepted c s w xs ys ec w' st')
  from on_accept_effect [OF sys_accepted(4)] sys_accepted show ?case by (auto simp: set_state_inv shared_join_def)
next
  case (sys_read_failed c s w xs ys ec w' st')
  then show ?case by (auto simp: ws_on_read_def set_state_inv)
next
  case (sys_round c s ty t as st')
  from round_system_inv [OF Q R sys_round(5)] sys_round(2,4) show ?case by (simp add: sy_state_def set_state_def)
next
  case (sys_copied c topic m smb st')
  then have "topic \<in> known_topics (sy_state c)"
    using symbol_at_unknown [of topic "sy_state c"] by (metis fst_conv option.distinct(1))
  with symbol_at_registered [of topic "sy_state c"] sys_copied show ?case by (auto simp: set_state_inv)
next
  case (sys_subscriber c sub')
  from system_inv_iteration [OF Q R sys_subscriber(4,1)] show ?case by simp
qed (simp_all add: set_state_inv)

lemma roomy_run_inv:
  assumes "spsc_queue Q" and "redis_sub_laws R" and "traversal order"
  shows "roomy_run order Q P R J split c es d \<Longrightarrow> sys_inv c \<Longrightarrow> system_inv Q R (sy_sub c) \<Longrightarrow>
    sys_inv d \<and> system_inv Q R (sy_sub d)"
proof (induction rule: roomy_run.induct)
  case (roomy_step c es d lab e)
  then have "sys_inv d" "system_inv Q R (sy_sub d)" by simp_all
  with sys_step_simulates [OF assms(3) roomy_step.hyps(3)] sys_step_subscriptions [OF assms(1,2) roomy_step.hyps(3) _ roomy_step.hyps(2)]
  show ?case by (simp add: simulates_def)
qed simp

lemma new_system_inv:
  assumes "new_shared_state split now pq sq root topics vm = Ret st" and "sp_contents Q sq = []" and "rsub_topics R redis = {}"
  shows "system_inv Q R (sy_sub (new_system redis st))"
proof -
  from assms(1) have "spsc_queue_subscriber st = sq" by (auto simp: new_shared_state_def split: option.splits)
  with new_shared_state_ok [OF assms(1)] assms(2,3) show ?thesis
    by (simp add: new_system_def new_subscriber_def system_inv_def mirrored_def waiting_def)
qed

section \<open>Properties\<close>

text \<open>
  C14: the Redis subscriptions follow the sessions. In every state that is reached with room in the queue of the
  subscriber, the announcements that wait there lead from what Redis is subscribed to, with no redundant one,
  to the topics of the sessions that are connected or whose destructor still runs; when the queue is empty
  Redis is subscribed to exactly these, and the counter that guards \<open>consume\<close> is their number.
\<close>
theorem redis_follows_sessions:
  assumes "spsc_queue Q" and "redis_sub_laws R" and "traversal order"
    and "new_shared_state split now pq sq root topics vm = Ret st" and "sp_contents Q sq = []" and "rsub_topics R redis = {}"
    and "roomy_run order Q P R J split' (new_system redis st) es c"
  shows "announced (sp_contents Q (spsc_queue_subscriber (sy_state c))) (rsub_topics R (sub (sy_sub c))) =
      Some {t. \<exists>s \<in> dom (sy_live c) \<union> sy_dying c. t \<in> ws_topics (sy_state c) s} \<and>
    (sp_contents Q (spsc_queue_subscriber (sy_state c)) = [] \<longrightarrow>
      rsub_topics R (sub (sy_sub c)) = {t. \<exists>s \<in> dom (sy_live c) \<union> sy_dying c. t \<in> ws_topics (sy_state c) s} \<and>
      topics_subscribed_count (sy_sub c) = int (card (rsub_topics R (sub (sy_sub c)))))"
proof -
  have "sys_run order Q P R J split' (new_system redis st) [] (new_system redis st)" by (rule run_none)
  from roomy_run_inv [OF assms(1-3,7) conjunct1 [OF sys_run_start [OF assms(3,4) this]] new_system_inv [OF assms(4-6)]]
  have inv: "sys_inv c" "system_inv Q R (sy_sub c)" by simp_all
  have "active_topics (sy_state c) = {t. \<exists>s \<in> dom (sy_live c) \<union> sy_dying c. t \<in> ws_topics (sy_state c) s}"
  proof -
    have "state_ok (sy_state c)" using inv(1) by (simp add: sys_inv_def)
    moreover have "s \<in> dom (sy_live c) \<union> sy_dying c" if "t \<in> ws_topics (sy_state c) s" for s t
      using inv(1) that unfolding sys_inv_def allocated_def by blast
    ultimately show ?thesis unfolding active_topics_of_sessions [OF \<open>state_ok (sy_state c)\<close>] by blast
  qed
  moreover have "announced (sp_contents Q (spsc_queue_subscriber (sy_state c))) (rsub_topics R (sub (sy_sub c))) = Some (active_topics (sy_state c))"
    "topics_subscribed_count (sy_sub c) = int (card (rsub_topics R (sub (sy_sub c))))"
    using inv(2) by (simp_all add: system_inv_def mirrored_def sy_state_def)
  ultimately show ?thesis by (cases "sp_contents Q (spsc_queue_subscriber (sy_state c)) = []") simp_all
qed

text \<open>A Redis that remembers its channels, a session that subscribes, and a round of the subscriber.\<close>

lemma roomy_one:
  "roomy_run order Q P R J split c es d \<Longrightarrow> waiting Q (sy_state d) < queue_capacity \<Longrightarrow> sys_step order Q P R J split d None e \<Longrightarrow>
   roomy_run order Q P R J split c es e"
  using roomy_step by fastforce

lemma roomy_event:
  "roomy_run order Q P R J split c es d \<Longrightarrow> waiting Q (sy_state d) < queue_capacity \<Longrightarrow> sys_step order Q P R J split d (Some l) e \<Longrightarrow>
   roomy_run order Q P R J split c (es @ [l]) e"
  using roomy_step by fastforce

lemma redis_sample_run:
  "\<exists>c. roomy_run sorted_list_of_set bounded_queue bounded_queue set_redis (sample_json subscribe_text) (\<lambda>s. [s])
      (new_system ({} :: string set) sample_state) [Ev_open 7, Ev_subscribe 7 ''ETH''] c \<and>
    spsc_queue_subscriber (sy_state c) = [] \<and> rsub_topics set_redis (sub (sy_sub c)) = {''ETH''} \<and> sy_live c 7 \<noteq> None"
proof -
  let ?run = "roomy_run sorted_list_of_set bounded_queue bounded_queue set_redis (sample_json subscribe_text) (\<lambda>s. [s])
      (new_system ({} :: string set) sample_state)"
  define w0 where "w0 = ws_run (new_websocket_session 7)"
  define w1 where "w1 = start_op Op_read (new_websocket_session 7)"
  define c1 where "c1 = set_live 7 w0 (set_state (sample_state\<lparr>ws_topics := (\<lambda>_. {})(7 := {})\<rparr>) (new_system ({} :: string set) sample_state))"
  define c2 where "c2 = set_live 7 w1 (set_state (shared_join 7 (sy_state c1)) c1)"
  define c3 where "c3 = set_work 7 (Some [Act_topic SUBSCRIBE ''ETH'']) (set_live 7 (w1\<lparr>ws_ops := []\<rparr>) c2)"
  define st4 where "st4 = (sy_state c2)\<lparr>symbols := [''ETH'' \<mapsto> Some (symbol_join 7 (new_symbol ''ETH'' [] 0))],
    spsc_queue_subscriber := [(SUBSCRIBE, ''ETH'')], ws_topics := (\<lambda>_. {})(7 := {''ETH''})\<rparr>"
  define c4 where "c4 = set_work 7 (Some []) (set_state st4 c3)"
  define c5 where "c5 = c4\<lparr>sy_sub := \<lparr>sb_state = st4\<lparr>spsc_queue_subscriber := []\<rparr>, topics_subscribed_count = 1, sub = {''ETH''}\<rparr>\<rparr>"
  note defs = c1_def c2_def c3_def c4_def st4_def sample_state_def shared_join_def
  have room: "waiting bounded_queue (sy_state c) < queue_capacity" if "c \<in> {new_system ({} :: string set) sample_state, c1, c2, c3, c4}" for c
    using that by (auto simp: waiting_def defs queue_capacity_def)
  have ops: "ws_ops w0 = [] @ Op_accept # []" "ws_ops w1 = [] @ Op_read # []"
    by (simp_all add: w0_def w1_def ws_run_def new_websocket_session_def)
  have live: "sy_live c1 7 = Some w0" "sy_live c2 7 = Some w1" "sy_work c1 7 = None" "sy_work c2 7 = None" by (simp_all add: defs)
  have 1: "?run [Ev_open 7] c1"
    using roomy_event [OF roomy_none room sys_open [where c = "new_system ({} :: string set) sample_state" and s = 7]]
    by (simp add: c1_def w0_def sample_state_def)
  have "ws_on_accept None (w0\<lparr>ws_ops := [] @ []\<rparr>, sy_state c1) = (w1, shared_join 7 (sy_state c1))"
    by (simp add: ws_on_accept_def w0_def w1_def ws_run_def new_websocket_session_def start_op_def)
  from roomy_one [OF 1 room sys_accepted [OF live(1,3) ops(1) this]] have 2: "?run [Ev_open 7] c2" by (simp add: c2_def)
  from roomy_one [OF 2 room sys_message [OF live(2,4) ops(2), of _ _ _ _ _ _ "''sub''"]] have 3: "?run [Ev_open 7] c3"
    by (simp add: c3_def parse_subscribe_text)
  have "subscribe_topic bounded_queue 7 ''ETH'' (sy_state c3) = (Ret (), st4)"
    by (simp add: subscribe_topic_def symbol_at_def Let_def defs new_symbol_def symbol_join_def queue_capacity_def)
  then have "sys_step sorted_list_of_set bounded_queue bounded_queue set_redis (sample_json subscribe_text) (\<lambda>s. [s]) c3
      (Some (round_event c3 7 SUBSCRIBE ''ETH'')) c4"
    unfolding c4_def by (intro sys_round) (simp_all add: c3_def)
  moreover have "round_event c3 7 SUBSCRIBE ''ETH'' = Ev_subscribe 7 ''ETH''" by (simp add: round_event_def defs)
  ultimately have 4: "?run [Ev_open 7, Ev_subscribe 7 ''ETH''] c4" using roomy_event [OF 3 room, of "Ev_subscribe 7 ''ETH''" c4] by simp
  have sub: "sy_sub c4 = \<lparr>sb_state = st4, topics_subscribed_count = 0, sub = {}\<rparr>"
    by (simp add: defs set_state_def set_work_def set_live_def new_system_def new_subscriber_def)
  have "subscriber_iteration bounded_queue bounded_queue set_redis (sy_sub c4) =
      (Ret (), \<lparr>sb_state = st4\<lparr>spsc_queue_subscriber := []\<rparr>, topics_subscribed_count = 1, sub = {''ETH''}\<rparr>)"
    by (simp add: sub subscriber_iteration_def subscriber_consume_def set_redis_def st4_def)
  from sys_subscriber [OF this, of sorted_list_of_set "sample_json subscribe_text" "\<lambda>s. [s]"]
  have "sys_step sorted_list_of_set bounded_queue bounded_queue set_redis (sample_json subscribe_text) (\<lambda>s. [s]) c4 None c5"
    by (simp add: arrival_event_def sub c5_def)
  from roomy_one [OF 4 room this] show ?thesis
    by (intro exI [of _ c5]) (simp add: c5_def c4_def c3_def set_redis_def)
qed

theorem redis_follows_sessions_witness:
  "\<exists>c :: ((string \<times> string) list, (MsgType \<times> string) list, string set) ws_system. sy_live c 7 \<noteq> None \<and> rsub_topics set_redis (sub (sy_sub c)) = {''ETH''} \<and>
     {''ETH''} = {t. \<exists>s \<in> dom (sy_live c) \<union> sy_dying c. t \<in> ws_topics (sy_state c) s} \<and> topics_subscribed_count (sy_sub c) = 1"
proof -
  from redis_sample_run obtain c where c: "roomy_run sorted_list_of_set bounded_queue bounded_queue set_redis (sample_json subscribe_text) (\<lambda>s. [s])
      (new_system ({} :: string set) sample_state) [Ev_open 7, Ev_subscribe 7 ''ETH''] c"
    "spsc_queue_subscriber (sy_state c) = []" "rsub_topics set_redis (sub (sy_sub c)) = {''ETH''}" "sy_live c 7 \<noteq> None" by blast
  have "rsub_topics set_redis {} = {}" "sp_contents bounded_queue [] = []" by (simp_all add: set_redis_def)
  from redis_follows_sessions [OF bounded_queue_spsc set_redis_laws sorted_traversal sample_state_new this(2,1) c(1)] c(2-4)
  show ?thesis by (intro exI [of _ c]) auto
qed

end
