(* ===== verification/Spec2Isabelle.thy ===== *)
theory Spec2Isabelle
  imports Listener Worker_Pool Worker_Liveness Server_System Quote_Pipeline Upload_Reference Uploader_System Controller_Answers Fundamentals_System Duckdb_System Server_Process Locked_Liveness Web_Socket_Redis
begin

text \<open>
  \<^bold>\<open>A verification development for the Sravz C++ backend\<close>

  The repository builds one binary (\<open>src/main.cpp\<close>) with three sub-programs: a web server for
  HTTP requests and web sockets (\<open>src/web/webserver.cpp\<close>), a client that relays the quotes of
  a vendor's web socket to Redis channels (\<open>src/ws_vendor.cpp\<close>), and an uploader that stores
  what arrives on those channels in a Redis time series (\<open>src/redis_uploader.cpp\<close>). This
  development models the program's own code; the libraries it calls are parameters.

  \<^bold>\<open>How the parts interact\<close>

  A connection is accepted by the listener, which makes an HTTP session. The session reads one
  request, checks its token, and either becomes a web socket session or posts the request to the
  background workers, where the router picks a controller; the controllers call the Redis, S3,
  MongoDB, DuckDB and download services. A web socket session sends its subscriptions to the
  shared state, which keeps one symbol per configured topic and announces the first and the last
  session of a topic on a bounded queue to the Redis subscriber. What Redis delivers goes through a
  second queue to the publisher, which posts it to the sessions of the symbol; each session
  serialises its writes with a queue on its strand.

  \<^bold>\<open>Theories and the code they model\<close>

  \<^item> \<open>Prelude\<close>: outcomes of a C++ call (returns, throws, brings the process down, never returns), the
    state-and-exception monad \<open>io\<close> over the world of the services, \<open>intercalate\<close>.
  \<^item> \<open>Std_Lib\<close>: what the code uses of the standard library: \<open>getline\<close>, \<open>stoi\<close>, \<open>atoi\<close>, \<open>toupper\<close>,
    \<open>find\<close>, \<open>replace\<close>, \<open>substr\<close>.
  \<^item> \<open>Backend_Utils\<close>: \<open>src/utils.cpp\<close>, \<open>src/util.cpp\<close>, \<open>include/main.hpp\<close> (compression loop, fund codes,
    environment, the string hash on 64 bit words).
  \<^item> \<open>Message_Queue\<close>: \<open>include/sravz.hpp\<close>; the interface \<open>spsc_queue\<close> of the lock-free queue, interpreted on
    a bounded queue, and the polling loop with its exponential back-off.
  \<^item> \<open>Json_Lib\<close>, \<open>Models\<close>: the use of Boost.JSON (\<open>src/web/parser.cpp\<close>) and \<open>include/models\<close>.
  \<^item> \<open>Redis_Service\<close>, \<open>S3_Service\<close>, \<open>Mongo_Service\<close>, \<open>Duckdb_Service\<close>, \<open>Data_Provider\<close>: \<open>src/services\<close>. A
    library client is a record of operations on an arbitrary world.
  \<^item> \<open>Controllers\<close>, \<open>Router\<close>: \<open>src/controllers\<close>, \<open>src/router/router.cpp\<close>. The locale \<open>request_controller\<close> is the
    contract of \<open>route_to_controller\<close>; both validated controllers and the base class interpret it.
  \<^item> \<open>World_Change\<close>: what the calls of the services leave of the world as it was (\<open>keeps\<close>), with the locale
    \<open>world_change\<close> for the relations that calls compose to.
  \<^item> \<open>Interleaved_Calls\<close>: several background workers that use the same services, each cut at its calls
    (\<open>call_step\<close>). The locales \<open>bounded_program\<close> and \<open>guarded_program\<close> are the contract of such a program, and
    \<open>embedded_program\<close> that of one that runs inside another.
  \<^item> \<open>Fundamentals_System\<close>, \<open>Duckdb_System\<close>: the controllers that make several calls,
    \<open>src/controllers/fundamentals_controller.cpp\<close> (\<open>fund_next\<close>) and \<open>src/controllers/duckdb_controller.cpp\<close> with
    \<open>src/services/duckdb_service.cpp\<close> (\<open>duck_next\<close>), as such programs; they interpret the first two locales. Queries come
    with any where clause, as in the code; what is shown of their answers is about runs whose clauses are plain. A
    download is cut at its network operations too (\<open>net_next\<close>, \<open>src/services/data_provider_service.cpp\<close>).
  \<^item> \<open>Background_System\<close>: the lambda that a session posts, for every route, as one such program (\<open>work_next\<close>), in
    which the programs of the two controllers are embedded.
  \<^item> \<open>Json_Codec\<close>, \<open>Controller_Answers\<close>: a printer and a parser of JSON with their round trip, and what a
    client reads in the answers of the two routes that build JSON objects.
  \<^item> \<open>Http_Session\<close>: \<open>src/web/http_session.cpp\<close>: token check, CORS, dispatch, responses, and the life of a
    connection as the step relation \<open>session_step\<close> over its pending operations.
  \<^item> \<open>Symbols\<close>, \<open>Shared_State\<close>: \<open>src/web/symbol.cpp\<close>, \<open>src/web/shared_state.cpp\<close>. A null pointer that
    \<open>operator[]\<close> leaves in the map of symbols is \<open>None\<close>; dereferencing it is \<open>Abort\<close>.
  \<^item> \<open>Subscriber\<close>, \<open>Publisher\<close>: \<open>src/web/subscriber.cpp\<close>, \<open>src/web/publisher.cpp\<close>. \<open>system_step\<close> interleaves the
    sessions' calls, and the rounds of these, with the rounds of the subscriber.
  \<^item> \<open>Locked_State\<close>, \<open>Locked_Refinement\<close>, \<open>Locked_Liveness\<close>: the shared state under its mutexes. The handlers of
    \<open>src/web/shared_state.cpp\<close> and the copy of the publisher are cut at every lock, unlock and push
    (\<open>lock_step\<close>); a null symbol and two producers in one queue are faults that end a run.
  \<^item> \<open>Websocket_Session\<close>: \<open>src/web/websocket_session.cpp\<close>; \<open>strand_step\<close> runs one handler of the strand.
  \<^item> \<open>Listener\<close>, \<open>Webserver\<close>, \<open>Worker_Pool\<close>: \<open>src/web/listener.cpp\<close>, \<open>src/web/webserver.cpp\<close> and the threads
    that run the background context, without what their handlers compute (\<open>pool_step\<close>).
  \<^item> \<open>Worker_System\<close>, \<open>Worker_Liveness\<close>: the same threads with the requests they work on (\<open>worker_step\<close>): the queue
    of handlers, the coroutines of downloads that run on these threads, the workers that wait for them; and
    when requests end.
  \<^item> \<open>Broker_Spec\<close>, \<open>Web_Socket_System\<close>, \<open>Web_Socket_Runs\<close>: an abstract broker, and the sessions, the subscriber and the publisher as
    one step relation (\<open>sys_step\<close>) that refines it; objects live, die and are freed as in the code. The
    handler of a message and the destructor are cut into the rounds of \<open>Locked_Refinement\<close>, the publisher at its
    copy and at each send; \<open>message_handled\<close>, \<open>session_destroyed_left\<close> and \<open>message_published\<close> say that the steps in
    a row are the functions of \<open>Shared_State\<close>, \<open>Websocket_Session\<close> and \<open>Publisher\<close>.
  \<^item> \<open>Web_Socket_Redis\<close>: the Redis subscriptions in runs of this system in which the queue of the subscriber has room.
  \<^item> \<open>Server_System\<close>: all connections with their HTTP sessions, the threads of \<open>Worker_System\<close> with their
    requests, and the web socket system as one step relation (\<open>server_step\<close>), with a log of what each connection
    caused. What a thread does for a request is cut at its calls here as well.
  \<^item> \<open>Redis_Uploader\<close>: \<open>src/redis_subscriber.cpp\<close>, \<open>src/redis_uploader.cpp\<close>; \<open>Upload_Reference\<close> is a reference
    definition of its batches, and \<open>Uploader_System\<close> runs its three loops at the same time (\<open>upload_step\<close>).
  \<^item> \<open>Ws_Vendor\<close>: \<open>src/ws_vendor.cpp\<close>, with one buffer per thread as in the code.
  \<^item> \<open>Quote_Pipeline\<close>: vendor client with any number of threads, Redis channels, and the three loops of the uploader at
    the same time.
  \<^item> \<open>Root_Certificates\<close>: the loaders of \<open>include/root_certificates.hpp\<close>, which the data provider calls.
  \<^item> \<open>Main_Program\<close>: \<open>src/main.cpp\<close>.
  \<^item> \<open>Server_Process\<close>: the whole function \<open>webserver\<close> with the router inside the shared state, and the restart
    loop of \<open>main\<close> around it.

  \<^bold>\<open>What is shown\<close>

  \<^item> Refinement and equivalence: the web socket server is a broker (C1), with the order of messages
    from Redis to the session (C2), no dangling session pointer (C10) and no stuck message (C24) as consequences
    or companions; the background threads run an interleaving of the calls of their requests and lose none
    (C5), and these calls are the posted lambda (C21); the uploader's loop stores the chunks of a
    reference definition (C17).
  \<^item> Mutexes: a round of the loops of the shared state may be taken as one step (C7), which is how the
    web socket system takes it; the sets of sessions change under their mutexes only (C28), and the
    mutexes cause no deadlock (C29).
  \<^item> Access and answers: only requests that pass the token check have effects, in any interleaving of
    connections, threads and web sockets (C3); each connection gets the answer to its own request, and
    the answer is about the fund it asked for (C4, C18); who passes the check (C16).
  \<^item> Progress of the background: requests end while fewer are open than there are threads (C20); threads are lost
    to downloads that wait for each other (C19) and to requests that hang (C22).
  \<^item> Invariants over reachable states: the write queue of a web socket session (C8), the shared state
    (C9), the three loops of the uploader (C12, C26), the cached and answered URLs under concurrent
    requests (C13), the agreement of Redis subscriptions with the sessions (C14, C25), the messages of the
    vendor client (C38).
  \<^item> Functional behaviour: the pipeline of quotes (C11), the publisher (C15), the router and its errors (C32),
    the type of its answers (C33), the back-off (C34), the read-through cache (C39).
  \<^item> Round trips: JSON answers as a client reads them (C27), compression (C40).
  \<^item> What does not work as meant, stated as theorems of the code as it is: downloads that are never
    answered (C6) and threads that are lost (C19, C22), a restart that cannot succeed (C23), a queue for one
    producer with two of them (C30), a message that ends the process (C35), lost announcements (C37), a
    stopped upload (C36), silent sessions (C31). Beside the numbered ones, \<open>webserver_process_has_no_exit_status\<close> and
    \<open>missing_parameters_never_rejected\<close> say that the server has no exit status and that missing parameters
    are never reported.

  \<^bold>\<open>Bounds and loops\<close>

  Loops over data are structural. The two polling loops, the loop of the publisher and the loop
  of \<open>main\<close> are \<open>partial_function (option)\<close>, so that not returning is \<open>None\<close>, and the properties say
  when they return. \<open>subscriber_loop\<close> takes the number of rounds; C25 gives a number that is
  enough. In C11 the uploader consumes as often as it takes until all quotes have come.
  \<open>calls_run\<close> takes the number of calls: thirteen are enough for a fund with its download, seven for a query
  and fourteen for the lambda of any request (C21), each call less than one before it in a measure. C20 counts
  handlers as well: 45 for each open request, three for each of its calls and three for its place in the queue. The moves of C29 are at most six for a round,
  one for each of its places, and two for the copy of the publisher.
  The deflate loop is a partial function too, and C40 shows that it ends. The parser of
  \<open>Json_Codec\<close> takes the length of its text as fuel. The queues hold
  1024 messages (\<open>queue_capacity\<close>), as in \<open>shared_state.hpp\<close>. Ports are 16 bit words and hashes 64 bit
  words, which wrap around; \<open>atoi\<close> and \<open>stoi\<close> keep the range of \<open>int\<close>, and a value that the
  standard leaves undefined is \<open>Abort\<close>.

  \<^bold>\<open>What the properties assume of libraries\<close>

  Named hypotheses state documented behaviour: \<open>zlib_laws\<close> (of a stream that could be set up: \<open>total_out\<close> counts the
  output of the calls of deflate that succeed, which is at most \<open>deflateBound\<close>, a call returns \<open>Z_OK\<close> only after
  progress, and inflate undoes the output at the end; setting up and every call may fail), \<open>json_reads_back\<close> and \<open>json_member_laws\<close> (a
  serialized value can be parsed again, members are found under their keys), \<open>driver_laws\<close> (the
  MongoDB driver is initialised once per process), \<open>forwards\<close> (Redis delivers what was published
  on a subscribed channel in order and at most once), \<open>redis_sub_laws\<close> (a successful subscribe adds the channel),
  \<open>services_laws\<close> (Redis and the object store give back what was stored, keys may expire, a presigned
  URL is for the object it was asked for), \<open>redis_keeps\<close> (a key that was set is read back until it expires),
  \<open>duck_laws\<close> (a CREATE adds the table it names and only when there is none, a SELECT with a plain where clause
  changes nothing), \<open>url_laws\<close> (\<open>services_laws\<close>, and no statement of the database and no call of the routes of MongoDB
  and S3 Select writes a key of Redis or removes an object), \<open>query_laws\<close> (\<open>duck_laws\<close>, and the downloads, Redis, the object store and the
  routes of MongoDB and S3 Select do not touch the tables of the database), \<open>ignores_empty\<close> (an empty text is no JSON),
  \<open>never_aborts\<close> (no call made for a request brings the process down), \<open>reports_in_codes\<close> (the network
  operations report errors in their codes, as the overloads with an error code do), \<open>cold_fund\<close> (neither Redis nor the
  object store knows the fund, and its download begins),
  \<open>rejects_bad_arity\<close> (TS.MADD needs triples), \<open>traversal\<close> (iteration over a set visits
  each element once), \<open>net_script\<close> (the results of the network operations). Every property with
  such a hypothesis has a witness with a concrete instance. That the where clauses of a run are plain (\<open>plain_requests\<close>, in the
  half of C18 on queries only) is no law but a restriction of the inputs: the code pastes the clause into its statement
  without a check, and a clause with other SQL can do anything to the tables. Likewise C17 is about commands that all succeed and
  points that are well typed, and C36 says what one ill-typed point does.

  \<^bold>\<open>What is not modelled\<close>

  The libraries themselves (Boost.Asio, with one completion for each of its composed operations, Beast,
  JSON and Program_options, the AWS SDK, redis++, mongocxx, DuckDB, zlib, the JWT decoder), logging other
  than its level (\<open>severity\<close> is an instance of \<open>linorder\<close>), the text of the certificates, the tests, and \<open>src/web/main.cpp\<close>, which is commented out. The memory
  model of C++: in \<open>Locked_State\<close> what happens between two locks, unlocks or pushes is one step, and the web
  socket system takes a round on one topic as one step, as C7 allows, and so it takes a round of the subscriber; the
  names of symbols are fixed, so that a lookup in their map outside of a lock changes nothing until it meets an
  unknown name, which is a fault. A push by two producers at once (C30) is outside of the other step relations: they
  say what happens when the pushes come one after the other.

  \<^bold>\<open>Plan\<close>

  Possible extensions: answers of the remaining routes as a client reads them, as in \<open>Controller_Answers\<close>; the start
  and the end of the process (\<open>Server_Process\<close>, \<open>Listener\<close>) around \<open>Server_System\<close>.
\<close>

section \<open>Properties that span components\<close>

text \<open>
  C6: a failed download is never answered. For a request of the form GET /fundamentals?sravzid=... that
  neither the cache nor the object store can serve, a failure of any network step (name lookup,
  connection, handshake, request or response) leaves the background worker of the HTTP session
  waiting for ever: no response is posted, and the status 500 that the router keeps for errors is
  never sent, because the promise of the download is not fulfilled on the error paths.
\<close>
theorem failed_download_never_answered:
  assumes "req_method req = Verb_get" and "rt_parse_url R (req_target req) = Inr (''fundamentals'' # segments, params)"
    and "params_to_map params Map.empty ''sravzid'' = Some fund"
    and "net_script (fd_net (rt_fundamentals R)) sni res con hs wr rd body sh"
    and "\<not> sni \<or> res \<noteq> None \<or> con \<noteq> None \<or> hs \<noteq> None \<or> wr \<noteq> None \<or> rd \<noteq> None"
    and "rd_get (fd_redis (rt_fundamentals R)) (fundamentals_location fund) w = (Ret None, w1)"
    and "s3_HeadObject (fd_s3 (rt_fundamentals R)) (fd_s3_config (rt_fundamentals R)) FUNDAMENTALS_BUCKET_NAME
           (fundamentals_location fund) w1 = (Ret False, w2)"
    and "ConvertMutualFundSravzIDToCode fund = Ret code"
  shows "fst (background_work P R ao req w) = Blocked"
proof -
  let ?m = "FundamentalsController_validate_request (PreSignedUrlModel (params_to_map params Map.empty))"
  let ?get = "FundamentalsController_get (rt_fundamentals R)"
  have "pm_sravzid ?m = fund"
    using assms(3) by (simp add: FundamentalsController_validate_request_def set_param_def)
  with failed_download_blocks [OF assms(4,5), of ?m w w1 w2 code] assms(6-8)
  have blocked: "fst (?get ?m w) = Blocked" by simp
  have "route_dispatch R Verb_get (req_target req) (req_body req) =
      io_bind (?get ?m) (\<lambda>m. io_return (status m, PreSignedUrlModel_to_json (rt_json R) m))"
    using route_dispatch_parsed [OF assms(2)]
    by (simp add: route_get_def Let_def fundamentals.routed_to_get)
  with blocked have "fst (route_dispatch R Verb_get (req_target req) (req_body req) w) = Blocked"
    by (cases "?get ?m w") (simp add: io_bind_def)
  then show ?thesis
    unfolding background_work_def assms(1)
    by (cases "route_dispatch R Verb_get (req_target req) (req_body req) w")
      (simp add: route_def io_catch_def io_bind_def)
qed

theorem failed_download_never_answered_witness:
  "fst (background_work sample_params cold_router [] sample_request ()) = Blocked"
proof (rule failed_download_never_answered)
  show "net_script (fd_net (rt_fundamentals cold_router)) True (Some ''host not found'') None None None None [] None"
    by (simp add: net_script_def cold_router_def sample_router_def sample_fundamentals_def broken_net_def io_return_def)
  show "ConvertMutualFundSravzIDToCode ''fund_us_abc'' = Ret (ToUpper ''abc'' @ ''.'' @ ToUpper ''us'')"
    using ConvertMutualFundSravzIDToCode_join3 [of "''fund''" "''us''" "''abc''"] by (simp del: ToUpper.simps)
  show "rt_parse_url cold_router (req_target sample_request) = Inr ([''fundamentals''], [(''sravzid'', ''fund_us_abc'')])"
    by (simp add: cold_router_def)
qed (simp_all add: sample_request_def cold_router_def sample_router_def sample_fundamentals_def empty_redis_def sample_redis_def
    sample_s3_def io_return_def)

text \<open>
  Subscribing and leaving decide who gets a message. After the shared state has handled a
  session's subscribe message for configured topics, publishing on one of them posts the message
  to that session if it lives; once the session has left, publishing on any configured topic
  leaves it alone.
\<close>
theorem subscribe_publish_leave:
  assumes "state_ok st" and "traversal order" and "\<forall>t. finite (registered st t)"
    and "parse_message J split msg = Inr (Some (SUBSCRIBE, topics))" and "set topics \<subseteq> known_topics st"
    and "live session = Some ws"
  shows "\<exists>st1. shared_parse Q J split msg session st = (Ret (), st1) \<and>
    (\<forall>topic \<in> set topics. \<exists>p. publish_message order (topic, payload) \<lparr>pb_state = st1, pb_sessions = live\<rparr> = (Ret (), p) \<and>
       pb_sessions p session = Some (ws_send payload ws)) \<and>
    (\<exists>st2. shared_leave Q session st1 = (Ret (), st2) \<and>
       (\<forall>topic \<in> known_topics st. \<exists>p. publish_message order (topic, payload) \<lparr>pb_state = st2, pb_sessions = live\<rparr> = (Ret (), p) \<and>
          pb_sessions p session = Some ws))"
proof -
  from subscribe_list_known [OF assms(5), of Q session] obtain st1 where
    st1: "websocket_subscribe_to_symbols Q session topics st = (Ret (), st1)" "known_topics st1 = known_topics st"
      "registered st1 = (\<lambda>t. if t \<in> set topics then insert session (registered st t) else registered st t)" by blast
  from st1(1) assms(4) have p: "shared_parse Q J split msg session st = (Ret (), st1)"
    by (simp add: shared_parse_def)
  from shared_parse_ok [OF assms(1) p] have ok1: "state_ok st1" by simp
  from shared_leave_state [OF this, of Q session] obtain st2 where
    st2: "shared_leave Q session st1 = (Ret (), st2)" "known_topics st2 = known_topics st1"
      "registered st2 = (\<lambda>t. registered st1 t - {session})" by blast
  have o1: "distinct (order (registered st1 t)) \<and> set (order (registered st1 t)) = registered st1 t" for t
    using assms(2,3) by (simp add: traversal_def st1(3))
  have o2: "distinct (order (registered st2 t)) \<and> set (order (registered st2 t)) = registered st2 t" for t
    using assms(2,3) by (simp add: traversal_def st1(3) st2(3))
  have "\<exists>p. publish_message order (topic, payload) \<lparr>pb_state = st1, pb_sessions = live\<rparr> = (Ret (), p) \<and>
       pb_sessions p session = Some (ws_send payload ws)" if t: "topic \<in> set topics" for topic
  proof -
    have known: "topic \<in> known_topics (pb_state \<lparr>pb_state = st1, pb_sessions = live\<rparr>)" using t assms(5) st1(2) by auto
    have "session \<in> set (order (registered st1 topic))" using o1 [of topic] t by (simp add: st1(3))
    with publish_known [OF known, of order payload] o1 [of topic] assms(6) show ?thesis
      by (simp add: fold_lock_and_send)
  qed
  moreover have "\<exists>p. publish_message order (topic, payload) \<lparr>pb_state = st2, pb_sessions = live\<rparr> = (Ret (), p) \<and>
       pb_sessions p session = Some ws" if t: "topic \<in> known_topics st" for topic
  proof -
    have known: "topic \<in> known_topics (pb_state \<lparr>pb_state = st2, pb_sessions = live\<rparr>)" using t st1(2) st2(2) by simp
    have "session \<notin> set (order (registered st2 topic))" using o2 [of topic] by (simp add: st2(3))
    with publish_known [OF known, of order payload] o2 [of topic] assms(6) show ?thesis
      by (simp add: fold_lock_and_send)
  qed
  ultimately show ?thesis using p st2(1) by blast
qed

theorem subscribe_publish_leave_witness:
  "\<exists>st1 p. shared_parse bounded_queue (sample_json subscribe_text) (\<lambda>s. [s]) ''sub'' 7 (one_topic_state []) = (Ret (), st1) \<and>
     publish_message sorted_list_of_set (''ETH'', ''42'') \<lparr>pb_state = st1, pb_sessions = [7 \<mapsto> new_websocket_session 7]\<rparr> = (Ret (), p) \<and>
     pb_sessions p 7 = Some (ws_send ''42'' (new_websocket_session 7))"
proof -
  let ?st = "one_topic_state []"
  have ok: "state_ok ?st" by (simp add: one_topic_state_ok)
  have fin: "\<forall>t. finite (registered ?st t)" by (simp add: registered_def one_topic_state_def new_symbol_def split: option.split)
  have known: "set [''ETH''] \<subseteq> known_topics ?st" by (simp add: known_topics_def one_topic_state_def)
  let ?live = "[7 \<mapsto> new_websocket_session 7]"
  have live: "?live (7 :: sid) = Some (new_websocket_session 7)" by simp
  note routed = subscribe_publish_leave [where live = ?live and session = 7, OF ok sorted_traversal fin parse_subscribe_text known live]
  from routed [of bounded_queue "''42''"] show ?thesis by auto
qed

end
